(* ===== verification/Prelude.thy ===== *)
theory Prelude
  imports Main "HOL-Library.Word" "HOL-Library.Char_ord" "HOL-Library.List_Lexorder"
begin

text \<open>
  Shared vocabulary of the development: fallible results as sums, the fact collections the
  component proofs use, and generic facts on lists, association lists and bytes. Go strings
  are byte sequences, so they are \<^typ>\<open>string\<close> (a \<^typ>\<open>char\<close> is one byte); bytes on a wire
  are \<^typ>\<open>8 word\<close>. A Go map is an association list with distinct keys: the list order is
  the order in which one \<open>range\<close> loop happens to visit the entries, so a statement about
  every such list is a statement about every iteration order.
\<close>

named_theorems result_simps "evaluation rules for fallible computations"
named_theorems go_simps "characterisations of the Go library functions the program uses"

section \<open>Fallible results\<close>

text \<open>Go's pair \<open>(value, err)\<close> as a sum: \<open>Inl\<close> is the error return.\<close>

definition rbind :: "'e + 'a \<Rightarrow> ('a \<Rightarrow> 'e + 'b) \<Rightarrow> 'e + 'b" where
  "rbind r f = (case r of Inl e \<Rightarrow> Inl e | Inr x \<Rightarrow> f x)"

definition guard_err :: "bool \<Rightarrow> 'e \<Rightarrow> 'e + unit" where
  "guard_err bad e = (if bad then Inl e else Inr ())"

definition wrap_err :: "('e \<Rightarrow> 'f) \<Rightarrow> 'e + 'a \<Rightarrow> 'f + 'a" where
  "wrap_err f r = (case r of Inl e \<Rightarrow> Inl (f e) | Inr x \<Rightarrow> Inr x)"

definition ok :: "'e + 'a \<Rightarrow> bool" where
  "ok r \<longleftrightarrow> (case r of Inl _ \<Rightarrow> False | Inr _ \<Rightarrow> True)"

lemma rbind_simps [simp, result_simps]:
  "rbind (Inl e) f = Inl e"
  "rbind (Inr x) f = f x"
  by (simp_all add: rbind_def)

lemma rbind_Inr_iff [result_simps]: "rbind r f = Inr y \<longleftrightarrow> (\<exists>x. r = Inr x \<and> f x = Inr y)"
  by (cases r) auto

lemma rbind_Inl_iff [result_simps]:
  "rbind r f = Inl e \<longleftrightarrow> r = Inl e \<or> (\<exists>x. r = Inr x \<and> f x = Inl e)"
  by (cases r) auto

lemma guard_err_simps [simp]:
  "guard_err True e = Inl e"
  "guard_err False e = Inr ()"
  by (simp_all add: guard_err_def)

lemma guard_err_Inr_iff [simp, result_simps]: "guard_err b e = Inr x \<longleftrightarrow> \<not> b"
  by (cases b) auto

lemma guard_err_Inl_iff [simp, result_simps]: "guard_err b e = Inl e' \<longleftrightarrow> b \<and> e = e'"
  by (cases b) auto

lemma wrap_err_simps [simp]:
  "wrap_err f (Inl e) = Inl (f e)"
  "wrap_err f (Inr x) = Inr x"
  by (simp_all add: wrap_err_def)

lemma wrap_err_Inr_iff [simp, result_simps]: "wrap_err f r = Inr x \<longleftrightarrow> r = Inr x"
  by (cases r) auto

lemma ok_simps [simp]: "ok (Inr x)" "\<not> ok (Inl e)"
  by (simp_all add: ok_def)

lemma ok_iff: "ok r \<longleftrightarrow> (\<exists>x. r = Inr x)"
  by (cases r) auto

text \<open>A loop that stops at the first error.\<close>

fun check_all :: "('a \<Rightarrow> 'e + unit) \<Rightarrow> 'a list \<Rightarrow> 'e + unit" where
  "check_all f [] = Inr ()"
| "check_all f (x # xs) = rbind (f x) (\<lambda>_. check_all f xs)"

lemma check_all_ok_iff [result_simps]: "check_all f xs = Inr u \<longleftrightarrow> (\<forall>x \<in> set xs. f x = Inr ())"
proof (induction xs)
  case (Cons x xs)
  then show ?case by (cases "f x") auto
qed simp

lemma check_all_Inl: "check_all f xs = Inl e \<Longrightarrow> \<exists>x \<in> set xs. f x = Inl e"
proof (induction xs)
  case (Cons x xs)
  then show ?case by (cases "f x") auto
qed simp

text \<open>The same loop with the index Go's \<open>range\<close> supplies.\<close>

definition indexed :: "'a list \<Rightarrow> (nat \<times> 'a) list" where
  "indexed xs = zip [0..<length xs] xs"

lemma set_indexed: "(i, x) \<in> set (indexed xs) \<longleftrightarrow> i < length xs \<and> x = xs ! i"
proof
  assume "i < length xs \<and> x = xs ! i"
  then show "(i, x) \<in> set (indexed xs)"
    by (auto simp: indexed_def in_set_zip intro!: exI [of _ i])
qed (auto simp: indexed_def in_set_zip)

lemma ball_indexed: "(\<forall>p \<in> set (indexed xs). P p) \<longleftrightarrow> (\<forall>i < length xs. P (i, xs ! i))"
  by (auto simp: set_indexed)

lemma find_append_Some: "find P xs = Some x \<Longrightarrow> find P (xs @ ys) = Some x"
  by (induction xs) (auto split: if_splits)

section \<open>Association lists as Go maps\<close>

definition keys :: "('k \<times> 'v) list \<Rightarrow> 'k list" where
  "keys m = map fst m"

definition wf_map :: "('k \<times> 'v) list \<Rightarrow> bool" where
  "wf_map m \<longleftrightarrow> distinct (keys m)"

text \<open>\<open>m[k] = v\<close>: overwrite the entry or add one.\<close>

fun put :: "('k \<times> 'v) list \<Rightarrow> 'k \<Rightarrow> 'v \<Rightarrow> ('k \<times> 'v) list" where
  "put [] k v = [(k, v)]"
| "put ((k', v') # m) k v = (if k' = k then (k, v) # m else (k', v') # put m k v)"

lemma map_of_put [simp]: "map_of (put m k v) = (map_of m)(k \<mapsto> v)"
  by (induction m) auto

lemma set_keys_put [simp]: "set (keys (put m k v)) = insert k (set (keys m))"
proof (induction m)
  case (Cons p m)
  then show ?case by (cases p) (auto simp: keys_def)
qed (simp add: keys_def)

lemma wf_map_put [simp, intro]: "wf_map m \<Longrightarrow> wf_map (put m k v)"
proof (induction m)
  case (Cons p m)
  obtain k' v' where p: "p = (k', v')" by force
  have "wf_map m" "k' \<notin> set (keys m)"
    using Cons.prems by (auto simp: wf_map_def keys_def p)
  moreover have "set (keys (put m k v)) = insert k (set (keys m))"
    by simp
  ultimately show ?case
    using Cons by (auto simp: wf_map_def keys_def p)
qed (simp add: wf_map_def keys_def)

lemma wf_map_Nil [simp]: "wf_map []"
  by (simp add: wf_map_def keys_def)

lemma map_of_eq_None_keys: "map_of m k = None \<longleftrightarrow> k \<notin> set (keys m)"
  by (simp add: keys_def map_of_eq_None_iff)

lemma map_of_Some_keys: "(\<exists>v. map_of m k = Some v) \<longleftrightarrow> k \<in> set (keys m)"
  using map_of_eq_None_keys[of m k] by (cases "map_of m k") auto

lemma wf_map_of_iff: "wf_map m \<Longrightarrow> map_of m k = Some v \<longleftrightarrow> (k, v) \<in> set m"
  by (simp add: wf_map_def keys_def)

text \<open>\<open>slices.Sorted(maps.Keys(m))\<close>.\<close>

definition sorted_keys :: "('k::linorder \<times> 'v) list \<Rightarrow> 'k list" where
  "sorted_keys m = sort (keys m)"

lemma set_sorted_keys [simp]: "set (sorted_keys m) = set (keys m)"
  by (simp add: sorted_keys_def)

lemma sorted_keys_sorted: "sorted (sorted_keys m)"
  by (simp add: sorted_keys_def)

lemma distinct_sorted_keys: "wf_map m \<Longrightarrow> distinct (sorted_keys m)"
  by (simp add: sorted_keys_def wf_map_def)

text \<open>Two lists for the same Go map have the same sorted keys: the order of iteration is gone.\<close>

lemma sorted_keys_cong:
  assumes "wf_map m" "wf_map m'" "map_of m = map_of m'"
  shows "sorted_keys m = sorted_keys m'"
proof -
  have "set (keys m) = set (keys m')"
    using assms(3) by (metis map_of_eq_None_keys subset_antisym subsetI)
  then show ?thesis
    using assms(1,2) by (intro sorted_distinct_set_unique)
      (simp_all add: sorted_keys_sorted distinct_sorted_keys)
qed

section \<open>Bytes\<close>

type_synonym byte = "8 word"

definition bytes_of :: "string \<Rightarrow> byte list" where
  "bytes_of s = map of_char s"

definition string_of :: "byte list \<Rightarrow> string" where
  "string_of bs = map (\<lambda>b. char_of (unat b)) bs"

lemma unat_of_char [simp]: "unat (of_char c :: byte) = of_char c"
proof -
  have "of_char c < (256::nat)"
    by simp
  moreover have "(of_char c :: byte) = word_of_nat (of_char c)"
    by (cases c) (simp add: of_char_def)
  ultimately show ?thesis
    by (simp add: unat_of_nat take_bit_nat_eq_self)
qed

lemma string_of_bytes_of [simp]: "string_of (bytes_of s) = s"
  by (induction s) (simp_all add: string_of_def bytes_of_def)

lemma bytes_of_string_of [simp]: "bytes_of (string_of bs) = bs"
proof (induction bs)
  case (Cons b bs)
  have "unat b < 256" using unsigned_less [of b] by simp
  then have "unat (of_char (char_of (unat b) :: char) :: byte) = unat b"
    by simp
  then have "(of_char (char_of (unat b) :: char) :: byte) = b"
    using unsigned_word_eqI by blast
  with Cons show ?case by (simp add: string_of_def bytes_of_def)
qed (simp add: string_of_def bytes_of_def)

lemma length_bytes_of [simp]: "length (bytes_of s) = length s"
  by (simp add: bytes_of_def)

lemma length_string_of [simp]: "length (string_of bs) = length bs"
  by (simp add: string_of_def)

lemma bytes_of_inject [simp]: "bytes_of s = bytes_of t \<longleftrightarrow> s = t"
  by (metis string_of_bytes_of)

lemma bytes_of_append [simp]: "bytes_of (s @ t) = bytes_of s @ bytes_of t"
  by (simp add: bytes_of_def)

text \<open>\<open>byte(n)\<close> for a bounded length, and \<open>binary.BigEndian\<close> on 16 bits.\<close>

definition byte_of_nat :: "nat \<Rightarrow> byte" where
  "byte_of_nat n = word_of_nat n"

lemma unat_byte_of_nat [simp]: "n < 256 \<Longrightarrow> unat (byte_of_nat n) = n"
  by (simp add: byte_of_nat_def unat_of_nat take_bit_nat_eq_self)

definition put_uint16 :: "16 word \<Rightarrow> byte list" where
  "put_uint16 w = [ucast (drop_bit 8 w), ucast w]"

definition get_uint16 :: "byte \<Rightarrow> byte \<Rightarrow> nat" where
  "get_uint16 hi lo = unat hi * 256 + unat lo"

lemma length_put_uint16 [simp]: "length (put_uint16 w) = 2"
  by (simp add: put_uint16_def)

lemma get_put_uint16:
  assumes "put_uint16 w = [hi, lo]"
  shows "get_uint16 hi lo = unat w"
proof -
  have lt: "unat w < 65536" using unsigned_less [of w] by simp
  have hi: "unat (ucast (drop_bit 8 w) :: byte) = unat w div 256"
  proof -
    have "unat (ucast (drop_bit 8 w) :: byte) = take_bit 8 (unat (drop_bit 8 w))"
      by (simp add: unsigned_ucast_eq)
    also have "\<dots> = take_bit 8 (unat w div 256)"
      using lt
      by (simp add: unsigned_drop_bit_eq take_bit_nat_eq_self flip: drop_bit_eq_div [of 8, simplified])
    also have "\<dots> = unat w div 256"
      using lt by (simp add: take_bit_nat_eq_self_iff)
    finally show ?thesis .
  qed
  have lo: "unat (ucast w :: byte) = unat w mod 256"
    by (simp add: unsigned_ucast_eq take_bit_eq_mod)
  show ?thesis
    using assms by (auto simp: put_uint16_def get_uint16_def hi lo)
qed

end
