(* ===== verification/GoLib.thy ===== *)
theory GoLib
  imports Prelude
begin

text \<open>
  The part of Go's standard library the program computes with: \<open>strings\<close>, \<open>strconv\<close> and the
  pure functions of \<open>net\<close> (\<open>SplitHostPort\<close>, \<open>JoinHostPort\<close>, \<open>IP.String\<close>). Each definition
  follows the library's own control flow; the lemmas are the facts the components rest on.
  \<open>ToLower\<close> and \<open>TrimSpace\<close> are given for ASCII: bytes from 128 up are left as they are, which
  is what Go does for host names as they occur on the wire (internationalised names are
  punycode) and is the bound of the model for other text.
\<close>

section \<open>strings\<close>

definition has_prefix :: "string \<Rightarrow> string \<Rightarrow> bool" where
  "has_prefix p s \<longleftrightarrow> take (length p) s = p"

definition has_suffix :: "string \<Rightarrow> string \<Rightarrow> bool" where
  "has_suffix p s \<longleftrightarrow> has_prefix (rev p) (rev s)"

definition trim_prefix :: "string \<Rightarrow> string \<Rightarrow> string" where
  "trim_prefix p s = (if has_prefix p s then drop (length p) s else s)"

definition cut_prefix :: "string \<Rightarrow> string \<Rightarrow> string option" where
  "cut_prefix p s = (if has_prefix p s then Some (drop (length p) s) else None)"

text \<open>\<open>IndexByte\<close> and \<open>LastIndexByte\<close>; Go's \<open>-1\<close> is \<open>None\<close>.\<close>

fun index_of :: "char \<Rightarrow> string \<Rightarrow> nat option" where
  "index_of c [] = None"
| "index_of c (x # xs) = (if x = c then Some 0 else map_option Suc (index_of c xs))"

fun last_index_of :: "char \<Rightarrow> string \<Rightarrow> nat option" where
  "last_index_of c [] = None"
| "last_index_of c (x # xs) = (case last_index_of c xs of
     Some i \<Rightarrow> Some (Suc i) | None \<Rightarrow> (if x = c then Some 0 else None))"

text \<open>\<open>strings.Cut(s, sep)\<close> for a one-byte separator.\<close>

definition cut :: "char \<Rightarrow> string \<Rightarrow> string \<times> string \<times> bool" where
  "cut c s = (case index_of c s of None \<Rightarrow> (s, [], False)
     | Some i \<Rightarrow> (take i s, drop (Suc i) s, True))"

definition lower_char :: "char \<Rightarrow> char" where
  "lower_char c = (if CHR ''A'' \<le> c \<and> c \<le> CHR ''Z'' then char_of (of_char c + (32::nat)) else c)"

definition to_lower :: "string \<Rightarrow> string" where
  "to_lower s = map lower_char s"

definition is_space :: "char \<Rightarrow> bool" where
  "is_space c \<longleftrightarrow> c \<in> {CHR '' '', CHR 0x09, CHR 0x0A, CHR 0x0B, CHR 0x0C, CHR 0x0D}"

definition trim_space :: "string \<Rightarrow> string" where
  "trim_space s = rev (dropWhile is_space (rev (dropWhile is_space s)))"

fun join_with :: "string \<Rightarrow> string list \<Rightarrow> string" where
  "join_with sep [] = []"
| "join_with sep [x] = x"
| "join_with sep (x # y # ys) = x @ sep @ join_with sep (y # ys)"

lemma has_prefix_iff: "has_prefix p s \<longleftrightarrow> (\<exists>t. s = p @ t)"
  unfolding has_prefix_def by (metis append_eq_conv_conj append_take_drop_id)

lemma has_suffix_iff: "has_suffix p s \<longleftrightarrow> (\<exists>t. s = t @ p)"
proof
  assume "has_suffix p s"
  then obtain t where "rev s = rev p @ t"
    by (auto simp: has_suffix_def has_prefix_iff)
  then have "s = rev t @ p"
    by (metis rev_append rev_rev_ident)
  then show "\<exists>t. s = t @ p" ..
qed (auto simp: has_suffix_def has_prefix_iff)

lemma has_prefix_append [simp]: "has_prefix p (p @ t)"
  by (simp add: has_prefix_def)

lemma trim_prefix_append [simp]: "trim_prefix p (p @ t) = t"
  by (simp add: trim_prefix_def)

lemma cut_prefix_append [simp]: "cut_prefix p (p @ t) = Some t"
  by (simp add: cut_prefix_def)

lemma index_of_None_iff [go_simps]: "index_of c s = None \<longleftrightarrow> c \<notin> set s"
  by (induction s) auto

lemma index_of_append:
  "index_of c (s @ t) = (case index_of c s of Some i \<Rightarrow> Some i
     | None \<Rightarrow> map_option ((+) (length s)) (index_of c t))"
  by (induction s; cases "index_of c t") (auto split: option.splits)

lemma index_of_Some_split:
  "index_of c s = Some i \<longleftrightarrow> i < length s \<and> s ! i = c \<and> c \<notin> set (take i s)"
proof (induction s arbitrary: i)
  case (Cons x s)
  then show ?case by (cases i) auto
qed simp

lemma index_of_decomp: "c \<notin> set a \<Longrightarrow> index_of c (a @ c # b) = Some (length a)"
  by (induction a) auto

lemma last_index_of_None_iff [go_simps]: "last_index_of c s = None \<longleftrightarrow> c \<notin> set s"
  by (induction s) (auto split: option.splits)

lemma last_index_of_decomp: "c \<notin> set b \<Longrightarrow> last_index_of c (a @ c # b) = Some (length a)"
proof (induction a)
  case Nil
  then show ?case by (simp add: last_index_of_None_iff [THEN iffD2])
qed simp

lemma last_index_of_Some_decomp:
  assumes "last_index_of c s = Some i"
  shows "s = take i s @ c # drop (Suc i) s \<and> c \<notin> set (drop (Suc i) s) \<and> i < length s"
proof -
  have "c \<in> set s" using assms last_index_of_None_iff [of c s] by fastforce
  then obtain a b where s: "s = a @ c # b" and b: "c \<notin> set b"
    by (meson split_list_last)
  then have "i = length a" using assms last_index_of_decomp by fastforce
  with s b show ?thesis by simp
qed

lemma cut_decomp [go_simps]: "c \<notin> set a \<Longrightarrow> cut c (a @ c # b) = (a, b, True)"
  by (simp add: cut_def index_of_decomp)

lemma lower_char_idem [simp]: "lower_char (lower_char c) = lower_char c"
proof (cases "CHR ''A'' \<le> c \<and> c \<le> CHR ''Z''")
  case True
  then have b: "65 \<le> (of_char c :: nat)" "(of_char c :: nat) \<le> 90"
    by (simp_all add: less_eq_char_def)
  then have "(of_char (char_of (of_char c + (32::nat)) :: char) :: nat) = of_char c + 32"
    by (simp add: of_char_mod_256)
  with b True show ?thesis
    by (simp add: lower_char_def less_eq_char_def)
qed (auto simp: lower_char_def)

lemma to_lower_idem [simp]: "to_lower (to_lower s) = to_lower s"
  by (simp add: to_lower_def)

text \<open>Lower case changes no delimiter and creates none.\<close>

lemma lower_char_code:
  "(of_char (lower_char c) :: nat) =
     (if 65 \<le> (of_char c :: nat) \<and> (of_char c :: nat) \<le> 90 then of_char c + 32 else of_char c)"
  by (auto simp: lower_char_def less_eq_char_def of_char_mod_256)

lemma lower_char_delim:
  assumes "(of_char d :: nat) < 65 \<or> (90 < (of_char d :: nat) \<and> (of_char d :: nat) < 97)"
  shows "lower_char c = d \<longleftrightarrow> c = d"
proof -
  have "lower_char c = d \<longleftrightarrow> (of_char (lower_char c) :: nat) = of_char d"
    by simp
  then show ?thesis
    using assms unfolding lower_char_code by (auto split: if_splits)
qed

lemma to_lower_delim:
  assumes "(of_char d :: nat) < 65 \<or> (90 < (of_char d :: nat) \<and> (of_char d :: nat) < 97)"
  shows "d \<in> set (to_lower s) \<longleftrightarrow> d \<in> set s"
  using lower_char_delim [OF assms] by (simp add: to_lower_def image_iff eq_commute [of d])

lemma to_lower_append [simp]: "to_lower (s @ t) = to_lower s @ to_lower t"
  by (simp add: to_lower_def)

lemma length_to_lower [simp]: "length (to_lower s) = length s"
  by (simp add: to_lower_def)

section \<open>strconv\<close>

definition digit :: "nat \<Rightarrow> char" where
  "digit d = ''0123456789'' ! d"

definition is_digit :: "char \<Rightarrow> bool" where
  "is_digit c \<longleftrightarrow> CHR ''0'' \<le> c \<and> c \<le> CHR ''9''"

fun nat_str :: "nat \<Rightarrow> string" where
  "nat_str n = (if n < 10 then [digit n] else nat_str (n div 10) @ [digit (n mod 10)])"

declare nat_str.simps [simp del]

text \<open>\<open>strconv.Itoa\<close>.\<close>

definition itoa :: "int \<Rightarrow> string" where
  "itoa i = (if i < 0 then CHR ''-'' # nat_str (nat (- i)) else nat_str (nat i))"

definition digits_val :: "string \<Rightarrow> nat" where
  "digits_val s = fold (\<lambda>c a. a * 10 + (of_char c - 48)) s 0"

text \<open>
  \<open>strconv.Atoi\<close>: an optional sign, then one or more decimal digits, in the range of a 64-bit
  \<open>int\<close>. \<open>None\<close> is the error.
\<close>

definition atoi :: "string \<Rightarrow> int option" where
  "atoi s =
     (let neg = (s \<noteq> [] \<and> hd s = CHR ''-'');
          ds = (if s \<noteq> [] \<and> (hd s = CHR ''-'' \<or> hd s = CHR ''+'') then tl s else s);
          v = int (digits_val ds);
          n = (if neg then - v else v)
      in if ds = [] \<or> \<not> list_all is_digit ds then None
         else if n < - (2 ^ 63) \<or> n > 2 ^ 63 - 1 then None
         else Some n)"

lemma of_char_digit [simp]: "d < 10 \<Longrightarrow> (of_char (digit d) :: nat) = 48 + d"
proof -
  assume "d < 10"
  then have "d \<in> {0, 1, 2, 3, 4, 5, 6, 7, 8, 9}" by auto
  then show ?thesis by (auto simp: digit_def)
qed

lemma is_digit_digit [simp]: "d < 10 \<Longrightarrow> is_digit (digit d)"
  by (simp add: is_digit_def less_eq_char_def)

lemma digits_val_append: "digits_val (s @ [c]) = digits_val s * 10 + (of_char c - 48)"
  by (simp add: digits_val_def)

lemma nat_str_digits: "list_all is_digit (nat_str n)"
proof (induction n rule: nat_str.induct)
  case (1 n)
  then show ?case by (subst nat_str.simps) auto
qed

lemma nat_str_nonempty [simp]: "nat_str n \<noteq> []"
  by (subst nat_str.simps) simp

lemma digits_val_nat_str [simp]: "digits_val (nat_str n) = n"
proof (induction n rule: nat_str.induct)
  case (1 n)
  then show ?case
  proof (cases "n < 10")
    case True
    then show ?thesis by (subst nat_str.simps) (simp add: digits_val_def)
  next
    case False
    with 1 show ?thesis by (subst nat_str.simps) (simp add: digits_val_append)
  qed
qed

lemma is_digit_neq:
  "is_digit c \<Longrightarrow> c \<noteq> CHR '':'' \<and> c \<noteq> CHR ''['' \<and> c \<noteq> CHR '']'' \<and> c \<noteq> CHR ''-'' \<and> c \<noteq> CHR ''+''"
  by (auto simp: is_digit_def less_eq_char_def)

lemma nat_str_no_delims:
  "CHR '':'' \<notin> set (nat_str n)" "CHR ''['' \<notin> set (nat_str n)" "CHR '']'' \<notin> set (nat_str n)"
  using nat_str_digits [of n] is_digit_neq by (auto simp: list_all_iff)

lemma atoi_nat_str [simp]: "n < 2 ^ 63 \<Longrightarrow> atoi (nat_str n) = Some (int n)"
proof -
  assume n: "n < 2 ^ 63"
  have "hd (nat_str n) \<in> set (nat_str n)" by simp
  then have "hd (nat_str n) \<noteq> CHR ''-'' \<and> hd (nat_str n) \<noteq> CHR ''+''"
    using nat_str_digits [of n] is_digit_neq by (auto simp: list_all_iff)
  moreover have "int n \<le> 2 ^ 63 - 1" using n by simp
  ultimately show ?thesis
    using nat_str_digits [of n] by (simp add: atoi_def)
qed

section \<open>net\<close>

datatype addr_err = MissingPort | TooManyColons | MissingBracket | UnexpectedOpen | UnexpectedClose

text \<open>\<open>net.SplitHostPort\<close>, branch for branch.\<close>

definition split_host_port :: "string \<Rightarrow> addr_err + string \<times> string" where
  "split_host_port s =
    (case last_index_of (CHR '':'') s of
       None \<Rightarrow> Inl MissingPort
     | Some i \<Rightarrow>
         (let finish = (\<lambda>host j k.
            if CHR ''['' \<in> set (drop j s) then Inl UnexpectedOpen
            else if CHR '']'' \<in> set (drop k s) then Inl UnexpectedClose
            else Inr (host, drop (Suc i) s))
          in if hd s = CHR ''['' then
               (case index_of (CHR '']'') s of
                  None \<Rightarrow> Inl MissingBracket
                | Some e \<Rightarrow>
                    if Suc e = length s then Inl MissingPort
                    else if Suc e = i then finish (take (e - 1) (drop 1 s)) 1 (Suc e)
                    else if s ! Suc e = CHR '':'' then Inl TooManyColons
                    else Inl MissingPort)
             else if CHR '':'' \<in> set (take i s) then Inl TooManyColons
             else finish (take i s) 0 0))"

text \<open>\<open>net.JoinHostPort\<close>: a host with a colon is taken for an IPv6 literal.\<close>

definition join_host_port :: "string \<Rightarrow> string \<Rightarrow> string" where
  "join_host_port host port =
     (if CHR '':'' \<in> set host then ''['' @ host @ '']:'' @ port else host @ '':'' @ port)"

text \<open>The hosts and ports that survive joining and splitting.\<close>

definition plain :: "string \<Rightarrow> bool" where
  "plain h \<longleftrightarrow> CHR ''['' \<notin> set h \<and> CHR '']'' \<notin> set h"

lemma split_join_host_port:
  assumes "plain host" "plain port" "CHR '':'' \<notin> set port"
  shows "split_host_port (join_host_port host port) = Inr (host, port)"
proof (cases "CHR '':'' \<in> set host")
  case True
  let ?s = "''['' @ host @ '']:'' @ port"
  have "?s = (''['' @ host @ '']'') @ CHR '':'' # port" by simp
  then have li: "last_index_of (CHR '':'') ?s = Some (length host + 2)"
    using last_index_of_decomp [OF assms(3), of "''['' @ host @ '']''"] by simp
  have "?s = (''['' @ host) @ CHR '']'' # CHR '':'' # port" by simp
  then have ix: "index_of (CHR '']'') ?s = Some (length host + 1)"
    using index_of_decomp [of "CHR '']''" "''['' @ host"] assms(1) by (simp add: plain_def)
  have "join_host_port host port = ?s" using True by (simp add: join_host_port_def)
  with li ix assms show ?thesis
    by (simp add: split_host_port_def plain_def)
next
  case False
  then have j: "join_host_port host port = host @ CHR '':'' # port"
    by (simp add: join_host_port_def)
  have hd: "hd (host @ CHR '':'' # port) \<noteq> CHR ''[''"
    using assms(1) by (cases host) (auto simp: plain_def)
  have "last_index_of (CHR '':'') (host @ CHR '':'' # port) = Some (length host)"
    by (rule last_index_of_decomp [OF assms(3)])
  with hd False assms show ?thesis
    by (simp add: split_host_port_def j plain_def)
qed

text \<open>What a successful split says about its input.\<close>

lemma split_host_port_Inr:
  assumes "split_host_port s = Inr (host, port)"
  shows "plain host \<and> plain port \<and> CHR '':'' \<notin> set port
    \<and> (s = host @ '':'' @ port \<and> CHR '':'' \<notin> set host \<or> s = ''['' @ host @ '']:'' @ port)"
proof -
  obtain i where li: "last_index_of (CHR '':'') s = Some i"
    using assms by (auto simp: split_host_port_def split: option.splits)
  from last_index_of_Some_decomp [OF li]
  have s: "s = take i s @ CHR '':'' # drop (Suc i) s"
    and nc: "CHR '':'' \<notin> set (drop (Suc i) s)" and lt: "i < length s" by auto
  show ?thesis
  proof (cases "hd s = CHR ''[''")
    case False
    then have r: "host = take i s" "port = drop (Suc i) s" "CHR '':'' \<notin> set (take i s)"
      "CHR ''['' \<notin> set s" "CHR '']'' \<notin> set s"
      using assms by (auto simp: split_host_port_def li split: if_splits)
    with s nc show ?thesis
      by (auto simp: plain_def dest: in_set_takeD in_set_dropD)
  next
    case True
    then obtain e where ix: "index_of (CHR '']'') s = Some e" and e: "Suc e = i"
      and r: "host = take (e - 1) (drop 1 s)" "port = drop (Suc i) s"
      and o1: "CHR ''['' \<notin> set (drop 1 s)" and c1: "CHR '']'' \<notin> set (drop (Suc e) s)"
      using assms by (auto simp: split_host_port_def li Let_def split: if_splits option.splits)
    from ix have ee: "e < length s" "s ! e = CHR '']''" "CHR '']'' \<notin> set (take e s)"
      by (auto simp: index_of_Some_split)
    obtain s' where s': "s = CHR ''['' # s'" using True lt by (cases s) auto
    have e0: "e \<noteq> 0" using ee s' by (cases e) auto
    have "take i s = CHR ''['' # take (e - 1) s' @ [CHR '']'']"
    proof -
      obtain k where k: "e = Suc k" using e0 by (cases e) auto
      have "take (Suc k) s' = take k s' @ [s' ! k]"
        using ee(1) by (simp add: s' k take_Suc_conv_app_nth)
      with ee(2) show ?thesis by (simp add: s' k flip: e)
    qed
    moreover have "CHR '']'' \<notin> set (take (e - 1) s')"
      using ee(3) e0 by (cases e) (auto simp: s' dest: in_set_takeD)
    moreover have "set (drop (Suc i) s) \<subseteq> set (drop (Suc e) s)" "set (drop (Suc i) s) \<subseteq> set s'"
      using e set_drop_subset_set_drop [of e "Suc e" s'] by (auto simp: s' dest: in_set_dropD)
    ultimately show ?thesis
      using s nc o1 c1 r by (auto simp: plain_def s' dest: in_set_takeD)
  qed
qed

section \<open>path/filepath\<close>

text \<open>\<open>Clean\<close>, \<open>Join\<close> and \<open>Dir\<close> on Unix paths.\<close>

fun split_on :: "char \<Rightarrow> string \<Rightarrow> string list" where
  "split_on c [] = [[]]"
| "split_on c (x # xs) = (if x = c then [] # split_on c xs
     else (case split_on c xs of [] \<Rightarrow> [[x]] | w # ws \<Rightarrow> (x # w) # ws))"

definition clean_step :: "bool \<Rightarrow> string \<Rightarrow> string list \<Rightarrow> string list" where
  "clean_step rooted w stack =
     (if w = [] \<or> w = ''.'' then stack
      else if w = ''..'' then
        (if stack \<noteq> [] \<and> hd stack \<noteq> ''..'' then tl stack
         else if rooted then stack else w # stack)
      else w # stack)"

definition path_clean :: "string \<Rightarrow> string" where
  "path_clean p =
     (let rooted = has_prefix ''/'' p;
          body = join_with ''/'' (rev (fold (clean_step rooted) (split_on (CHR ''/'') p) []))
      in if rooted then ''/'' @ body else if body = [] then ''.'' else body)"

definition path_join :: "string list \<Rightarrow> string" where
  "path_join elems =
     (let es = dropWhile (\<lambda>e. e = []) elems
      in if es = [] then [] else path_clean (join_with ''/'' es))"

definition path_dir :: "string \<Rightarrow> string" where
  "path_dir p = (case last_index_of (CHR ''/'') p of
     None \<Rightarrow> path_clean [] | Some i \<Rightarrow> path_clean (take (Suc i) p))"

lemma path_clean_rooted: "has_prefix ''/'' p \<Longrightarrow> has_prefix ''/'' (path_clean p)"
  by (simp add: path_clean_def has_prefix_def Let_def)

end
