(* ===== verification/Match.thy ===== *)
theory Match
  imports GoLib
begin

text \<open>
  \<open>pkg/match\<close>: host patterns compiled into an exact-match table and a list of suffixes, and
  the lookup that returns the first rule, in the order of the configuration, whose pattern
  matches a host. The specification is a linear search over the rules; \<open>first_eq_find\<close> shows
  that the two tables implement it.
\<close>

section \<open>Data\<close>

record match_rule =
  Pattern :: string
  RuleUpstream :: string

record suffix_rule =
  suffix_of :: string
  ruleIdx :: nat

record matcher =
  m_rules :: "match_rule list"
  m_exact :: "(string \<times> nat) list"
  m_suffix :: "suffix_rule list"

datatype pattern_err = EmptyPattern | MultipleWildcards | WildcardNotLeading

datatype match_err = BadPattern nat pattern_err | UnknownUpstream nat string

section \<open>Operations\<close>

definition count_stars :: "string \<Rightarrow> nat" where
  "count_stars p = count_list p (CHR ''*'')"

definition validatePattern :: "string \<Rightarrow> pattern_err + unit" where
  "validatePattern p =
     (if p = [] then Inl EmptyPattern
      else if count_stars p = 0 then Inr ()
      else if count_stars p > 1 then Inl MultipleWildcards
      else if \<not> has_prefix ''*.'' p then Inl WildcardNotLeading
      else Inr ())"

definition stripPort :: "string \<Rightarrow> string" where
  "stripPort host =
     (if has_prefix ''['' host then
        (case index_of (CHR '']'') host of
           Some e \<Rightarrow> if e > 0 then take (e - 1) (drop 1 host) else host
         | None \<Rightarrow> host)
      else (case last_index_of (CHR '':'') host of
           Some i \<Rightarrow> if i > 0 then take i host else host
         | None \<Rightarrow> host))"

text \<open>One iteration of the loop of \<open>New\<close>, and the loop.\<close>

definition add_rule :: "string list \<Rightarrow> matcher \<Rightarrow> nat \<Rightarrow> match_rule \<Rightarrow> match_err + matcher" where
  "add_rule known m i r =
     rbind (wrap_err (BadPattern i) (validatePattern (Pattern r))) (\<lambda>_.
     rbind (guard_err (RuleUpstream r \<notin> set known) (UnknownUpstream i (RuleUpstream r))) (\<lambda>_.
       let p = to_lower (Pattern r);
           m = m\<lparr>m_rules := (m_rules m)[i := r]\<rparr>
       in Inr (if has_prefix ''*.'' p
               then m\<lparr>m_suffix := m_suffix m @ [\<lparr>suffix_of = drop 1 p, ruleIdx = i\<rparr>]\<rparr>
               else (case map_of (m_exact m) p of
                       Some _ \<Rightarrow> m
                     | None \<Rightarrow> m\<lparr>m_exact := put (m_exact m) p i\<rparr>))))"

fun new_loop :: "string list \<Rightarrow> matcher \<Rightarrow> nat \<Rightarrow> match_rule list \<Rightarrow> match_err + matcher" where
  "new_loop known m i [] = Inr m"
| "new_loop known m i (r # rs) = rbind (add_rule known m i r) (\<lambda>m. new_loop known m (Suc i) rs)"

definition empty_rule :: match_rule where
  "empty_rule = \<lparr>Pattern = [], RuleUpstream = []\<rparr>"

definition match_new :: "match_rule list \<Rightarrow> string list \<Rightarrow> match_err + matcher" where
  "match_new rules known =
     new_loop known
       \<lparr>m_rules = replicate (length rules) empty_rule, m_exact = [], m_suffix = []\<rparr> 0 rules"

text \<open>The suffix loop of \<open>First\<close>; \<open>bestIdx\<close> is \<open>None\<close> for Go's \<open>-1\<close>.\<close>

fun best_suffix :: "string \<Rightarrow> nat option \<Rightarrow> suffix_rule list \<Rightarrow> nat option" where
  "best_suffix h best [] = best"
| "best_suffix h best (s # ss) =
     (if \<not> has_suffix (suffix_of s) h then best_suffix h best ss
      else if best = None \<or> ruleIdx s < the best then best_suffix h (Some (ruleIdx s)) ss
      else best_suffix h best ss)"

definition first_idx :: "matcher \<Rightarrow> string \<Rightarrow> nat option" where
  "first_idx m host =
     (let h = stripPort (to_lower host)
      in best_suffix h (map_of (m_exact m) h) (m_suffix m))"

definition First :: "matcher \<Rightarrow> string \<Rightarrow> match_rule option" where
  "First m host = map_option (\<lambda>i. m_rules m ! i) (first_idx m host)"

section \<open>Specification\<close>

text \<open>Whether a rule's pattern matches a host that is already lower case and without a port.\<close>

definition rule_matches :: "string \<Rightarrow> match_rule \<Rightarrow> bool" where
  "rule_matches h r =
     (let p = to_lower (Pattern r)
      in if has_prefix ''*.'' p then has_suffix (drop 1 p) h else p = h)"

definition rule_valid :: "string list \<Rightarrow> match_rule \<Rightarrow> bool" where
  "rule_valid known r \<longleftrightarrow> validatePattern (Pattern r) = Inr () \<and> RuleUpstream r \<in> set known"

text \<open>The index of the first element with a property.\<close>

fun find_index :: "('a \<Rightarrow> bool) \<Rightarrow> 'a list \<Rightarrow> nat option" where
  "find_index P [] = None"
| "find_index P (x # xs) = (if P x then Some 0 else map_option Suc (find_index P xs))"

lemma find_index_find: "find P xs = map_option ((!) xs) (find_index P xs)"
  by (induction xs) (auto simp: option.map_comp comp_def)

lemma find_index_snoc:
  "find_index P (xs @ [x]) = (case find_index P xs of Some i \<Rightarrow> Some i
     | None \<Rightarrow> if P x then Some (length xs) else None)"
  by (induction xs) (auto split: option.splits)

lemma find_index_Some_less: "find_index P xs = Some i \<Longrightarrow> i < length xs"
  by (induction xs arbitrary: i) (auto split: if_splits)

section \<open>The compiled tables\<close>

text \<open>
  What holds after \<open>n\<close> rules have been added: the rules are in place, the exact table holds
  the first index of each exact pattern, and the suffix list holds the wildcard rules in order.
\<close>

definition is_exact :: "string \<Rightarrow> match_rule \<Rightarrow> bool" where
  "is_exact h r \<longleftrightarrow> \<not> has_prefix ''*.'' (to_lower (Pattern r)) \<and> to_lower (Pattern r) = h"

definition suffix_entries :: "match_rule list \<Rightarrow> suffix_rule list" where
  "suffix_entries rs = map (\<lambda>(i, r). \<lparr>suffix_of = drop 1 (to_lower (Pattern r)), ruleIdx = i\<rparr>)
     (filter (\<lambda>(i, r). has_prefix ''*.'' (to_lower (Pattern r))) (indexed rs))"

definition compiled :: "matcher \<Rightarrow> match_rule list \<Rightarrow> bool" where
  "compiled m rs \<longleftrightarrow>
     take (length rs) (m_rules m) = rs \<and>
     (\<forall>h. map_of (m_exact m) h = find_index (is_exact h) rs) \<and>
     m_suffix m = suffix_entries rs"

lemma indexed_snoc: "indexed (xs @ [x]) = indexed xs @ [(length xs, x)]"
  by (simp add: indexed_def)

lemma add_rule_ok_iff: "ok (add_rule known m i r) \<longleftrightarrow> rule_valid known r"
  by (cases "validatePattern (Pattern r)")
    (auto simp: add_rule_def rule_valid_def guard_err_def Let_def)

lemma add_rule_compiled:
  assumes add: "add_rule known m (length rs) r = Inr m'"
    and inv: "compiled m rs" and room: "length rs < length (m_rules m)"
  shows "compiled m' (rs @ [r]) \<and> length (m_rules m') = length (m_rules m)"
proof -
  let ?p = "to_lower (Pattern r)"
  have take': "take (Suc (length rs)) ((m_rules m)[length rs := r]) = rs @ [r]"
    using inv room by (simp add: compiled_def take_Suc_conv_app_nth)
  have ex: "map_of (m_exact m) h = find_index (is_exact h) rs" for h
    using inv by (simp add: compiled_def)
  show ?thesis
  proof (cases "has_prefix ''*.'' ?p")
    case True
    then have "m' = m\<lparr>m_rules := (m_rules m)[length rs := r],
        m_suffix := m_suffix m @ [\<lparr>suffix_of = drop 1 ?p, ruleIdx = length rs\<rparr>]\<rparr>"
      using add by (auto simp: add_rule_def result_simps Let_def)
    with True inv take' show ?thesis
      by (auto simp: compiled_def find_index_snoc is_exact_def suffix_entries_def indexed_snoc
          split: option.splits)
  next
    case False
    then have "m' = (case map_of (m_exact m) ?p of
        Some _ \<Rightarrow> m\<lparr>m_rules := (m_rules m)[length rs := r]\<rparr>
      | None \<Rightarrow> m\<lparr>m_rules := (m_rules m)[length rs := r], m_exact := put (m_exact m) ?p (length rs)\<rparr>)"
      using add by (auto simp: add_rule_def result_simps Let_def split: option.splits)
    with False inv take' ex show ?thesis
      by (auto simp: compiled_def find_index_snoc is_exact_def suffix_entries_def indexed_snoc
          split: option.splits)
  qed
qed

lemma new_loop_compiled:
  assumes "new_loop known m (length rs0) rs = Inr m'" "compiled m rs0"
    "length (m_rules m) = length rs0 + length rs"
  shows "compiled m' (rs0 @ rs) \<and> length (m_rules m') = length (rs0 @ rs)"
  using assms
proof (induction rs arbitrary: m rs0)
  case (Cons r rs)
  from Cons.prems(1) obtain m1 where m1: "add_rule known m (length rs0) r = Inr m1"
    and rest: "new_loop known m1 (length (rs0 @ [r])) rs = Inr m'"
    by (auto simp: result_simps)
  from add_rule_compiled [OF m1 Cons.prems(2)] Cons.prems(3)
  have "compiled m1 (rs0 @ [r])" "length (m_rules m1) = length (rs0 @ [r]) + length rs"
    by auto
  from Cons.IH [OF rest this] show ?case by simp
qed auto

lemma match_new_compiled:
  "match_new rules known = Inr m \<Longrightarrow> compiled m rules \<and> m_rules m = rules"
  using new_loop_compiled [of known _ "[]" rules m]
  by (force simp: match_new_def compiled_def suffix_entries_def indexed_def)

section \<open>The lookup finds the first matching rule\<close>

definition min_opt :: "nat option \<Rightarrow> nat option \<Rightarrow> nat option" where
  "min_opt a b = (case a of None \<Rightarrow> b | Some i \<Rightarrow> (case b of None \<Rightarrow> a | Some j \<Rightarrow> Some (min i j)))"

lemma best_suffix_min:
  "best_suffix h best ss =
     min_opt best (best_suffix h None ss)"
proof (induction ss arbitrary: best)
  case Nil
  then show ?case by (simp add: min_opt_def split: option.splits)
next
  case (Cons s ss)
  show ?case
    using Cons [of "Some (ruleIdx s)"] Cons [of best]
    by (cases best; cases "best_suffix h None ss") (auto simp: min_opt_def min_def)
qed

lemma best_suffix_snoc:
  "best_suffix h None (ss @ [s]) =
     min_opt (best_suffix h None ss) (if has_suffix (suffix_of s) h then Some (ruleIdx s) else None)"
proof (induction ss)
  case (Cons a ss)
  then show ?case
    using best_suffix_min [of h "Some (ruleIdx a)" "ss @ [s]"]
      best_suffix_min [of h "Some (ruleIdx a)" ss]
    by (auto simp: min_opt_def split: option.splits)
qed (simp add: min_opt_def)

lemma best_suffix_bound: "best_suffix h None (suffix_entries rs) = Some i \<Longrightarrow> i < length rs"
proof (induction rs arbitrary: i rule: rev_induct)
  case (snoc r rs)
  then show ?case
    by (force simp: suffix_entries_def indexed_snoc best_suffix_snoc min_opt_def
        split: if_splits option.splits)
qed (simp add: suffix_entries_def indexed_def)

lemma lookup_is_first:
  "best_suffix h (find_index (is_exact h) rs) (suffix_entries rs) = find_index (rule_matches h) rs"
proof (induction rs rule: rev_induct)
  case Nil
  then show ?case by (simp add: suffix_entries_def indexed_def)
next
  case (snoc r rs)
  let ?E = "find_index (is_exact h) rs" and ?S = "best_suffix h None (suffix_entries rs)"
  have IH: "min_opt ?E ?S = find_index (rule_matches h) rs"
    using snoc best_suffix_min [of h ?E "suffix_entries rs"] by simp
  have bE: "?E = Some i \<Longrightarrow> i < length rs" for i by (rule find_index_Some_less)
  have bS: "?S = Some i \<Longrightarrow> i < length rs" for i by (rule best_suffix_bound)
  show ?case
  proof (cases "has_prefix ''*.'' (to_lower (Pattern r))")
    case True
    then have "\<not> is_exact h r" "rule_matches h r = has_suffix (drop 1 (to_lower (Pattern r))) h"
      by (auto simp: is_exact_def rule_matches_def)
    moreover have "suffix_entries (rs @ [r]) = suffix_entries rs @
        [\<lparr>suffix_of = drop 1 (to_lower (Pattern r)), ruleIdx = length rs\<rparr>]"
      using True by (simp add: suffix_entries_def indexed_snoc)
    ultimately show ?thesis
      using bE bS
      by (subst best_suffix_min)
        (auto simp: best_suffix_snoc find_index_snoc min_opt_def min_def split: option.splits
          simp flip: IH)
  next
    case False
    then have "is_exact h r = rule_matches h r" "suffix_entries (rs @ [r]) = suffix_entries rs"
      by (auto simp: is_exact_def rule_matches_def suffix_entries_def indexed_snoc)
    then show ?thesis
      using bE bS
      by (subst best_suffix_min)
        (auto simp: find_index_snoc min_opt_def min_def split: option.splits simp flip: IH)
  qed
qed

lemma First_eq_find:
  assumes "match_new rules known = Inr m"
  shows "First m host = find (rule_matches (stripPort (to_lower host))) rules"
proof -
  from match_new_compiled [OF assms] have c: "compiled m rules" "m_rules m = rules" by auto
  then have "first_idx m host = find_index (rule_matches (stripPort (to_lower host))) rules"
    using lookup_is_first by (simp add: first_idx_def compiled_def Let_def)
  with c show ?thesis by (simp add: First_def find_index_find)
qed

section \<open>Which rule sets compile\<close>

lemma new_loop_ok_iff: "ok (new_loop known m i rs) \<longleftrightarrow> (\<forall>r \<in> set rs. rule_valid known r)"
proof (induction rs arbitrary: m i)
  case (Cons r rs)
  then show ?case
    using add_rule_ok_iff [of known m i r] by (cases "add_rule known m i r") auto
qed simp

lemma match_new_ok_iff: "ok (match_new rules known) \<longleftrightarrow> (\<forall>r \<in> set rules. rule_valid known r)"
  by (simp add: match_new_def new_loop_ok_iff)

text \<open>The error names the first rule that is not valid.\<close>

definition err_idx :: "match_err \<Rightarrow> nat" where
  "err_idx e = (case e of BadPattern i _ \<Rightarrow> i | UnknownUpstream i _ \<Rightarrow> i)"

lemma add_rule_Inl: "add_rule known m i r = Inl e \<Longrightarrow> err_idx e = i \<and> \<not> rule_valid known r"
  using add_rule_ok_iff [of known m i r]
  by (auto simp: add_rule_def result_simps err_idx_def Let_def wrap_err_def guard_err_def
      split: sum.splits if_splits)

lemma new_loop_Inl:
  "new_loop known m i rs = Inl e \<Longrightarrow>
     \<exists>k < length rs. err_idx e = i + k \<and> \<not> rule_valid known (rs ! k) \<and> (\<forall>j < k. rule_valid known (rs ! j))"
proof (induction rs arbitrary: m i)
  case (Cons r rs)
  show ?case
  proof (cases "add_rule known m i r")
    case (Inl e')
    with Cons.prems add_rule_Inl [OF Inl] show ?thesis by (intro exI [of _ 0]) auto
  next
    case (Inr m')
    then have v: "rule_valid known r"
      using add_rule_ok_iff [of known m i r] by simp
    from Cons.prems Inr have "new_loop known m' (Suc i) rs = Inl e" by simp
    from Cons.IH [OF this] obtain k where "k < length rs" "err_idx e = Suc i + k"
      "\<not> rule_valid known (rs ! k)" "\<forall>j < k. rule_valid known (rs ! j)" by auto
    with v show ?thesis
      by (intro exI [of _ "Suc k"]) (auto simp: less_Suc_eq_0_disj)
  qed
qed simp

section \<open>Hosts with ports and IPv6 literals\<close>

lemma stripPort_bracketed: "CHR '']'' \<notin> set h \<Longrightarrow> stripPort (''['' @ h @ '']'' @ rest) = h"
  using index_of_decomp [of "CHR '']''" "''['' @ h" rest]
  by (simp add: stripPort_def has_prefix_def)

lemma stripPort_named:
  assumes "h \<noteq> []" "hd h \<noteq> CHR ''[''" "CHR '':'' \<notin> set port"
  shows "stripPort (h @ '':'' @ port) = h"
  using assms last_index_of_decomp [OF assms(3), of h]
  by (cases h) (auto simp: stripPort_def has_prefix_def)

lemma stripPort_no_colon:
  "CHR '':'' \<notin> set h \<Longrightarrow> hd h \<noteq> CHR ''['' \<or> h = [] \<Longrightarrow> stripPort h = h"
  using last_index_of_None_iff [of "CHR '':''" h]
  by (cases h) (auto simp: stripPort_def has_prefix_def simp del: last_index_of.simps)

text \<open>A bare host with a colon after its first byte loses everything from its last colon on.\<close>

lemma stripPort_bare_colon:
  assumes "CHR '':'' \<in> set (tl h)" "hd h \<noteq> CHR ''[''"
  shows "length (stripPort h) < length h"
proof -
  obtain x h' where h: "h = x # h'" using assms(1) by (cases h) auto
  then obtain i where i: "last_index_of (CHR '':'') h' = Some i"
    using assms(1) last_index_of_None_iff [of "CHR '':''" h'] by fastforce
  then have "i < length h'" using last_index_of_Some_decomp by blast
  with i h assms(2) show ?thesis by (simp add: stripPort_def has_prefix_def)
qed

section \<open>Properties\<close>

definition wit_rules :: "match_rule list" where
  "wit_rules = [\<lparr>Pattern = ''*.Corp.example'', RuleUpstream = ''vpn''\<rparr>,
     \<lparr>Pattern = ''a.corp.example'', RuleUpstream = ''direct''\<rparr>]"

text \<open>C1. The compiled tables answer what a scan of the rule list would: the lookup yields the first
  rule, in configuration order, that matches the lower-case host without its port.\<close>

theorem First_first_match:
  assumes "match_new rules known = Inr m"
  shows "First m host = find (rule_matches (stripPort (to_lower host))) rules"
  using assms by (rule First_eq_find)

lemma First_first_match_witness:
  "First (\<lparr>m_rules = wit_rules, m_exact = [(''a.corp.example'', 1)],
       m_suffix = [\<lparr>suffix_of = ''.corp.example'', ruleIdx = 0\<rparr>]\<rparr>) ''A.corp.example:443''
     = Some \<lparr>Pattern = ''*.Corp.example'', RuleUpstream = ''vpn''\<rparr>"
proof -
  have "match_new wit_rules [''vpn'', ''direct''] = Inr \<lparr>m_rules = wit_rules, m_exact = [(''a.corp.example'', 1)],
       m_suffix = [\<lparr>suffix_of = ''.corp.example'', ruleIdx = 0\<rparr>]\<rparr>"
    by code_simp
  from First_first_match [OF this, of "''A.corp.example:443''"] show ?thesis
    by (simp only: ) code_simp
qed

text \<open>A rule set compiles exactly when each rule has a legal pattern and a known upstream; the
  error names the first rule that does not.\<close>

theorem match_new_verdict:
  "case match_new rules known of
     Inr m \<Rightarrow> list_all (rule_valid known) rules
   | Inl e \<Rightarrow> err_idx e < length rules \<and> \<not> rule_valid known (rules ! err_idx e)
       \<and> list_all (rule_valid known) (take (err_idx e) rules)"
proof (cases "match_new rules known")
  case (Inl e)
  from new_loop_Inl [OF Inl [unfolded match_new_def]] show ?thesis
    by (auto simp: Inl list_all_length)
next
  case (Inr m)
  then show ?thesis using match_new_ok_iff [of rules known] by (simp add: list_all_iff)
qed

text \<open>A lookup ignores the case of the host and a port behind it.\<close>

theorem First_ignores_port_and_case:
  assumes "to_lower h = to_lower h'" "h \<noteq> []" "hd h \<noteq> CHR ''[''" "CHR '':'' \<notin> set h" "CHR '':'' \<notin> set port"
  shows "First m (h @ '':'' @ port) = First m h'"
proof -
  have c: "CHR '':'' \<notin> set (to_lower s)" if "CHR '':'' \<notin> set s" for s
    using that by (simp add: to_lower_delim)
  have hd: "hd (to_lower h) \<noteq> CHR ''[''"
    using assms(2,3) by (cases h) (simp_all add: to_lower_def lower_char_delim)
  have "stripPort (to_lower h @ '':'' @ to_lower port) = to_lower h"
    using assms(2,4,5) hd by (intro stripPort_named c) (simp_all add: to_lower_def)
  moreover have "stripPort (to_lower h) = to_lower h"
    using assms hd by (intro stripPort_no_colon c) simp_all
  moreover have "to_lower '':'' = '':''" by code_simp
  ultimately show ?thesis
    using assms(1) by (simp add: First_def first_idx_def del: append_Cons append_Nil)
qed

lemma First_ignores_port_and_case_witness:
  "First \<lparr>m_rules = wit_rules, m_exact = [], m_suffix = [\<lparr>suffix_of = ''.corp.example'', ruleIdx = 0\<rparr>]\<rparr>
     ''A.Corp.Example:8080''
   = First \<lparr>m_rules = wit_rules, m_exact = [], m_suffix = [\<lparr>suffix_of = ''.corp.example'', ruleIdx = 0\<rparr>]\<rparr>
     ''a.corp.example''"
proof -
  have "to_lower ''A.Corp.Example'' = to_lower ''a.corp.example''" by code_simp
  from First_ignores_port_and_case [OF this, of "''8080''"] show ?thesis by simp
qed

end
