(* ===== verification/Base64.thy ===== *)
theory Base64
  imports GoLib
begin

text \<open>
  \<open>encoding/base64\<close> as the program uses it: \<open>StdEncoding.EncodeToString\<close> (the proxy credentials
  of an HTTP upstream) and \<open>RawStdEncoding.DecodeString\<close> (a pinned host key fingerprint). Bytes
  are given as a \<^typ>\<open>string\<close>.
\<close>

definition b64_alphabet :: string where
  "b64_alphabet = ''ABCDEFGHIJKLMNOPQRSTUVWXYZabcdefghijklmnopqrstuvwxyz0123456789+/''"

definition b64_char :: "nat \<Rightarrow> char" where
  "b64_char n = b64_alphabet ! n"

definition b64_val :: "char \<Rightarrow> nat option" where
  "b64_val c = index_of c b64_alphabet"

lemma length_b64_alphabet: "length b64_alphabet = 64"
  by (simp add: b64_alphabet_def)

lemma distinct_b64_alphabet: "distinct b64_alphabet"
  by (simp add: b64_alphabet_def)

lemma index_of_nth_distinct: "distinct s \<Longrightarrow> i < length s \<Longrightarrow> index_of (s ! i) s = Some i"
proof (induction s arbitrary: i)
  case (Cons x s)
  then show ?case by (cases i) auto
qed simp

lemma b64_val_char [simp]: "n < 64 \<Longrightarrow> b64_val (b64_char n) = Some n"
  by (simp add: b64_val_def b64_char_def index_of_nth_distinct distinct_b64_alphabet length_b64_alphabet)

lemma b64_val_bound: "b64_val c = Some n \<Longrightarrow> n < 64"
  using length_b64_alphabet by (auto simp: b64_val_def index_of_Some_split)

section \<open>Encoding\<close>

text \<open>The two final characters of a full quantum are shared by the padded forms.\<close>

definition enc_a :: "nat \<Rightarrow> char" where
  "enc_a x = b64_char (x div 4)"

definition enc_b :: "nat \<Rightarrow> nat \<Rightarrow> char" where
  "enc_b x y = b64_char ((x mod 4) * 16 + y div 16)"

definition enc_c :: "nat \<Rightarrow> nat \<Rightarrow> char" where
  "enc_c y z = b64_char ((y mod 16) * 4 + z div 64)"

definition enc_d :: "nat \<Rightarrow> char" where
  "enc_d z = b64_char (z mod 64)"

fun b64_quanta :: "string \<Rightarrow> nat list \<Rightarrow> string" where
  "b64_quanta pad [] = []"
| "b64_quanta pad [x] = [enc_a x, enc_b x 0] @ pad @ pad"
| "b64_quanta pad [x, y] = [enc_a x, enc_b x y, enc_c y 0] @ pad"
| "b64_quanta pad (x # y # z # r) = [enc_a x, enc_b x y, enc_c y z, enc_d z] @ b64_quanta pad r"

text \<open>\<open>StdEncoding\<close> pads with \<open>=\<close>; \<open>RawStdEncoding\<close> does not pad.\<close>

definition b64_encode :: "string \<Rightarrow> string" where
  "b64_encode s = b64_quanta ''='' (map of_char s)"

definition b64_encode_raw :: "string \<Rightarrow> string" where
  "b64_encode_raw s = b64_quanta [] (map of_char s)"

section \<open>Decoding\<close>

definition dec_1 :: "nat \<Rightarrow> nat \<Rightarrow> nat" where
  "dec_1 a b = a * 4 + b div 16"

definition dec_2 :: "nat \<Rightarrow> nat \<Rightarrow> nat" where
  "dec_2 b c = (b mod 16) * 16 + c div 4"

definition dec_3 :: "nat \<Rightarrow> nat \<Rightarrow> nat" where
  "dec_3 c d = (c mod 4) * 64 + d"

text \<open>\<open>None\<close> is \<open>CorruptInputError\<close>; a lone character in the last quantum is corrupt.\<close>

fun b64_unquanta :: "nat list \<Rightarrow> nat list option" where
  "b64_unquanta [] = Some []"
| "b64_unquanta [a] = None"
| "b64_unquanta [a, b] = Some [dec_1 a b]"
| "b64_unquanta [a, b, c] = Some [dec_1 a b, dec_2 b c]"
| "b64_unquanta (a # b # c # d # r) =
     map_option (\<lambda>t. dec_1 a b # dec_2 b c # dec_3 c d # t) (b64_unquanta r)"

fun b64_vals :: "string \<Rightarrow> nat list option" where
  "b64_vals [] = Some []"
| "b64_vals (c # cs) = (case b64_val c of None \<Rightarrow> None | Some v \<Rightarrow> map_option ((#) v) (b64_vals cs))"

text \<open>Carriage returns and line feeds are skipped by the decoder.\<close>

definition b64_decode_raw :: "string \<Rightarrow> string option" where
  "b64_decode_raw s =
     (case b64_vals (filter (\<lambda>c. c \<noteq> CHR 0x0A \<and> c \<noteq> CHR 0x0D) s) of
        None \<Rightarrow> None
      | Some vs \<Rightarrow> map_option (map char_of) (b64_unquanta vs))"

section \<open>Round trip and length\<close>

lemma quot_bounds:
  fixes x :: nat
  assumes "x < 256"
  shows "x div 4 < 64" "x div 16 < 16" "x div 64 < 4"
  using assms by (simp_all add: less_mult_imp_div_less)

lemma sextets [simp]:
  fixes x y z :: nat
  shows "x < 256 \<Longrightarrow> x div 4 < 64"
    and "y < 256 \<Longrightarrow> (x mod 4) * 16 + y div 16 < 64"
    and "z < 256 \<Longrightarrow> (y mod 16) * 4 + z div 64 < 64"
    and "z mod 64 < 64"
proof -
  have m: "x mod 4 < 4" "y mod 16 < 16" by simp_all
  show "x < 256 \<Longrightarrow> x div 4 < 64" by (rule quot_bounds)
  show "y < 256 \<Longrightarrow> (x mod 4) * 16 + y div 16 < 64" using m quot_bounds [of y] by linarith
  show "z < 256 \<Longrightarrow> (y mod 16) * 4 + z div 64 < 64" using m quot_bounds [of z] by linarith
  show "z mod 64 < 64" by simp
qed

lemma dec_enc [simp]:
  fixes x y z :: nat
  shows "y < 256 \<Longrightarrow> dec_1 (x div 4) ((x mod 4) * 16 + y div 16) = x"
    and "dec_1 (x div 4) ((x mod 4) * 16) = x"
    and "y < 256 \<Longrightarrow> z < 256 \<Longrightarrow> dec_2 ((x mod 4) * 16 + y div 16) ((y mod 16) * 4 + z div 64) = y"
    and "y < 256 \<Longrightarrow> dec_2 ((x mod 4) * 16 + y div 16) ((y mod 16) * 4) = y"
    and "z < 256 \<Longrightarrow> dec_3 ((y mod 16) * 4 + z div 64) (z mod 64) = z"
proof -
  have hi: "y < 256 \<Longrightarrow> (((x mod 4) * 16 + y div 16) div 16) = x mod 4"
    using quot_bounds(2) [of y] by simp
  have mid: "y < 256 \<Longrightarrow> (((x mod 4) * 16 + y div 16) mod 16) = y div 16"
    using quot_bounds(2) [of y] by simp
  have lo: "z < 256 \<Longrightarrow> (((y mod 16) * 4 + z div 64) div 4) = y mod 16"
    using quot_bounds(3) [of z] by simp
  have lo': "z < 256 \<Longrightarrow> (((y mod 16) * 4 + z div 64) mod 4) = z div 64"
    using quot_bounds(3) [of z] by simp
  show "y < 256 \<Longrightarrow> dec_1 (x div 4) ((x mod 4) * 16 + y div 16) = x"
    by (simp add: dec_1_def hi)
  show "dec_1 (x div 4) ((x mod 4) * 16) = x"
    by (simp add: dec_1_def)
  show "y < 256 \<Longrightarrow> z < 256 \<Longrightarrow> dec_2 ((x mod 4) * 16 + y div 16) ((y mod 16) * 4 + z div 64) = y"
    by (simp add: dec_2_def mid lo)
  show "y < 256 \<Longrightarrow> dec_2 ((x mod 4) * 16 + y div 16) ((y mod 16) * 4) = y"
    by (simp add: dec_2_def mid)
  show "z < 256 \<Longrightarrow> dec_3 ((y mod 16) * 4 + z div 64) (z mod 64) = z"
    by (simp add: dec_3_def lo')
qed

lemma b64_vals_quanta:
  "\<forall>x \<in> set bs. x < 256 \<Longrightarrow> \<exists>vs. b64_vals (b64_quanta [] bs) = Some vs \<and> b64_unquanta vs = Some bs"
proof (induction "[] :: string" bs rule: b64_quanta.induct)
  case (2 x)
  then show ?case using sextets(2) [of 0 x] by (simp add: enc_a_def enc_b_def)
next
  case (3 x y)
  then show ?case using sextets(3) [of 0 y] by (simp add: enc_a_def enc_b_def enc_c_def)
next
  case (4 x y z r)
  then obtain vs where "b64_vals (b64_quanta [] r) = Some vs" "b64_unquanta vs = Some r" by auto
  with 4 show ?case by (simp add: enc_a_def enc_b_def enc_c_def enc_d_def)
qed simp

lemma b64_quanta_chars:
  "\<forall>x \<in> set bs. x < 256 \<Longrightarrow> set (b64_quanta pad bs) \<subseteq> set b64_alphabet \<union> set pad"
proof (induction pad bs rule: b64_quanta.induct)
qed (use sextets(2) [of 0] sextets(3) [of 0] in
  \<open>auto simp: enc_a_def enc_b_def enc_c_def enc_d_def b64_char_def length_b64_alphabet\<close>)

lemma alphabet_no_newline: "CHR 0x0A \<notin> set b64_alphabet" "CHR 0x0D \<notin> set b64_alphabet"
  by (simp_all add: b64_alphabet_def)

lemma map_char_of_of_char: "map char_of (map of_char s :: nat list) = (s :: string)"
  by (induction s) simp_all

theorem b64_decode_encode_raw: "b64_decode_raw (b64_encode_raw s) = Some s"
proof -
  let ?bs = "map of_char s :: nat list"
  have b: "\<forall>x \<in> set ?bs. x < 256" by auto
  have "filter (\<lambda>c. c \<noteq> CHR 0x0A \<and> c \<noteq> CHR 0x0D) (b64_quanta [] ?bs) = b64_quanta [] ?bs"
    using b64_quanta_chars [OF b, of "[]"] alphabet_no_newline by (intro filter_True) auto
  moreover obtain vs where "b64_vals (b64_quanta [] ?bs) = Some vs" "b64_unquanta vs = Some ?bs"
    using b64_vals_quanta [OF b] by auto
  ultimately show ?thesis
    by (simp add: b64_decode_raw_def b64_encode_raw_def map_char_of_of_char del: map_map)
qed

lemma length_b64_unquanta:
  "b64_unquanta vs = Some bs \<Longrightarrow> length bs = 3 * length vs div 4"
proof (induction vs arbitrary: bs rule: b64_unquanta.induct)
  case (5 a b c d r)
  then obtain t where "b64_unquanta r = Some t" "length bs = length t + 3" by auto
  with 5 show ?case by simp
qed auto

end
