(* ===== verification/Config.thy ===== *)
theory Config
  imports Match Base64
begin

text \<open>
  \<open>pkg/config\<close>: the configuration's data (\<open>config.go\<close>), its validation (\<open>validate.go\<close>),
  loading over the defaults (\<open>load.go\<close>) and the log level and log path (\<open>logfile.go\<close>). The YAML
  decoder, \<open>url.Parse\<close> and the file system are arguments. The specification \<open>valid_config\<close> says
  when a configuration is consistent without the code's order of checks or its bookkeeping.
\<close>

section \<open>Data\<close>

record upstream_auth =
  a_Username :: string
  a_Password :: string

record upstream_tls =
  InsecureSkipVerify :: bool
  CAFile :: string

record upstream =
  u_Type :: string
  u_Addr :: string
  u_URL :: string
  u_DNS :: string
  u_Auth :: "upstream_auth option"
  u_TLS :: "upstream_tls option"
  u_Host :: string
  u_Port :: int
  u_User :: string
  u_KeyFile :: string
  u_KeyFilePassphrase :: string
  u_IdentityAgent :: string
  u_HostKey :: string
  u_Via :: string
  u_Server :: string
  u_Protocol :: string
  u_ServerCert :: string
  u_Tun :: bool

record listener =
  l_Type :: string
  l_Listen :: string
  l_Upstream :: string
  l_Target :: string

record cfg_rule =
  r_Match :: string
  r_Upstream :: string

record chrome =
  c_App :: string
  c_Flags :: "string list"

record config =
  c_Version :: int
  c_Listen :: string
  c_LogLevel :: string
  c_LogFile :: string
  c_Upstreams :: "(string \<times> upstream) list"
  c_Rules :: "cfg_rule list"
  c_Listeners :: "listener list"
  c_Chrome :: "chrome option"

text \<open>Go's zero value, which a lookup of a missing key also yields.\<close>

definition zero_upstream :: upstream where
  "zero_upstream = \<lparr>u_Type = [], u_Addr = [], u_URL = [], u_DNS = [], u_Auth = None, u_TLS = None,
     u_Host = [], u_Port = 0, u_User = [], u_KeyFile = [], u_KeyFilePassphrase = [],
     u_IdentityAgent = [], u_HostKey = [], u_Via = [], u_Server = [], u_Protocol = [],
     u_ServerCert = [], u_Tun = False\<rparr>"

definition upstream_at :: "(string \<times> upstream) list \<Rightarrow> string \<Rightarrow> upstream" where
  "upstream_at ups name = (case map_of ups name of Some u \<Rightarrow> u | None \<Rightarrow> zero_upstream)"

abbreviation UpstreamSocks5 :: string where "UpstreamSocks5 \<equiv> ''socks5''"
abbreviation UpstreamHTTP :: string where "UpstreamHTTP \<equiv> ''http''"
abbreviation UpstreamDirect :: string where "UpstreamDirect \<equiv> ''direct''"
abbreviation UpstreamSSH :: string where "UpstreamSSH \<equiv> ''ssh''"
abbreviation UpstreamForward :: string where "UpstreamForward \<equiv> ''forward''"
abbreviation UpstreamOpenConnect :: string where "UpstreamOpenConnect \<equiv> ''openconnect''"
abbreviation ListenerSocks5 :: string where "ListenerSocks5 \<equiv> ''socks5''"
abbreviation ListenerTCP :: string where "ListenerTCP \<equiv> ''tcp''"
abbreviation IdentityAgentEnv :: string where "IdentityAgentEnv \<equiv> ''SSH_AUTH_SOCK''"

definition openConnectProtocols :: "string list" where
  "openConnectProtocols = [''f5'', ''anyconnect'', ''nc'', ''gp'', ''pulse'', ''fortinet'', ''array'']"

text \<open>What \<open>url.Parse\<close> returns, as far as the program reads it.\<close>

record parsed_url =
  url_Scheme :: string
  url_Host :: string

type_synonym url_parser = "string \<Rightarrow> parsed_url option"

section \<open>Errors, one constructor per message\<close>

datatype fp_err = FpPrefix string | FpBase64 | FpLength nat

datatype up_err =
    UpRequired string
  | UpAddr addr_err
  | UpAddrHost string
  | UpTypeUnknown string
  | UpOnlyValidOn string string
  | UpDNSUnknown string
  | UpPortRange int
  | UpCredentials
  | UpHostKey fp_err
  | UpServerParse
  | UpServerHTTPS string
  | UpProtocol string

datatype cfg_err =
    ListenRequired
  | ListenBad addr_err
  | LogLevelUnknown string
  | UpstreamBad string up_err
  | RuleMatchRequired nat
  | RuleMatchInvalid nat string
  | RuleUpstreamUnknown nat string
  | ListenerRequired nat
  | ListenerBad nat addr_err
  | ListenerDuplicate nat string
  | ListenerTargetOnlyTCP nat
  | ListenerTargetBad nat addr_err
  | ListenerTargetHost nat string
  | ListenerTypeUnknown nat string
  | ListenerUpstreamUnknown nat string
  | ViaUnknown string string
  | ViaChain string string
  | Unreferenced string string

section \<open>Validation of one upstream\<close>

definition validateFingerprint :: "string \<Rightarrow> fp_err + unit" where
  "validateFingerprint s =
     (case cut_prefix ''SHA256:'' s of
        None \<Rightarrow> Inl (FpPrefix s)
      | Some raw \<Rightarrow> (case b64_decode_raw raw of
            None \<Rightarrow> Inl FpBase64
          | Some digest \<Rightarrow> if length digest \<noteq> 32 then Inl (FpLength (length digest)) else Inr ()))"

definition validateSSH :: "upstream \<Rightarrow> up_err + unit" where
  "validateSSH u =
     rbind (guard_err (u_Host u = []) (UpRequired ''host'')) (\<lambda>_.
     rbind (guard_err (u_Port u \<noteq> 0 \<and> (u_Port u < 1 \<or> u_Port u > 65535)) (UpPortRange (u_Port u))) (\<lambda>_.
     rbind (guard_err (u_KeyFile u = [] \<and> u_IdentityAgent u = []) UpCredentials) (\<lambda>_.
       if u_HostKey u \<noteq> [] then wrap_err UpHostKey (validateFingerprint (u_HostKey u)) else Inr ())))"

text \<open>The first field of a table that is set is the one reported.\<close>

definition reject_fields :: "string \<Rightarrow> (string \<times> bool) list \<Rightarrow> up_err + unit" where
  "reject_fields typ table =
     check_all (\<lambda>(name, isset). guard_err isset (UpOnlyValidOn name typ)) table"

definition rejectSSHFields :: "upstream \<Rightarrow> up_err + unit" where
  "rejectSSHFields u = reject_fields UpstreamSSH
     [(''host'', u_Host u \<noteq> []), (''port'', u_Port u \<noteq> 0), (''user'', u_User u \<noteq> []),
      (''keyFile'', u_KeyFile u \<noteq> []), (''keyFilePassphrase'', u_KeyFilePassphrase u \<noteq> []),
      (''identityAgent'', u_IdentityAgent u \<noteq> []), (''hostKey'', u_HostKey u \<noteq> []),
      (''via'', u_Via u \<noteq> [])]"

definition validateOpenConnect :: "url_parser \<Rightarrow> upstream \<Rightarrow> up_err + unit" where
  "validateOpenConnect urlp u =
     rbind (guard_err (u_Server u = []) (UpRequired ''server'')) (\<lambda>_.
     (case urlp (u_Server u) of
        None \<Rightarrow> Inl UpServerParse
      | Some p \<Rightarrow>
          rbind (guard_err (url_Scheme p \<noteq> ''https'' \<or> url_Host p = []) (UpServerHTTPS (u_Server u))) (\<lambda>_.
          rbind (guard_err (u_Protocol u \<noteq> [] \<and> u_Protocol u \<notin> set openConnectProtocols)
            (UpProtocol (u_Protocol u))) (\<lambda>_.
          guard_err (case u_Auth u of None \<Rightarrow> True | Some a \<Rightarrow> a_Username a = [])
            (UpRequired ''auth.username'')))))"

definition rejectOpenConnectFields :: "upstream \<Rightarrow> up_err + unit" where
  "rejectOpenConnectFields u = reject_fields UpstreamOpenConnect
     [(''server'', u_Server u \<noteq> []), (''protocol'', u_Protocol u \<noteq> []),
      (''serverCert'', u_ServerCert u \<noteq> []), (''tun'', u_Tun u)]"

definition validate_type :: "url_parser \<Rightarrow> upstream \<Rightarrow> up_err + unit" where
  "validate_type urlp u =
     (if u_Type u = UpstreamSocks5 then guard_err (u_Addr u = []) (UpRequired ''addr'')
      else if u_Type u = UpstreamHTTP then guard_err (u_URL u = []) (UpRequired ''url'')
      else if u_Type u = UpstreamForward then
        rbind (guard_err (u_Addr u = []) (UpRequired ''addr'')) (\<lambda>_.
        rbind (wrap_err UpAddr (split_host_port (u_Addr u))) (\<lambda>(host, _).
          guard_err (host = []) (UpAddrHost (u_Addr u))))
      else if u_Type u = UpstreamDirect then Inr ()
      else if u_Type u = UpstreamSSH then validateSSH u
      else if u_Type u = UpstreamOpenConnect then validateOpenConnect urlp u
      else Inl (UpTypeUnknown (u_Type u)))"

definition validate_upstream :: "url_parser \<Rightarrow> upstream \<Rightarrow> up_err + unit" where
  "validate_upstream urlp u =
     rbind (validate_type urlp u) (\<lambda>_.
     rbind (if u_Type u \<noteq> UpstreamSSH then rejectSSHFields u else Inr ()) (\<lambda>_.
     rbind (if u_Type u \<noteq> UpstreamOpenConnect then rejectOpenConnectFields u else Inr ()) (\<lambda>_.
       guard_err (u_DNS u \<noteq> [] \<and> u_DNS u \<noteq> ''local'' \<and> u_DNS u \<noteq> ''remote'') (UpDNSUnknown (u_DNS u)))))"

section \<open>Validation of the configuration\<close>

definition check_rule :: "(string \<times> upstream) list \<Rightarrow> nat \<times> cfg_rule \<Rightarrow> cfg_err + unit" where
  "check_rule ups = (\<lambda>(i, r).
     rbind (guard_err (r_Match r = []) (RuleMatchRequired i)) (\<lambda>_.
     let stars = count_stars (r_Match r) in
     rbind (guard_err (stars > 1 \<or> (stars = 1 \<and> \<not> has_prefix ''*.'' (r_Match r)))
       (RuleMatchInvalid i (r_Match r))) (\<lambda>_.
     guard_err (map_of ups (r_Upstream r) = None) (RuleUpstreamUnknown i (r_Upstream r)))))"

definition check_listener_type :: "nat \<Rightarrow> listener \<Rightarrow> cfg_err + unit" where
  "check_listener_type i l =
     (if l_Type l = [] \<or> l_Type l = ListenerSocks5 then
        guard_err (l_Target l \<noteq> []) (ListenerTargetOnlyTCP i)
      else if l_Type l = ListenerTCP then
        rbind (wrap_err (ListenerTargetBad i) (split_host_port (l_Target l))) (\<lambda>(host, _).
          guard_err (host = []) (ListenerTargetHost i (l_Target l)))
      else Inl (ListenerTypeUnknown i (l_Type l)))"

text \<open>
  The loop over the listeners carries \<open>seen\<close>, the addresses of the listeners before, and
  \<open>referenced\<close>, the upstream names in use; both are Go sets, here lists read as sets.
\<close>

fun listener_loop ::
  "(string \<times> upstream) list \<Rightarrow> nat \<Rightarrow> string list \<Rightarrow> string list \<Rightarrow> listener list \<Rightarrow> cfg_err + string list"
where
  "listener_loop ups i seen ref [] = Inr ref"
| "listener_loop ups i seen ref (l # ls) =
     rbind (guard_err (l_Listen l = []) (ListenerRequired i)) (\<lambda>_.
     rbind (wrap_err (ListenerBad i) (split_host_port (l_Listen l))) (\<lambda>_.
     rbind (guard_err (l_Listen l \<in> set seen) (ListenerDuplicate i (l_Listen l))) (\<lambda>_.
     rbind (check_listener_type i l) (\<lambda>_.
       if l_Upstream l = [] then listener_loop ups (Suc i) (l_Listen l # seen) ref ls
       else rbind (guard_err (map_of ups (l_Upstream l) = None)
              (ListenerUpstreamUnknown i (l_Upstream l))) (\<lambda>_.
            listener_loop ups (Suc i) (l_Listen l # seen) (l_Upstream l # ref) ls)))))"

fun via_loop :: "(string \<times> upstream) list \<Rightarrow> string list \<Rightarrow> string list \<Rightarrow> cfg_err + string list" where
  "via_loop ups ref [] = Inr ref"
| "via_loop ups ref (name # names) =
     (let via = u_Via (upstream_at ups name) in
      if via = [] then via_loop ups ref names
      else (case map_of ups via of
              None \<Rightarrow> Inl (ViaUnknown name via)
            | Some target \<Rightarrow>
                if u_Type target = UpstreamSSH then Inl (ViaChain name via)
                else via_loop ups (via # ref) names))"

definition check_referenced :: "(string \<times> upstream) list \<Rightarrow> string list \<Rightarrow> string \<Rightarrow> cfg_err + unit" where
  "check_referenced ups ref name =
     (let t = u_Type (upstream_at ups name) in
      guard_err ((t = UpstreamSSH \<or> t = UpstreamOpenConnect) \<and> name \<notin> set ref) (Unreferenced name t))"

definition Validate :: "url_parser \<Rightarrow> config \<Rightarrow> cfg_err + unit" where
  "Validate urlp c =
     rbind (guard_err (c_Listen c = []) ListenRequired) (\<lambda>_.
     rbind (wrap_err ListenBad (split_host_port (c_Listen c))) (\<lambda>_.
     rbind (guard_err (c_LogLevel c \<notin> {[], ''debug'', ''info'', ''warn'', ''error''})
       (LogLevelUnknown (c_LogLevel c))) (\<lambda>_.
     rbind (check_all (\<lambda>(name, u). wrap_err (UpstreamBad name) (validate_upstream urlp u)) (c_Upstreams c)) (\<lambda>_.
     rbind (check_all (check_rule (c_Upstreams c)) (indexed (c_Rules c))) (\<lambda>_.
     rbind (listener_loop (c_Upstreams c) 0 [] (map r_Upstream (c_Rules c)) (c_Listeners c)) (\<lambda>ref.
     rbind (via_loop (c_Upstreams c) ref (sorted_keys (c_Upstreams c))) (\<lambda>ref.
       check_all (check_referenced (c_Upstreams c) ref) (sorted_keys (c_Upstreams c)))))))))"

section \<open>Specification\<close>

definition valid_fingerprint :: "string \<Rightarrow> bool" where
  "valid_fingerprint s \<longleftrightarrow>
     (\<exists>raw digest. s = ''SHA256:'' @ raw \<and> b64_decode_raw raw = Some digest \<and> length digest = 32)"

definition ssh_fields_unset :: "upstream \<Rightarrow> bool" where
  "ssh_fields_unset u \<longleftrightarrow> u_Host u = [] \<and> u_Port u = 0 \<and> u_User u = [] \<and> u_KeyFile u = []
     \<and> u_KeyFilePassphrase u = [] \<and> u_IdentityAgent u = [] \<and> u_HostKey u = [] \<and> u_Via u = []"

definition oc_fields_unset :: "upstream \<Rightarrow> bool" where
  "oc_fields_unset u \<longleftrightarrow> u_Server u = [] \<and> u_Protocol u = [] \<and> u_ServerCert u = [] \<and> \<not> u_Tun u"

definition valid_addr :: "string \<Rightarrow> bool" where
  "valid_addr s \<longleftrightarrow> ok (split_host_port s)"

definition valid_target :: "string \<Rightarrow> bool" where
  "valid_target s \<longleftrightarrow> (\<exists>host port. split_host_port s = Inr (host, port) \<and> host \<noteq> [])"

definition valid_ssh :: "upstream \<Rightarrow> bool" where
  "valid_ssh u \<longleftrightarrow> u_Host u \<noteq> [] \<and> 0 \<le> u_Port u \<and> u_Port u \<le> 65535
     \<and> (u_KeyFile u \<noteq> [] \<or> u_IdentityAgent u \<noteq> [])
     \<and> (u_HostKey u \<noteq> [] \<longrightarrow> valid_fingerprint (u_HostKey u))"

definition valid_openconnect :: "url_parser \<Rightarrow> upstream \<Rightarrow> bool" where
  "valid_openconnect urlp u \<longleftrightarrow>
     u_Server u \<noteq> []
     \<and> (\<exists>p. urlp (u_Server u) = Some p \<and> url_Scheme p = ''https'' \<and> url_Host p \<noteq> [])
     \<and> (u_Protocol u = [] \<or> u_Protocol u \<in> set openConnectProtocols)
     \<and> (\<exists>a. u_Auth u = Some a \<and> a_Username a \<noteq> [])"

definition valid_upstream :: "url_parser \<Rightarrow> upstream \<Rightarrow> bool" where
  "valid_upstream urlp u \<longleftrightarrow>
     (u_Type u = UpstreamSSH \<or> ssh_fields_unset u)
     \<and> (u_Type u = UpstreamOpenConnect \<or> oc_fields_unset u)
     \<and> u_DNS u \<in> {[], ''local'', ''remote''}
     \<and> (u_Type u = UpstreamSocks5 \<and> u_Addr u \<noteq> []
        \<or> u_Type u = UpstreamHTTP \<and> u_URL u \<noteq> []
        \<or> u_Type u = UpstreamForward \<and> valid_target (u_Addr u)
        \<or> u_Type u = UpstreamDirect
        \<or> u_Type u = UpstreamSSH \<and> valid_ssh u
        \<or> u_Type u = UpstreamOpenConnect \<and> valid_openconnect urlp u)"

definition valid_rule :: "(string \<times> upstream) list \<Rightarrow> cfg_rule \<Rightarrow> bool" where
  "valid_rule ups r \<longleftrightarrow> validatePattern (r_Match r) = Inr () \<and> map_of ups (r_Upstream r) \<noteq> None"

definition valid_listener :: "(string \<times> upstream) list \<Rightarrow> listener \<Rightarrow> bool" where
  "valid_listener ups l \<longleftrightarrow>
     valid_addr (l_Listen l)
     \<and> (l_Type l \<in> {[], ListenerSocks5} \<and> l_Target l = [] \<or> l_Type l = ListenerTCP \<and> valid_target (l_Target l))
     \<and> (l_Upstream l = [] \<or> map_of ups (l_Upstream l) \<noteq> None)"

definition in_use :: "config \<Rightarrow> string \<Rightarrow> bool" where
  "in_use c name \<longleftrightarrow>
     (\<exists>r \<in> set (c_Rules c). r_Upstream r = name)
     \<or> (\<exists>l \<in> set (c_Listeners c). l_Upstream l = name \<and> name \<noteq> [])
     \<or> (\<exists>n u. map_of (c_Upstreams c) n = Some u \<and> u_Via u = name \<and> name \<noteq> [])"

definition valid_via :: "(string \<times> upstream) list \<Rightarrow> upstream \<Rightarrow> bool" where
  "valid_via ups u \<longleftrightarrow> u_Via u = [] \<or>
     (\<exists>target. map_of ups (u_Via u) = Some target \<and> u_Type target \<noteq> UpstreamSSH)"

definition valid_config :: "url_parser \<Rightarrow> config \<Rightarrow> bool" where
  "valid_config urlp c \<longleftrightarrow>
     valid_addr (c_Listen c)
     \<and> c_LogLevel c \<in> {[], ''debug'', ''info'', ''warn'', ''error''}
     \<and> (\<forall>name u. map_of (c_Upstreams c) name = Some u \<longrightarrow>
          valid_upstream urlp u \<and> valid_via (c_Upstreams c) u
          \<and> (u_Type u \<in> {UpstreamSSH, UpstreamOpenConnect} \<longrightarrow> in_use c name))
     \<and> (\<forall>r \<in> set (c_Rules c). valid_rule (c_Upstreams c) r)
     \<and> (\<forall>l \<in> set (c_Listeners c). valid_listener (c_Upstreams c) l)
     \<and> distinct (map l_Listen (c_Listeners c))"

section \<open>Validation decides the specification\<close>

lemma split_host_port_Nil [simp]: "split_host_port [] = Inl MissingPort"
  by (simp add: split_host_port_def)

lemma validateFingerprint_iff: "validateFingerprint s = Inr () \<longleftrightarrow> valid_fingerprint s"
  by (auto simp: validateFingerprint_def valid_fingerprint_def cut_prefix_def has_prefix_iff
      split: option.splits if_splits)

lemma valid_target_iff:
  "valid_target s \<longleftrightarrow> (case split_host_port s of Inl _ \<Rightarrow> False | Inr (h, _) \<Rightarrow> h \<noteq> [])"
  by (auto simp: valid_target_def split: sum.splits)

lemma target_check_iff:
  "rbind (wrap_err f (split_host_port s)) (\<lambda>(host, _). guard_err (host = []) e) = Inr ()
     \<longleftrightarrow> valid_target s"
  by (auto simp: valid_target_def result_simps)

lemma validateSSH_iff: "validateSSH u = Inr () \<longleftrightarrow> valid_ssh u"
  by (auto simp: validateSSH_def valid_ssh_def result_simps validateFingerprint_iff)

lemma validateOpenConnect_iff: "validateOpenConnect urlp u = Inr () \<longleftrightarrow> valid_openconnect urlp u"
  by (auto simp: validateOpenConnect_def valid_openconnect_def result_simps split: option.splits)

lemma rejectSSHFields_iff: "rejectSSHFields u = Inr () \<longleftrightarrow> ssh_fields_unset u"
  by (auto simp: rejectSSHFields_def reject_fields_def ssh_fields_unset_def result_simps)

lemma rejectOpenConnectFields_iff: "rejectOpenConnectFields u = Inr () \<longleftrightarrow> oc_fields_unset u"
  by (auto simp: rejectOpenConnectFields_def reject_fields_def oc_fields_unset_def result_simps)

lemma validate_type_iff:
  "validate_type urlp u = Inr () \<longleftrightarrow>
     (u_Type u = UpstreamSocks5 \<and> u_Addr u \<noteq> []
        \<or> u_Type u = UpstreamHTTP \<and> u_URL u \<noteq> []
        \<or> u_Type u = UpstreamForward \<and> valid_target (u_Addr u)
        \<or> u_Type u = UpstreamDirect
        \<or> u_Type u = UpstreamSSH \<and> valid_ssh u
        \<or> u_Type u = UpstreamOpenConnect \<and> valid_openconnect urlp u)"
proof -
  have "rbind (guard_err (u_Addr u = []) (UpRequired ''addr'')) (\<lambda>_.
      rbind (wrap_err UpAddr (split_host_port (u_Addr u))) (\<lambda>(host, _).
        guard_err (host = []) (UpAddrHost (u_Addr u)))) = Inr () \<longleftrightarrow> valid_target (u_Addr u)"
    by (cases "u_Addr u = []") (simp_all add: target_check_iff, simp add: valid_target_def)
  then show ?thesis
    by (auto simp: validate_type_def validateSSH_iff validateOpenConnect_iff)
qed

lemma validate_upstream_iff: "validate_upstream urlp u = Inr () \<longleftrightarrow> valid_upstream urlp u"
  using validate_type_iff [of urlp u]
  by (auto simp: validate_upstream_def valid_upstream_def result_simps rejectSSHFields_iff
      rejectOpenConnectFields_iff)

lemma validatePattern_iff:
  "validatePattern p = Inr () \<longleftrightarrow>
     p \<noteq> [] \<and> \<not> (count_stars p > 1 \<or> (count_stars p = 1 \<and> \<not> has_prefix ''*.'' p))"
  by (auto simp: validatePattern_def)

lemma check_rule_iff: "check_rule ups (i, r) = Inr () \<longleftrightarrow> valid_rule ups r"
  by (auto simp: check_rule_def valid_rule_def validatePattern_iff result_simps Let_def)

lemma check_listener_type_iff:
  "check_listener_type i l = Inr () \<longleftrightarrow>
     (l_Type l \<in> {[], ListenerSocks5} \<and> l_Target l = [] \<or> l_Type l = ListenerTCP \<and> valid_target (l_Target l))"
  using target_check_iff [of "ListenerTargetBad i" "l_Target l"]
  by (auto simp: check_listener_type_def)

lemma listener_loop_iff:
  "listener_loop ups i seen ref ls = Inr ref' \<longleftrightarrow>
     (\<forall>l \<in> set ls. valid_listener ups l) \<and> distinct (map l_Listen ls)
     \<and> set (map l_Listen ls) \<inter> set seen = {}
     \<and> ref' = rev (filter (\<lambda>u. u \<noteq> []) (map l_Upstream ls)) @ ref"
proof (induction ls arbitrary: i seen ref)
  case (Cons l ls)
  have sp: "(\<exists>x. split_host_port (l_Listen l) = Inr x) \<longleftrightarrow> valid_addr (l_Listen l)"
    by (simp add: valid_addr_def ok_iff)
  have ne: "valid_addr (l_Listen l) \<Longrightarrow> l_Listen l \<noteq> []"
    by (auto simp: valid_addr_def)
  show ?case
    using sp ne check_listener_type_iff [of i l]
    by (auto simp: result_simps Cons.IH valid_listener_def)
qed auto

lemma via_loop_iff:
  "via_loop ups ref names = Inr ref' \<longleftrightarrow>
     (\<forall>n \<in> set names. valid_via ups (upstream_at ups n))
     \<and> ref' = rev (filter (\<lambda>v. v \<noteq> []) (map (\<lambda>n. u_Via (upstream_at ups n)) names)) @ ref"
  by (induction names arbitrary: ref) (auto simp: valid_via_def Let_def split: option.splits)

lemma check_all_upstreams_iff:
  assumes "wf_map ups"
  shows "check_all (\<lambda>(name, u). wrap_err (UpstreamBad name) (validate_upstream urlp u)) ups = Inr ()
    \<longleftrightarrow> (\<forall>name u. map_of ups name = Some u \<longrightarrow> valid_upstream urlp u)"
  by (auto simp: check_all_ok_iff validate_upstream_iff wf_map_of_iff [OF assms])

lemma ball_keys:
  "(\<forall>n \<in> set (keys ups). P n (upstream_at ups n)) \<longleftrightarrow> (\<forall>n u. map_of ups n = Some u \<longrightarrow> P n u)"
  by (metis map_of_Some_keys option.case(2) upstream_at_def)

lemma in_use_iff:
  "in_use c name \<longleftrightarrow>
     name \<in> set (map r_Upstream (c_Rules c))
     \<or> name \<in> set (filter (\<lambda>u. u \<noteq> []) (map l_Upstream (c_Listeners c)))
     \<or> name \<in> set (filter (\<lambda>v. v \<noteq> []) (map (\<lambda>n. u_Via (upstream_at (c_Upstreams c) n))
          (sorted_keys (c_Upstreams c))))"
proof -
  have "(\<exists>n u. map_of (c_Upstreams c) n = Some u \<and> u_Via u = name \<and> name \<noteq> [])
    \<longleftrightarrow> (\<exists>n \<in> set (keys (c_Upstreams c)). u_Via (upstream_at (c_Upstreams c) n) = name \<and> name \<noteq> [])"
    using ball_keys [of "c_Upstreams c" "\<lambda>n u. \<not> (u_Via u = name \<and> name \<noteq> [])"] by blast
  moreover have "\<dots> \<longleftrightarrow> name \<in> set (filter (\<lambda>v. v \<noteq> []) (map (\<lambda>n. u_Via (upstream_at (c_Upstreams c) n))
      (sorted_keys (c_Upstreams c))))"
    by auto
  moreover have "(\<exists>l \<in> set (c_Listeners c). l_Upstream l = name \<and> name \<noteq> [])
    \<longleftrightarrow> name \<in> set (filter (\<lambda>u. u \<noteq> []) (map l_Upstream (c_Listeners c)))"
    by auto
  moreover have "(\<exists>r \<in> set (c_Rules c). r_Upstream r = name) \<longleftrightarrow> name \<in> set (map r_Upstream (c_Rules c))"
    by auto
  ultimately show ?thesis unfolding in_use_def by argo
qed

lemma Validate_iff:
  assumes "wf_map (c_Upstreams c)"
  shows "Validate urlp c = Inr () \<longleftrightarrow> valid_config urlp c"
proof -
  let ?ups = "c_Upstreams c"
  have listen: "(c_Listen c \<noteq> [] \<and> (\<exists>x. split_host_port (c_Listen c) = Inr x)) \<longleftrightarrow> valid_addr (c_Listen c)"
    by (auto simp: valid_addr_def ok_iff)
  have rules: "check_all (check_rule ?ups) (indexed (c_Rules c)) = Inr ()
      \<longleftrightarrow> (\<forall>r \<in> set (c_Rules c). valid_rule ?ups r)"
    unfolding check_all_ok_iff ball_indexed check_rule_iff by (simp add: all_set_conv_all_nth)
  have refd: "(\<forall>n \<in> set (keys ?ups). check_referenced ?ups ref n = Inr ()) \<longleftrightarrow>
      (\<forall>n u. map_of ?ups n = Some u \<longrightarrow> u_Type u \<in> {UpstreamSSH, UpstreamOpenConnect} \<longrightarrow> n \<in> set ref)" for ref
    unfolding check_referenced_def Let_def guard_err_Inr_iff
    by (subst ball_keys [where P = "\<lambda>n u. \<not> ((u_Type u = UpstreamSSH \<or> u_Type u = UpstreamOpenConnect) \<and> n \<notin> set ref)"])
      blast
  have vias: "(\<forall>n \<in> set (keys ?ups). valid_via ?ups (upstream_at ?ups n)) \<longleftrightarrow>
      (\<forall>n u. map_of ?ups n = Some u \<longrightarrow> valid_via ?ups u)"
    by (rule ball_keys [where P = "\<lambda>_. valid_via ?ups"])
  show ?thesis
    unfolding Validate_def valid_config_def in_use_iff
    using listen
    by (simp add: rbind_Inr_iff listener_loop_iff via_loop_iff check_all_ok_iff [of "check_referenced _ _"]
        check_all_upstreams_iff [OF assms] rules refd vias) blast
qed

lemma Validate_ok_iff: "wf_map (c_Upstreams c) \<Longrightarrow> ok (Validate urlp c) \<longleftrightarrow> valid_config urlp c"
  using Validate_iff by (auto simp: ok_iff)

section \<open>What a valid configuration gives the other components\<close>

text \<open>The rules as \<open>Start\<close> and \<open>runServe\<close> hand them to the matcher, and the known names.\<close>

definition match_rules :: "config \<Rightarrow> match_rule list" where
  "match_rules c = map (\<lambda>r. \<lparr>Pattern = r_Match r, RuleUpstream = r_Upstream r\<rparr>) (c_Rules c)"

definition known_upstreams :: "config \<Rightarrow> string list" where
  "known_upstreams c = keys (c_Upstreams c)"

lemma valid_rule_match:
  "valid_rule (c_Upstreams c) r \<longleftrightarrow>
     rule_valid (known_upstreams c) \<lparr>Pattern = r_Match r, RuleUpstream = r_Upstream r\<rparr>"
  by (auto simp: valid_rule_def rule_valid_def known_upstreams_def map_of_eq_None_keys)

lemma valid_config_rules_compile:
  "valid_config urlp c \<Longrightarrow> ok (match_new (match_rules c) (known_upstreams c))"
  by (auto simp: match_new_ok_iff match_rules_def valid_config_def simp flip: valid_rule_match)

lemma valid_config_upstream:
  "valid_config urlp c \<Longrightarrow> map_of (c_Upstreams c) name = Some u \<Longrightarrow>
     valid_upstream urlp u \<and> valid_via (c_Upstreams c) u"
  by (auto simp: valid_config_def)

lemma valid_config_rule_upstream:
  "valid_config urlp c \<Longrightarrow> r \<in> set (match_rules c) \<Longrightarrow> \<exists>u. map_of (c_Upstreams c) (RuleUpstream r) = Some u"
  by (auto simp: valid_config_def match_rules_def valid_rule_def)

lemma valid_config_listener:
  "valid_config urlp c \<Longrightarrow> l \<in> set (c_Listeners c) \<Longrightarrow> valid_listener (c_Upstreams c) l"
  by (auto simp: valid_config_def)

lemma valid_upstream_type:
  "valid_upstream urlp u \<Longrightarrow> u_Type u \<in> {UpstreamSocks5, UpstreamHTTP, UpstreamForward,
     UpstreamDirect, UpstreamSSH, UpstreamOpenConnect}"
  by (auto simp: valid_upstream_def)

text \<open>Chains through \<open>via\<close> have length one: the upstream dialled through has no \<open>via\<close> of its own.\<close>

lemma via_target_has_no_via:
  assumes "valid_config urlp c" "map_of (c_Upstreams c) name = Some u" "u_Via u \<noteq> []"
  shows "u_Type u = UpstreamSSH \<and> (\<exists>t. map_of (c_Upstreams c) (u_Via u) = Some t
    \<and> u_Type t \<noteq> UpstreamSSH \<and> u_Via t = [])"
proof -
  from valid_config_upstream [OF assms(1,2)] assms(3)
  obtain t where ssh: "u_Type u = UpstreamSSH" and t: "map_of (c_Upstreams c) (u_Via u) = Some t"
    "u_Type t \<noteq> UpstreamSSH"
    by (auto simp: valid_upstream_def ssh_fields_unset_def valid_via_def)
  moreover have "u_Via t = []"
    using valid_config_upstream [OF assms(1) t(1)] t(2)
    by (auto simp: valid_upstream_def ssh_fields_unset_def)
  ultimately show ?thesis by blast
qed

text \<open>The verdict does not depend on the order in which the upstream map is iterated.\<close>

lemma valid_config_cong:
  assumes "map_of ups = map_of (c_Upstreams c)"
  shows "valid_config urlp (c\<lparr>c_Upstreams := ups\<rparr>) \<longleftrightarrow> valid_config urlp c"
  using assms by (simp add: valid_config_def valid_via_def valid_rule_def valid_listener_def in_use_def)

section \<open>Properties\<close>

definition sample_config :: config where
  "sample_config = \<lparr>c_Version = 1, c_Listen = ''127.0.0.1:8888'', c_LogLevel = ''info'', c_LogFile = [],
     c_Upstreams =
       [(''jump'', zero_upstream\<lparr>u_Type := UpstreamSSH, u_Host := ''bastion.example'',
          u_KeyFile := ''/home/me/.ssh/id'', u_Via := ''corp''\<rparr>),
        (''corp'', zero_upstream\<lparr>u_Type := UpstreamSocks5, u_Addr := ''10.0.0.1:1080'', u_DNS := ''remote''\<rparr>),
        (''home'', zero_upstream\<lparr>u_Type := UpstreamDirect\<rparr>)],
     c_Rules = [\<lparr>r_Match = ''*.corp.example'', r_Upstream = ''corp''\<rparr>,
        \<lparr>r_Match = ''git.example'', r_Upstream = ''jump''\<rparr>],
     c_Listeners = [\<lparr>l_Type = [], l_Listen = ''127.0.0.1:1080'', l_Upstream = [], l_Target = []\<rparr>,
        \<lparr>l_Type = ListenerTCP, l_Listen = ''127.0.0.1:5432'', l_Upstream = ''jump'', l_Target = ''db.example:5432''\<rparr>],
     c_Chrome = None\<rparr>"

lemma sample_config_wf: "wf_map (c_Upstreams sample_config)"
  by code_simp

lemma sample_config_Validate: "Validate (\<lambda>_. None) sample_config = Inr ()"
  by code_simp

text \<open>C2. Validation accepts exactly the consistent configurations: every upstream complete for its
  type and free of other types' fields, rules and listeners naming known upstreams, listener
  addresses distinct, via chains legal, and every ssh or VPN upstream in use.\<close>

theorem Validate_decides_valid_config:
  assumes "wf_map (c_Upstreams c)"
  shows "Validate urlp c = Inr () \<longleftrightarrow> valid_config urlp c"
  using assms by (rule Validate_iff)

lemma Validate_decides_valid_config_witness:
  "valid_config (\<lambda>_. None) sample_config"
  using Validate_decides_valid_config [OF sample_config_wf, of "\<lambda>_. None"] sample_config_Validate by simp

text \<open>The verdict does not depend on the order in which the loops visit the upstream map.\<close>

theorem Validate_order_independent:
  assumes "wf_map ups" "wf_map ups'" "map_of ups = map_of ups'"
  shows "ok (Validate urlp (c\<lparr>c_Upstreams := ups\<rparr>)) \<longleftrightarrow> ok (Validate urlp (c\<lparr>c_Upstreams := ups'\<rparr>))"
  using assms valid_config_cong [of ups "c\<lparr>c_Upstreams := ups'\<rparr>" urlp]
  by (simp add: Validate_ok_iff)

lemma Validate_order_independent_witness:
  "ok (Validate (\<lambda>_. None) (sample_config\<lparr>c_Upstreams := rev (c_Upstreams sample_config)\<rparr>))"
proof -
  let ?ups = "c_Upstreams sample_config"
  have "map_of (rev ?ups) = map_of ?ups"
    using sample_config_wf by (subst map_of_inject_set) (simp_all add: wf_map_def keys_def rev_map [symmetric])
  moreover have "wf_map (rev ?ups)"
    using sample_config_wf by (simp add: wf_map_def keys_def rev_map [symmetric])
  ultimately have "ok (Validate (\<lambda>_. None) (sample_config\<lparr>c_Upstreams := rev ?ups\<rparr>))
      \<longleftrightarrow> ok (Validate (\<lambda>_. None) (sample_config\<lparr>c_Upstreams := ?ups\<rparr>))"
    using sample_config_wf by (intro Validate_order_independent)
  then show ?thesis using sample_config_Validate by simp
qed

text \<open>C36. In a validated configuration an upstream with a \<open>via\<close> is an ssh upstream, and the upstream it
  goes through exists, is not ssh and has no \<open>via\<close> itself, so chains end after one step.\<close>

theorem Validate_via_depth:
  assumes "Validate urlp c = Inr ()" "wf_map (c_Upstreams c)"
    and "map_of (c_Upstreams c) name = Some u" "u_Via u \<noteq> []"
  shows "u_Type u = UpstreamSSH \<and> (\<exists>t. map_of (c_Upstreams c) (u_Via u) = Some t
    \<and> u_Type t \<noteq> UpstreamSSH \<and> u_Via t = [])"
  using assms Validate_iff via_target_has_no_via by blast

lemma Validate_via_depth_witness:
  "\<exists>t. map_of (c_Upstreams sample_config) ''corp'' = Some t \<and> u_Type t \<noteq> UpstreamSSH \<and> u_Via t = []"
proof -
  let ?u = "zero_upstream\<lparr>u_Type := UpstreamSSH, u_Host := ''bastion.example'',
      u_KeyFile := ''/home/me/.ssh/id'', u_Via := ''corp''\<rparr>"
  have "map_of (c_Upstreams sample_config) ''jump'' = Some ?u"
    by (simp add: sample_config_def)
  from Validate_via_depth [OF sample_config_Validate sample_config_wf this] show ?thesis by simp
qed

text \<open>A pinned host key is accepted exactly when it is \<open>SHA256:\<close> and the unpadded base64 of 32
  bytes, the form in which ssh prints fingerprints; another digest is reported with its length.\<close>

theorem validateFingerprint_digest:
  "validateFingerprint (''SHA256:'' @ b64_encode_raw digest) =
     (if length digest = 32 then Inr () else Inl (FpLength (length digest)))"
  by (simp add: validateFingerprint_def b64_decode_encode_raw del: append_Cons append_Nil)

end
