(* ===== verification/Load.thy ===== *)
theory Load
  imports Config
begin

text \<open>
  Loading a configuration (\<open>pkg/config/load.go\<close>), the log level and log file
  (\<open>pkg/config/logfile.go\<close>) and the menu bar's search for a config file
  (\<open>internal/menubar/config.go\<close>). The koanf store, the environment and the file system are
  records of the functions the code calls.
\<close>

section \<open>load.go\<close>

definition Version :: int where
  "Version = 1"

definition Defaults :: config where
  "Defaults = \<lparr>c_Version = Version, c_Listen = ''127.0.0.1:8888'', c_LogLevel = ''info'',
     c_LogFile = [], c_Upstreams = [], c_Rules = [], c_Listeners = [], c_Chrome = None\<rparr>"

text \<open>
  koanf after a successful parse: which keys exist, and unmarshalling over a given
  configuration (\<open>Inl\<close> for an error).
\<close>

record koanf =
  Exists :: "string \<Rightarrow> bool"
  Unmarshal :: "config \<Rightarrow> string + config"

datatype load_err =
    ReadConfig string
  | ParseYAML string
  | LoadFileErr string
  | VersionRequired
  | UnmarshalErr string
  | VersionUnsupported int
  | Socks5ListenRemoved string
  | Invalid cfg_err

definition check_removed :: "koanf \<Rightarrow> string \<Rightarrow> load_err + unit" where
  "check_removed k name =
     guard_err (Exists k (''upstreams.'' @ name @ ''.socks5Listen'')) (Socks5ListenRemoved name)"

definition finalize :: "url_parser \<Rightarrow> koanf \<Rightarrow> load_err + config" where
  "finalize urlp k =
     rbind (guard_err (\<not> Exists k ''version'') VersionRequired) (\<lambda>_.
     rbind (wrap_err UnmarshalErr (Unmarshal k Defaults)) (\<lambda>c.
     rbind (guard_err (c_Version c \<noteq> Version) (VersionUnsupported (c_Version c))) (\<lambda>_.
     rbind (check_all (check_removed k) (sorted_keys (c_Upstreams c))) (\<lambda>_.
     rbind (wrap_err Invalid (Validate urlp c)) (\<lambda>_. Inr c)))))"

definition LoadBytes :: "url_parser \<Rightarrow> (string \<Rightarrow> string + koanf) \<Rightarrow> string \<Rightarrow> load_err + config" where
  "LoadBytes urlp yaml buf = rbind (wrap_err ParseYAML (yaml buf)) (finalize urlp)"

definition LoadReader :: "url_parser \<Rightarrow> (string \<Rightarrow> string + koanf) \<Rightarrow> string + string \<Rightarrow> load_err + config" where
  "LoadReader urlp yaml r = rbind (wrap_err ReadConfig r) (LoadBytes urlp yaml)"

definition LoadFile :: "url_parser \<Rightarrow> (string \<Rightarrow> string + koanf) \<Rightarrow> string \<Rightarrow> load_err + config" where
  "LoadFile urlp loadf path = rbind (wrap_err LoadFileErr (loadf path)) (finalize urlp)"

lemma finalize_Inr_iff:
  "finalize urlp k = Inr c \<longleftrightarrow>
     Exists k ''version'' \<and> Unmarshal k Defaults = Inr c \<and> c_Version c = Version
     \<and> (\<forall>n \<in> set (keys (c_Upstreams c)). \<not> Exists k (''upstreams.'' @ n @ ''.socks5Listen''))
     \<and> Validate urlp c = Inr ()"
  by (auto simp: finalize_def result_simps check_removed_def)

lemma Defaults_valid: "valid_config urlp Defaults"
  by (simp add: valid_config_def Defaults_def valid_addr_def split_host_port_def ok_def)

section \<open>logfile.go\<close>

datatype log_level = DebugLevel | InfoLevel | WarnLevel | ErrorLevel

definition LevelFromString :: "string \<Rightarrow> log_level" where
  "LevelFromString s = (if s = ''debug'' then DebugLevel else if s = ''warn'' then WarnLevel
     else if s = ''error'' then ErrorLevel else InfoLevel)"

abbreviation LogFileName :: string where "LogFileName \<equiv> ''dockprox.log''"

record os_env =
  env_GOOS :: string
  env_UserCacheDir :: "string + string"
  env_Getenv :: "string \<Rightarrow> string"
  env_UserHomeDir :: "string + string"

definition DefaultLogPath :: "os_env \<Rightarrow> string + string" where
  "DefaultLogPath env =
     rbind (env_UserCacheDir env) (\<lambda>dir.
       let dirname = (if env_GOOS env = ''darwin'' \<or> env_GOOS env = ''ios''
                      then ''org.foomo.dockprox'' else ''dockprox'')
       in Inr (path_join [dir, dirname, LogFileName]))"

definition ResolveLogPath :: "os_env \<Rightarrow> config \<Rightarrow> string + string" where
  "ResolveLogPath env cfg = (if c_LogFile cfg \<noteq> [] then Inr (c_LogFile cfg) else DefaultLogPath env)"

text \<open>
  \<open>OpenLogWriter\<close> with the file operations as functions that may fail; the state is the list
  of operations performed. The result is the writer's file name, size and backup limits.
\<close>

datatype fs_op = MkdirAll string | OpenFile string | CloseFile string | WriteFile string

type_synonym fs_errs = "fs_op \<Rightarrow> string option"

definition fs_do :: "fs_errs \<Rightarrow> fs_op \<Rightarrow> string + unit" where
  "fs_do errs op = (case errs op of Some e \<Rightarrow> Inl e | None \<Rightarrow> Inr ())"

record log_writer =
  lw_Filename :: string
  lw_MaxSize :: nat
  lw_MaxBackups :: nat

definition OpenLogWriter :: "os_env \<Rightarrow> fs_errs \<Rightarrow> config \<Rightarrow> string + log_writer" where
  "OpenLogWriter env errs cfg =
     rbind (ResolveLogPath env cfg) (\<lambda>path.
     rbind (fs_do errs (MkdirAll (path_dir path))) (\<lambda>_.
     rbind (fs_do errs (OpenFile path)) (\<lambda>_.
     rbind (fs_do errs (CloseFile path)) (\<lambda>_.
       Inr \<lparr>lw_Filename = path, lw_MaxSize = 5, lw_MaxBackups = 3\<rparr>))))"

section \<open>Finding or creating the menu bar's config file\<close>

definition homeDir :: "os_env \<Rightarrow> string" where
  "homeDir env = (if env_Getenv env ''HOME'' \<noteq> [] then env_Getenv env ''HOME''
     else (case env_UserHomeDir env of Inl _ \<Rightarrow> [] | Inr h \<Rightarrow> h))"

definition XDGConfigPath :: "os_env \<Rightarrow> string" where
  "XDGConfigPath env =
     (let xdg = env_Getenv env ''XDG_CONFIG_HOME''
      in if xdg \<noteq> [] then path_join [xdg, ''dockprox/config.yaml'']
         else path_join [homeDir env, ''.config'', ''dockprox/config.yaml''])"

definition DotfilePath :: "os_env \<Rightarrow> string" where
  "DotfilePath env = path_join [homeDir env, ''.dockprox.yaml'']"

text \<open>The files that exist, as a list; \<open>os.Stat\<close> succeeds on exactly those.\<close>

definition Lookup :: "os_env \<Rightarrow> string list \<Rightarrow> string option" where
  "Lookup env files = find (\<lambda>p. p \<in> set files) [XDGConfigPath env, DotfilePath env]"

definition Bootstrap :: "os_env \<Rightarrow> fs_errs \<Rightarrow> string list \<Rightarrow> (string + string) \<times> string list" where
  "Bootstrap env errs files =
     (let path = (if env_Getenv env ''XDG_CONFIG_HOME'' \<noteq> [] then XDGConfigPath env else DotfilePath env)
      in case fs_do errs (MkdirAll (path_dir path)) of
           Inl e \<Rightarrow> (Inl e, files)
         | Inr _ \<Rightarrow> (case fs_do errs (WriteFile path) of
               Inl e \<Rightarrow> (Inl e, files)
             | Inr _ \<Rightarrow> (Inr path, path # files)))"

definition Resolve_config :: "os_env \<Rightarrow> fs_errs \<Rightarrow> string list \<Rightarrow> (string + string) \<times> string list" where
  "Resolve_config env errs files =
     (case Lookup env files of Some p \<Rightarrow> (Inr p, files) | None \<Rightarrow> Bootstrap env errs files)"

lemma Lookup_Some: "Lookup env files = Some p \<Longrightarrow> p \<in> set files"
  by (auto simp: Lookup_def split: if_splits)

lemma Bootstrap_then_Lookup:
  assumes "Lookup env files = None" "Bootstrap env errs files = (Inr p, files')"
  shows "Lookup env files' = Some p \<and> p \<in> set files'"
  using assms by (auto simp: Bootstrap_def Lookup_def Let_def split: sum.splits if_splits)

lemma Resolve_config_again:
  assumes "Resolve_config env errs files = (Inr p, files')"
  shows "Resolve_config env errs' files' = (Inr p, files')"
proof (cases "Lookup env files")
  case None
  then have "Lookup env files' = Some p"
    using assms Bootstrap_then_Lookup by (simp add: Resolve_config_def)
  then show ?thesis by (simp add: Resolve_config_def)
qed (use assms in \<open>auto simp: Resolve_config_def\<close>)

section \<open>Properties\<close>

text \<open>A configuration that loads from a file is valid, has the supported version, was unmarshalled
  over the defaults, uses no removed key, and its rules compile against its upstreams.\<close>

theorem LoadFile_valid:
  assumes "LoadFile urlp loadf path = Inr c" "wf_map (c_Upstreams c)"
  shows "valid_config urlp c \<and> c_Version c = Version
    \<and> (\<exists>k. loadf path = Inr k \<and> Unmarshal k Defaults = Inr c \<and> Exists k ''version''
        \<and> list_all (\<lambda>n. \<not> Exists k (''upstreams.'' @ n @ ''.socks5Listen'')) (keys (c_Upstreams c)))
    \<and> ok (match_new (match_rules c) (known_upstreams c))"
proof -
  obtain k where k: "loadf path = Inr k" "finalize urlp k = Inr c"
    using assms(1) by (auto simp: LoadFile_def result_simps)
  moreover have "valid_config urlp c"
    using k(2) assms(2) by (simp add: finalize_Inr_iff Validate_iff)
  ultimately show ?thesis
    using valid_config_rules_compile by (auto simp: finalize_Inr_iff list_all_iff)
qed

lemma LoadFile_valid_witness:
  "ok (match_new (match_rules sample_config) (known_upstreams sample_config))"
proof -
  let ?k = "\<lparr>Exists = (\<lambda>key. key = ''version''), Unmarshal = (\<lambda>_. Inr sample_config)\<rparr>"
  have "Validate (\<lambda>_. None) sample_config = Inr ()" by (rule sample_config_Validate)
  then have "LoadFile (\<lambda>_. None) (\<lambda>_. Inr ?k) ''dockprox.yaml'' = Inr sample_config"
    unfolding LoadFile_def wrap_err_simps rbind_simps finalize_Inr_iff
    by (simp add: sample_config_def Version_def)
  from LoadFile_valid [OF this sample_config_wf] show ?thesis by blast
qed

text \<open>The search for a config file is stable: once it returned a path, whether found or newly
  written, running it again returns the same path and writes nothing.\<close>

theorem Resolve_config_stable:
  assumes "Resolve_config env errs files = (Inr p, files')"
  shows "Resolve_config env errs' files' = (Inr p, files') \<and> p \<in> set files'"
  using assms Resolve_config_again [OF assms] Lookup_Some Bootstrap_then_Lookup
  by (auto simp: Resolve_config_def split: option.splits)

definition sample_env :: os_env where
  "sample_env = \<lparr>env_GOOS = ''darwin'', env_UserCacheDir = Inr ''/home/me/Library/Caches'',
     env_Getenv = (\<lambda>n. if n = ''HOME'' then ''/home/me'' else []), env_UserHomeDir = Inr ''/home/me''\<rparr>"

lemma Resolve_config_stable_witness:
  "Resolve_config sample_env (\<lambda>_. Some ''read-only'') [''/home/me/.dockprox.yaml'']
     = (Inr ''/home/me/.dockprox.yaml'', [''/home/me/.dockprox.yaml''])"
proof -
  have "Resolve_config sample_env (\<lambda>_. None) [] = (Inr ''/home/me/.dockprox.yaml'', [''/home/me/.dockprox.yaml''])"
    by code_simp
  from Resolve_config_stable [OF this] show ?thesis by blast
qed

end
