(* ===== verification/Secret.thy ===== *)
theory Secret
  imports GoLib
begin

text \<open>
  \<open>pkg/secret\<close>: secret references. A literal resolves to itself; \<open>op://\<close>, \<open>keychain://\<close> and
  \<open>cmd:\<close> references run a tool and cache what it prints. The operating system is a record of
  the calls the code makes: \<open>exec.LookPath\<close>, the executables under a directory, and running a
  program with arguments and a PATH.
\<close>

section \<open>Data\<close>

record resolver =
  allowCmd :: bool
  searchDirs :: "string list"
  cache :: "(string \<times> string) list"

record secret_os =
  os_LookPath :: "string \<Rightarrow> string option"
  os_executable :: "string \<Rightarrow> bool"
  os_PATH :: string
  os_Exec :: "string \<Rightarrow> string list \<Rightarrow> string option \<Rightarrow> (string \<times> string) + string"

text \<open>
  \<open>os_Exec bin args path\<close> is \<open>Inl (stderr, err)\<close> for a command that failed and \<open>Inr stdout\<close>
  for one that succeeded; \<open>path\<close> is the child's PATH when the code replaces it.
\<close>

datatype sec_err =
    KeychainSyntax string
  | CmdNotEnabled
  | CmdEmpty
  | ToolNotFound string "string list" "string option"
  | ToolFailed string string
  | SecretErr string sec_err

datatype secret_option = WithCmd | WithSearchDirs "string list"

fun apply_option :: "resolver \<Rightarrow> secret_option \<Rightarrow> resolver" where
  "apply_option r WithCmd = r\<lparr>allowCmd := True\<rparr>"
| "apply_option r (WithSearchDirs dirs) = r\<lparr>searchDirs := searchDirs r @ dirs\<rparr>"

definition secret_new :: "secret_option list \<Rightarrow> resolver" where
  "secret_new opts = foldl apply_option \<lparr>allowCmd = False, searchDirs = [], cache = []\<rparr> opts"

section \<open>Parsing a reference\<close>

abbreviation prefixOp :: string where "prefixOp \<equiv> ''op://''"
abbreviation prefixKeychain :: string where "prefixKeychain \<equiv> ''keychain://''"
abbreviation prefixCmd :: string where "prefixCmd \<equiv> ''cmd:''"

text \<open>The command line for a reference; \<open>None\<close> for a literal.\<close>

definition command :: "resolver \<Rightarrow> string \<Rightarrow> sec_err + string list option" where
  "command r s =
     (if has_prefix prefixOp s then Inr (Some [''op'', ''read'', ''--no-newline'', s])
      else if has_prefix prefixKeychain s then
        (let (service, account, _) = cut (CHR ''/'') (trim_prefix prefixKeychain s)
         in if service = [] \<or> account = [] then Inl (KeychainSyntax s)
            else Inr (Some [''security'', ''find-generic-password'', ''-w'', ''-s'', service, ''-a'', account]))
      else if has_prefix prefixCmd s then
        (if \<not> allowCmd r then Inl CmdNotEnabled
         else if trim_space (trim_prefix prefixCmd s) = [] then Inl CmdEmpty
         else Inr (Some [''/bin/sh'', ''-c'', trim_prefix prefixCmd s]))
      else Inr None)"

section \<open>Running the tool\<close>

definition installHints :: "(string \<times> string) list" where
  "installHints =
     [(''op'', ''install the 1Password CLI: brew install --cask 1password-cli''),
      (''security'', ''keychain:// needs macOS'')]"

definition lookPath :: "secret_os \<Rightarrow> resolver \<Rightarrow> string \<Rightarrow> sec_err + string" where
  "lookPath os r name =
     (case os_LookPath os name of
        Some p \<Rightarrow> Inr p
      | None \<Rightarrow>
          (case find (os_executable os) (map (\<lambda>dir. dir @ ''/'' @ name) (searchDirs r)) of
             Some p \<Rightarrow> Inr p
           | None \<Rightarrow> Inl (ToolNotFound name (searchDirs r) (map_of installHints name))))"

abbreviation stderrMax :: nat where "stderrMax \<equiv> 200"

definition clip_stderr :: "string \<Rightarrow> string" where
  "clip_stderr out =
     (let msg = trim_space out
      in if length msg > stderrMax then ''...'' @ drop (length msg - stderrMax) msg else msg)"

definition trim_newlines :: "string \<Rightarrow> string" where
  "trim_newlines s = rev (dropWhile (\<lambda>c. c = CHR 0x0D \<or> c = CHR 0x0A) (rev s))"

definition child_path :: "secret_os \<Rightarrow> resolver \<Rightarrow> string option" where
  "child_path os r =
     (if searchDirs r \<noteq> [] then Some (join_with '':'' (os_PATH os # searchDirs r)) else None)"

definition run_tool :: "secret_os \<Rightarrow> resolver \<Rightarrow> string list \<Rightarrow> sec_err + string" where
  "run_tool os r args =
     rbind (lookPath os r (hd args)) (\<lambda>bin.
       (case os_Exec os bin (tl args) (child_path os r) of
          Inl (stderr, err) \<Rightarrow> Inl (ToolFailed (clip_stderr stderr) err)
        | Inr out \<Rightarrow> Inr (trim_newlines out)))"

section \<open>Check and Resolve\<close>

definition Check :: "secret_os \<Rightarrow> resolver \<Rightarrow> string \<Rightarrow> sec_err + unit" where
  "Check os r s =
     rbind (command r s) (\<lambda>args.
       (case args of
          None \<Rightarrow> Inr ()
        | Some as \<Rightarrow> rbind (wrap_err (SecretErr s) (lookPath os r (hd as))) (\<lambda>_. Inr ())))"

definition Resolve :: "secret_os \<Rightarrow> resolver \<Rightarrow> string \<Rightarrow> (sec_err + string) \<times> resolver" where
  "Resolve os r s =
     (case command r s of
        Inl e \<Rightarrow> (Inl e, r)
      | Inr None \<Rightarrow> (Inr s, r)
      | Inr (Some args) \<Rightarrow>
          (case map_of (cache r) s of
             Some v \<Rightarrow> (Inr v, r)
           | None \<Rightarrow>
               (case run_tool os r args of
                  Inl e \<Rightarrow> (Inl (SecretErr s e), r)
                | Inr v \<Rightarrow> (Inr v, r\<lparr>cache := put (cache r) s v\<rparr>))))"

section \<open>Facts\<close>

definition is_reference :: "string \<Rightarrow> bool" where
  "is_reference s \<longleftrightarrow> has_prefix prefixOp s \<or> has_prefix prefixKeychain s \<or> has_prefix prefixCmd s"

lemma command_literal_iff: "command r s = Inr None \<longleftrightarrow> \<not> is_reference s"
  by (auto simp: command_def is_reference_def Let_def split: prod.splits if_splits)

lemma command_args_nonempty: "command r s = Inr (Some args) \<Longrightarrow> args \<noteq> []"
  by (auto simp: command_def Let_def split: prod.splits if_splits)

lemma command_shell_needs_cmd:
  "command r s = Inr (Some args) \<Longrightarrow> hd args = ''/bin/sh'' \<Longrightarrow> allowCmd r \<and> has_prefix prefixCmd s"
  by (auto simp: command_def Let_def split: prod.splits if_splits)

lemma command_cache_irrelevant: "command (r\<lparr>cache := x\<rparr>) s = command r s"
  by (simp add: command_def)

lemma Resolve_frame:
  "Resolve os r s = (res, r') \<Longrightarrow> allowCmd r' = allowCmd r \<and> searchDirs r' = searchDirs r"
  by (auto simp: Resolve_def split: sum.splits option.splits)

lemma Resolve_literal: "\<not> is_reference s \<Longrightarrow> Resolve os r s = (Inr s, r)"
  using command_literal_iff [of r s] by (simp add: Resolve_def)

lemma Resolve_failure_not_cached: "Resolve os r s = (Inl e, r') \<Longrightarrow> r' = r"
  by (auto simp: Resolve_def split: sum.splits option.splits)

text \<open>Once resolved, a reference keeps its value whatever the machine does later.\<close>

lemma Resolve_cached:
  assumes "Resolve os r s = (Inr v, r')"
  shows "Resolve os' r' s = (Inr v, r')"
  using assms by (auto simp: Resolve_def command_cache_irrelevant split: sum.splits option.splits)

text \<open>Resolving another reference in between does not disturb the cached value.\<close>

lemma Resolve_cache_mono:
  "Resolve os r t = (res, r') \<Longrightarrow> map_of (cache r) s = Some v \<Longrightarrow> map_of (cache r') s = Some v"
  by (auto simp: Resolve_def split: sum.splits option.splits if_splits)

lemma Resolve_of_cached:
  "is_reference s \<Longrightarrow> ok (command r s) \<Longrightarrow> map_of (cache r) s = Some v \<Longrightarrow> Resolve os r s = (Inr v, r)"
  using command_literal_iff [of r s] by (auto simp: Resolve_def ok_iff split: option.splits)

lemma length_clip_stderr: "length (clip_stderr out) \<le> stderrMax + 3"
  by (simp add: clip_stderr_def Let_def)

text \<open>A reference that passes \<open>Check\<close> finds its tool: resolving can only fail in the tool itself.\<close>

lemma Check_then_Resolve:
  assumes "Check os r s = Inr ()" "fst (Resolve os r s) = Inl e"
  shows "\<exists>msg err. e = SecretErr s (ToolFailed msg err)"
  using assms
  by (auto simp: Check_def Resolve_def run_tool_def result_simps split: sum.splits option.splits)

section \<open>Properties\<close>

text \<open>A sequence of resolutions, each on the machine as it then is.\<close>

definition resolve_all :: "(secret_os \<times> string) list \<Rightarrow> resolver \<Rightarrow> resolver" where
  "resolve_all = fold (\<lambda>(os, s) r. snd (Resolve os r s))"

lemma resolve_all_cache:
  "map_of (cache r) s = Some v \<Longrightarrow>
     map_of (cache (resolve_all steps r)) s = Some v \<and> allowCmd (resolve_all steps r) = allowCmd r"
proof (induction steps arbitrary: r)
  case (Cons p steps)
  obtain os t where p: "p = (os, t)" by force
  obtain res r' where r: "Resolve os r t = (res, r')" by force
  from Resolve_cache_mono [OF r Cons.prems] Resolve_frame [OF r] Cons.IH [of r'] show ?case
    by (simp add: resolve_all_def p r)
qed (simp add: resolve_all_def)

text \<open>A reference that resolved once yields the same value for ever: no later resolution of any
  reference, on a machine in any state, changes it, so a tool is asked at most once per secret.\<close>

theorem Resolve_once:
  assumes "Resolve os r s = (Inr v, r')"
  shows "fst (Resolve os' (resolve_all steps r') s) = Inr v"
proof (cases "is_reference s")
  case True
  have c: "map_of (cache r') s = Some v"
    using assms True by (auto simp: Resolve_def command_literal_iff [of r s, THEN iffD1]
        command_literal_iff split: sum.splits option.splits)
  have "ok (command r s)"
    using assms by (auto simp: Resolve_def split: sum.splits)
  moreover have "command (resolve_all steps r') s = command r s"
    using resolve_all_cache [OF c] Resolve_frame [OF assms] by (simp add: command_def)
  ultimately show ?thesis
    using Resolve_of_cached [OF True] resolve_all_cache [OF c] by simp
next
  case False
  then show ?thesis using assms by (simp add: Resolve_literal)
qed

definition sample_os :: secret_os where
  "sample_os = \<lparr>os_LookPath = (\<lambda>n. if n = ''op'' then Some ''/usr/bin/op'' else None),
     os_executable = (\<lambda>_. False), os_PATH = ''/usr/bin'', os_Exec = (\<lambda>_ _ _. Inr ''hunter2'')\<rparr>"

lemma Resolve_once_witness:
  "fst (Resolve (sample_os\<lparr>os_Exec := \<lambda>_ _ _. Inl (''locked'', ''exit 1'')\<rparr>)
     (resolve_all [(sample_os, ''op://vault/b''), (sample_os, ''plain'')]
       (secret_new []\<lparr>cache := [(''op://vault/a'', ''hunter2'')]\<rparr>)) ''op://vault/a'') = Inr ''hunter2''"
proof -
  have "Resolve sample_os (secret_new []) ''op://vault/a'' =
      (Inr ''hunter2'', secret_new []\<lparr>cache := [(''op://vault/a'', ''hunter2'')]\<rparr>)"
    by code_simp
  from Resolve_once [OF this] show ?thesis .
qed

text \<open>A failed resolution leaves the resolver as it was, so it is retried; and without the \<open>cmd:\<close>
  option a \<open>cmd:\<close> reference is refused on every machine, before any tool is looked up or run.\<close>

theorem Resolve_failure_and_shell:
  "(case Resolve os r s of (Inl _, r') \<Rightarrow> r' = r | (Inr _, _) \<Rightarrow> True)
   \<and> (allowCmd r \<or> \<not> has_prefix prefixCmd s \<or> Resolve os r s = (Inl CmdNotEnabled, r))"
proof -
  have "\<not> has_prefix prefixOp s \<and> \<not> has_prefix prefixKeychain s" if "has_prefix prefixCmd s"
    using that by (auto simp: has_prefix_iff)
  then have "Resolve os r s = (Inl CmdNotEnabled, r)" if "\<not> allowCmd r" "has_prefix prefixCmd s"
    using that by (simp add: Resolve_def command_def)
  moreover have "case Resolve os r s of (Inl _, r') \<Rightarrow> r' = r | (Inr _, _) \<Rightarrow> True"
    using Resolve_failure_not_cached [of os r s] by (auto split: prod.splits sum.splits)
  ultimately show ?thesis by blast
qed

lemma Resolve_failure_and_shell_witness:
  "Resolve sample_os (secret_new []) ''cmd:cat key'' = (Inl CmdNotEnabled, secret_new [])"
proof -
  have "\<not> allowCmd (secret_new [])" "has_prefix prefixCmd ''cmd:cat key''" by code_simp+
  then show ?thesis
    using Resolve_failure_and_shell [where os = sample_os and r = "secret_new []" and s = "''cmd:cat key''"] by blast
qed

text \<open>C35. A reference that passes the startup check can later fail only inside the tool: its syntax,
  the \<open>cmd:\<close> permission and the tool's presence are settled.\<close>

theorem Check_settles:
  assumes "Check os r s = Inr ()" "fst (Resolve os r s) = Inl e"
  shows "\<exists>msg err. e = SecretErr s (ToolFailed msg err) \<and> length msg \<le> stderrMax + 3"
  using assms length_clip_stderr
  by (auto simp: Check_def Resolve_def run_tool_def result_simps split: sum.splits option.splits)

lemma Check_settles_witness:
  "\<exists>msg err. SecretErr ''op://vault/a'' (ToolFailed ''locked'' ''exit 1'') = SecretErr ''op://vault/a'' (ToolFailed msg err)
     \<and> length msg \<le> stderrMax + 3"
proof -
  let ?os = "sample_os\<lparr>os_Exec := \<lambda>_ _ _. Inl (''locked'', ''exit 1'')\<rparr>"
  have "Check ?os (secret_new []) ''op://vault/a'' = Inr ()" by code_simp
  moreover have "fst (Resolve ?os (secret_new []) ''op://vault/a'') =
      Inl (SecretErr ''op://vault/a'' (ToolFailed ''locked'' ''exit 1''))" by code_simp
  ultimately show ?thesis by (rule Check_settles)
qed

end
