(* ===== verification/SshTarget.thy ===== *)
theory SshTarget
  imports Load Secret
begin

text \<open>
  \<open>pkg/sshclient/target.go\<close>, \<open>hostkey.go\<close> and the credential half of \<open>auth.go\<close>: an ssh upstream
  turned into an endpoint with its defaults, the startup checks, the authentication methods of
  one attempt and the host key check. Reading files, parsing keys, the known-hosts file and the
  agent socket are fields of the record \<open>ssh_host\<close>.
\<close>

section \<open>Data\<close>

record target =
  t_Host :: string
  t_Port :: int
  t_User :: string
  t_KeyFile :: string
  t_KeyFilePassphrase :: string
  t_IdentityAgent :: string
  t_HostKey :: string

text \<open>What parsing a private key yields; a key is represented by its fingerprint.\<close>

datatype key_parse = Key string | PassphraseMissing | KeyError string

record ssh_host =
  sh_os :: os_env
  sh_secret :: secret_os
  sh_CurrentUser :: "string + string"
  sh_ReadFile :: "string \<Rightarrow> string + string"
  sh_Stat :: "string \<Rightarrow> bool"
  sh_ParsePrivateKey :: "string \<Rightarrow> key_parse"
  sh_ParseWithPassphrase :: "string \<Rightarrow> string \<Rightarrow> string + string"
  sh_KnownHosts :: "string \<Rightarrow> string + (string \<Rightarrow> string \<Rightarrow> bool)"
  sh_DialAgent :: "string \<Rightarrow> bool"

datatype target_err =
    UserErr string
  | HomeErr string
  | CannotExpand string
  | FieldErr string target_err
  | FileErr string
  | PassphraseErr sec_err
  | KeyFileErr string
  | KeyEncrypted string
  | AgentEnvEmpty
  | AgentMissing string
  | KnownHostsUnreadable string
  | KnownHostsErr string
  | NoAuthMethod
  | AgentDial string

section \<open>New\<close>

definition expandHome :: "os_env \<Rightarrow> string \<Rightarrow> target_err + string" where
  "expandHome env path =
     (if path = [] \<or> \<not> has_prefix ''~'' path then Inr path
      else rbind (wrap_err HomeErr (env_UserHomeDir env)) (\<lambda>home.
        if path = ''~'' then Inr home
        else if \<not> has_prefix ''~/'' path then Inl (CannotExpand path)
        else Inr (path_join [home, drop 2 path])))"

definition defaultPort :: int where
  "defaultPort = 22"

definition target_new :: "ssh_host \<Rightarrow> upstream \<Rightarrow> target_err + target" where
  "target_new h u =
     rbind (if u_User u \<noteq> [] then Inr (u_User u) else wrap_err UserErr (sh_CurrentUser h)) (\<lambda>user.
     rbind (wrap_err (FieldErr ''keyFile'') (expandHome (sh_os h) (u_KeyFile u))) (\<lambda>key.
     rbind (if u_IdentityAgent u = IdentityAgentEnv then Inr (u_IdentityAgent u)
            else wrap_err (FieldErr ''identityAgent'') (expandHome (sh_os h) (u_IdentityAgent u))) (\<lambda>agent.
       Inr \<lparr>t_Host = u_Host u, t_Port = (if u_Port u = 0 then defaultPort else u_Port u), t_User = user,
         t_KeyFile = key, t_KeyFilePassphrase = u_KeyFilePassphrase u, t_IdentityAgent = agent,
         t_HostKey = u_HostKey u\<rparr>)))"

definition target_addr :: "target \<Rightarrow> string" where
  "target_addr t = join_host_port (t_Host t) (itoa (t_Port t))"

section \<open>Keys, the agent and the startup checks\<close>

text \<open>\<open>Inr None\<close> is Go's "no signer, no error": the key is encrypted and the agent takes over.\<close>

definition keySigner :: "ssh_host \<Rightarrow> target \<Rightarrow> resolver \<Rightarrow> (target_err + string option) \<times> resolver" where
  "keySigner h t r =
     (case sh_ReadFile h (t_KeyFile t) of
        Inl e \<Rightarrow> (Inl (FileErr e), r)
      | Inr pem \<Rightarrow>
          if t_KeyFilePassphrase t \<noteq> [] then
            (case Resolve (sh_secret h) r (t_KeyFilePassphrase t) of
               (Inl e, r) \<Rightarrow> (Inl (PassphraseErr e), r)
             | (Inr pass, r) \<Rightarrow>
                 (case sh_ParseWithPassphrase h pem pass of
                    Inl _ \<Rightarrow> (Inl (KeyFileErr (t_KeyFile t)), r)
                  | Inr k \<Rightarrow> (Inr (Some k), r)))
          else
            (case sh_ParsePrivateKey h pem of
               Key k \<Rightarrow> (Inr (Some k), r)
             | PassphraseMissing \<Rightarrow>
                 if t_IdentityAgent t \<noteq> [] then (Inr None, r) else (Inl (KeyEncrypted (t_KeyFile t)), r)
             | KeyError _ \<Rightarrow> (Inl (KeyFileErr (t_KeyFile t)), r)))"

definition stat_agent :: "ssh_host \<Rightarrow> string \<Rightarrow> target_err + string" where
  "stat_agent h path = (if sh_Stat h path then Inr path else Inl (AgentMissing path))"

definition agentSocket :: "ssh_host \<Rightarrow> target \<Rightarrow> target_err + string" where
  "agentSocket h t =
     (if t_IdentityAgent t = [] then Inr []
      else if t_IdentityAgent t = IdentityAgentEnv then
        (let path = env_Getenv (sh_os h) IdentityAgentEnv
         in if path = [] then Inl AgentEnvEmpty else stat_agent h path)
      else stat_agent h (t_IdentityAgent t))"

definition knownHostsPath :: "ssh_host \<Rightarrow> target_err + string" where
  "knownHostsPath h = rbind (wrap_err HomeErr (env_UserHomeDir (sh_os h))) (\<lambda>home.
     Inr (path_join [home, ''.ssh'', ''known_hosts'']))"

definition check_known_hosts :: "ssh_host \<Rightarrow> target \<Rightarrow> target_err + unit" where
  "check_known_hosts h t =
     (if t_HostKey t \<noteq> [] then Inr ()
      else rbind (knownHostsPath h) (\<lambda>path.
        guard_err (\<not> sh_Stat h path) (KnownHostsUnreadable path)))"

definition target_validate :: "ssh_host \<Rightarrow> target \<Rightarrow> resolver \<Rightarrow> (target_err + unit) \<times> resolver" where
  "target_validate h t r =
     (case (if t_KeyFile t \<noteq> [] then keySigner h t r else (Inr None, r)) of
        (Inl e, r) \<Rightarrow> (Inl e, r)
      | (Inr _, r) \<Rightarrow> (rbind (agentSocket h t) (\<lambda>_. check_known_hosts h t), r))"

section \<open>Authentication methods of one attempt\<close>

datatype auth_method = PublicKey string | AgentKeys string

text \<open>\<open>agentSigners\<close> dials the agent; the keys behind its socket are only listed during the handshake.\<close>

definition agentSigners :: "ssh_host \<Rightarrow> string \<Rightarrow> target_err + auth_method" where
  "agentSigners h sock = (if sh_DialAgent h sock then Inr (AgentKeys sock) else Inl (AgentDial sock))"

definition authMethods :: "ssh_host \<Rightarrow> target \<Rightarrow> resolver \<Rightarrow> (target_err + auth_method list) \<times> resolver" where
  "authMethods h t r =
     (case (if t_KeyFile t \<noteq> [] then keySigner h t r else (Inr None, r)) of
        (Inl e, r) \<Rightarrow> (Inl e, r)
      | (Inr signer, r) \<Rightarrow>
          let methods = (case signer of None \<Rightarrow> [] | Some k \<Rightarrow> [PublicKey k])
          in (case agentSocket h t of
                Inl e \<Rightarrow> (Inl e, r)
              | Inr sock \<Rightarrow>
                  if sock = [] then
                    (if methods = [] then (Inl NoAuthMethod, r) else (Inr methods, r))
                  else (case agentSigners h sock of Inl e \<Rightarrow> (Inl e, r) | Inr agent \<Rightarrow> (Inr (methods @ [agent]), r))))"

section \<open>Host keys\<close>

text \<open>A host key callback: whether a presented key, by fingerprint, is accepted for a host name.\<close>

type_synonym host_key_callback = "string \<Rightarrow> string \<Rightarrow> bool"

definition hostKeyCallback :: "ssh_host \<Rightarrow> target \<Rightarrow> target_err + host_key_callback" where
  "hostKeyCallback h t =
     (if t_HostKey t \<noteq> [] then Inr (\<lambda>_ fingerprint. fingerprint = t_HostKey t)
      else rbind (knownHostsPath h) (\<lambda>path.
        wrap_err KnownHostsErr (sh_KnownHosts h path)))"

section \<open>Facts\<close>

lemma target_new_Inr:
  assumes "target_new h u = Inr t"
  shows "t_Host t = u_Host u \<and> t_Port t = (if u_Port u = 0 then defaultPort else u_Port u)
    \<and> t_User t \<in> {u_User u} \<union> (case sh_CurrentUser h of Inl _ \<Rightarrow> {} | Inr n \<Rightarrow> {n})
    \<and> t_HostKey t = u_HostKey u \<and> t_KeyFilePassphrase t = u_KeyFilePassphrase u
    \<and> expandHome (sh_os h) (u_KeyFile u) = Inr (t_KeyFile t)"
  using assms by (auto simp: target_new_def result_simps split: if_splits sum.splits)

lemma target_new_port:
  assumes "valid_ssh u" "target_new h u = Inr t"
  shows "1 \<le> t_Port t \<and> t_Port t \<le> 65535"
  using target_new_Inr [OF assms(2)] assms(1) by (auto simp: valid_ssh_def defaultPort_def)

lemma agentSocket_Nil_iff: "agentSocket h t = Inr [] \<Longrightarrow> t_IdentityAgent t = [] \<or> sh_Stat h []"
  by (auto simp: agentSocket_def stat_agent_def Let_def split: if_splits)

lemma keySigner_None: "keySigner h t r = (Inr None, r') \<Longrightarrow> t_IdentityAgent t \<noteq> []"
  by (auto simp: keySigner_def split: sum.splits prod.splits key_parse.splits if_splits)

text \<open>An attempt that gets its methods has at least one, and the key file comes first.\<close>

lemma authMethods_nonempty: "authMethods h t r = (Inr ms, r') \<Longrightarrow> ms \<noteq> []"
  by (auto simp: authMethods_def agentSigners_def Let_def split: prod.splits sum.splits if_splits)

text \<open>The error "no usable auth method" needs a target with neither a key file nor an agent.\<close>

lemma agentSocket_nonempty:
  "t_IdentityAgent t \<noteq> [] \<Longrightarrow> agentSocket h t = Inr s \<Longrightarrow> s \<noteq> []"
  by (auto simp: agentSocket_def stat_agent_def Let_def split: if_splits)

lemma authMethods_no_method:
  assumes "fst (authMethods h t r) = Inl NoAuthMethod"
  shows "t_KeyFile t = [] \<and> t_IdentityAgent t = []"
proof -
  have ks: "fst (keySigner h t r) \<noteq> Inl NoAuthMethod"
    by (auto simp: keySigner_def split: sum.splits prod.splits key_parse.splits)
  have as: "agentSocket h t \<noteq> Inl NoAuthMethod"
    by (auto simp: agentSocket_def stat_agent_def Let_def)
  show ?thesis
  proof (cases "t_KeyFile t = []")
    case True
    then show ?thesis
      using assms as agentSocket_nonempty [of t h]
      by (auto simp: authMethods_def agentSigners_def split: sum.splits if_splits)
  next
    case False
    obtain res r1 where k: "keySigner h t r = (res, r1)" by force
    then show ?thesis
      using False assms ks as agentSocket_nonempty [of t h] keySigner_None [of h t r]
      by (cases res) (auto simp: authMethods_def agentSigners_def Let_def split: sum.splits if_splits option.splits)
  qed
qed

text \<open>A pinned key is the only key accepted.\<close>

lemma hostKeyCallback_pinned:
  "t_HostKey t \<noteq> [] \<Longrightarrow> \<exists>cb. hostKeyCallback h t = Inr cb \<and> (\<forall>host fp. cb host fp \<longleftrightarrow> fp = t_HostKey t)"
  by (simp add: hostKeyCallback_def)

lemma expandHome_other: "\<not> has_prefix ''~'' p \<Longrightarrow> expandHome env p = Inr p"
  by (simp add: expandHome_def)

lemma expandHome_nonempty:
  assumes "p \<noteq> []" "expandHome env p = Inr q" "env_UserHomeDir env = Inr home" "home \<noteq> []"
  shows "q \<noteq> []"
proof -
  have "path_join [home, x] \<noteq> []" for x
    using assms(4) by (auto simp: path_join_def path_clean_def Let_def)
  then show ?thesis
    using assms by (auto simp: expandHome_def split: if_splits)
qed

section \<open>Properties\<close>

text \<open>A validated ssh upstream becomes a target with the configured host and a port in 1..65535, and
  however its attempts end, none fails for want of an authentication method and none goes ahead
  with an empty list of methods.\<close>

theorem valid_ssh_target:
  assumes "valid_ssh u" "target_new h u = Inr t" "env_UserHomeDir (sh_os h) = Inr home" "home \<noteq> []"
  shows "t_Host t = u_Host u \<and> 1 \<le> t_Port t \<and> t_Port t \<le> 65535
    \<and> fst (authMethods h t r) \<notin> {Inl NoAuthMethod, Inr []}"
proof -
  have k: "expandHome (sh_os h) (u_KeyFile u) = Inr (t_KeyFile t)"
    using target_new_Inr [OF assms(2)] by simp
  have a: "u_IdentityAgent u = IdentityAgentEnv \<and> t_IdentityAgent t = IdentityAgentEnv
      \<or> expandHome (sh_os h) (u_IdentityAgent u) = Inr (t_IdentityAgent t)"
    using assms(2) by (auto simp: target_new_def result_simps split: if_splits)
  have "t_KeyFile t \<noteq> [] \<or> t_IdentityAgent t \<noteq> []"
    using assms(1) expandHome_nonempty [OF _ k assms(3,4)] a
      expandHome_nonempty [where p = "u_IdentityAgent u" and q = "t_IdentityAgent t", OF _ _ assms(3,4)]
    by (auto simp: valid_ssh_def)
  then have "fst (authMethods h t r) \<noteq> Inl NoAuthMethod"
    using authMethods_no_method by blast
  moreover have "fst (authMethods h t r) \<noteq> Inr []"
    using authMethods_nonempty [of h t r] by (cases "authMethods h t r") auto
  ultimately show ?thesis
    using target_new_port [OF assms(1,2)] target_new_Inr [OF assms(2)] by auto
qed

definition sample_host :: ssh_host where
  "sample_host = \<lparr>sh_os = sample_env, sh_secret = sample_os, sh_CurrentUser = Inr ''me'',
     sh_ReadFile = (\<lambda>p. if p = ''/home/me/.ssh/id'' then Inr ''PEM'' else Inl ''no such file''),
     sh_Stat = (\<lambda>_. True), sh_ParsePrivateKey = (\<lambda>_. PassphraseMissing),
     sh_ParseWithPassphrase = (\<lambda>_ pass. if pass = ''hunter2'' then Inr ''SHA256:key'' else Inl ''bad''),
     sh_KnownHosts = (\<lambda>_. Inr (\<lambda>_ _. False)), sh_DialAgent = (\<lambda>_. False)\<rparr>"

definition sample_ssh :: upstream where
  "sample_ssh = zero_upstream\<lparr>u_Type := UpstreamSSH, u_Host := ''bastion.example'',
     u_KeyFile := ''~/.ssh/id'', u_KeyFilePassphrase := ''op://vault/key''\<rparr>"

definition sample_target :: target where
  "sample_target = \<lparr>t_Host = ''bastion.example'', t_Port = 22, t_User = ''me'', t_KeyFile = ''/home/me/.ssh/id'',
     t_KeyFilePassphrase = ''op://vault/key'', t_IdentityAgent = [], t_HostKey = []\<rparr>"

lemma sample_target_new: "target_new sample_host sample_ssh = Inr sample_target"
  by code_simp

lemma valid_ssh_target_witness:
  "t_Host sample_target = ''bastion.example''
    \<and> fst (authMethods sample_host sample_target (secret_new [])) \<notin> {Inl NoAuthMethod, Inr []}"
proof -
  have "valid_ssh sample_ssh" by (simp add: valid_ssh_def sample_ssh_def zero_upstream_def)
  moreover have "env_UserHomeDir (sh_os sample_host) = Inr ''/home/me''"
    by (simp add: sample_host_def sample_env_def)
  ultimately show ?thesis
    using valid_ssh_target [of sample_ssh sample_host sample_target "''/home/me''" "secret_new []"]
    by (simp add: sample_target_new) (simp add: sample_ssh_def)
qed

text \<open>What the startup check resolved is what every attempt uses.\<close>

lemma keySigner_again:
  assumes "keySigner h t r = (Inr s, r')"
  shows "keySigner h t r' = (Inr s, r')"
proof (cases "t_KeyFilePassphrase t = []")
  case True
  moreover from this assms have "r' = r"
    by (auto simp: keySigner_def split: sum.splits key_parse.splits if_splits)
  ultimately show ?thesis using assms by simp
next
  case False
  from assms obtain pem where p: "sh_ReadFile h (t_KeyFile t) = Inr pem"
    by (auto simp: keySigner_def split: sum.splits)
  with assms False obtain pass where
    pass: "Resolve (sh_secret h) r (t_KeyFilePassphrase t) = (Inr pass, r')"
    by (auto simp: keySigner_def split: sum.splits prod.splits)
  from Resolve_cached [OF pass] assms False p pass show ?thesis
    by (auto simp: keySigner_def split: sum.splits)
qed

text \<open>The key part of the startup check and of an attempt.\<close>

definition key_part :: "ssh_host \<Rightarrow> target \<Rightarrow> resolver \<Rightarrow> (target_err + string option) \<times> resolver" where
  "key_part h t r = (if t_KeyFile t \<noteq> [] then keySigner h t r else (Inr None, r))"

lemma target_validate_key:
  assumes "target_validate h t r = (Inr (), r')"
  shows "(\<exists>s. key_part h t r' = (Inr s, r')) \<and> ok (agentSocket h t)"
proof -
  obtain s where k: "key_part h t r = (Inr s, r')"
    using assms by (auto simp: target_validate_def key_part_def [symmetric] split: prod.splits sum.splits)
  then have "key_part h t r' = (Inr s, r')"
    using keySigner_again by (auto simp: key_part_def split: if_splits)
  moreover have "ok (agentSocket h t)"
    using assms k by (auto simp: target_validate_def key_part_def [symmetric] rbind_Inr_iff ok_iff)
  ultimately show ?thesis by blast
qed

lemma authMethods_key:
  assumes "key_part h t r = (Inr s, r)" "agentSocket h t = Inr sock"
  shows "authMethods h t r = (Inl NoAuthMethod, r) \<or> (\<exists>ms. authMethods h t r = (Inr ms, r))
    \<or> authMethods h t r = (Inl (AgentDial sock), r) \<and> \<not> sh_DialAgent h sock"
  using assms by (simp add: authMethods_def agentSigners_def key_part_def [symmetric] Let_def)

text \<open>After a startup check that succeeded, an attempt on the same machine gets its authentication
  methods unless the agent does not answer; the passphrase is not resolved a second time.\<close>

theorem target_validate_settles:
  assumes "target_validate h t r = (Inr (), r')" "t_KeyFile t \<noteq> [] \<or> t_IdentityAgent t \<noteq> []"
  shows "(\<exists>ms. ms \<noteq> [] \<and> authMethods h t r' = (Inr ms, r'))
    \<or> (\<exists>sock. authMethods h t r' = (Inl (AgentDial sock), r') \<and> \<not> sh_DialAgent h sock)"
proof -
  obtain s sock where s: "key_part h t r' = (Inr s, r')" and sock: "agentSocket h t = Inr sock"
    using target_validate_key [OF assms(1)] by (auto simp: ok_iff)
  have "authMethods h t r' \<noteq> (Inl NoAuthMethod, r')"
    using authMethods_no_method [of h t r'] assms(2) by auto
  then show ?thesis
    using authMethods_key [OF s sock] authMethods_nonempty by blast
qed

lemma target_validate_settles_witness:
  "\<exists>ms. ms \<noteq> [] \<and> fst (authMethods sample_host sample_target
     (secret_new []\<lparr>cache := [(''op://vault/key'', ''hunter2'')]\<rparr>)) = Inr ms"
proof -
  have v: "target_validate sample_host sample_target (secret_new []) =
      (Inr (), secret_new []\<lparr>cache := [(''op://vault/key'', ''hunter2'')]\<rparr>)"
    by code_simp
  have "fst (authMethods sample_host sample_target
      (secret_new []\<lparr>cache := [(''op://vault/key'', ''hunter2'')]\<rparr>)) = Inr [PublicKey ''SHA256:key'']"
    by code_simp
  moreover have "t_KeyFile sample_target \<noteq> []" by (simp add: sample_target_def)
  ultimately show ?thesis using target_validate_settles [OF v] by fastforce
qed

end
