(* ===== verification/Conn.thy ===== *)
theory Conn
  imports GoLib
begin

text \<open>
  A connection as one side sees it: the bytes the peer sends before it closes its direction,
  the bytes written so far, and how many more bytes the peer accepts (a write beyond that
  fails after a partial write, as a Go \<open>Write\<close> reports). Reads and writes are functions from
  the connection to a result and the new connection; \<open>io_bind\<close> sequences them and stops at the
  first error. Because \<open>io.ReadFull\<close> and \<open>io.Copy\<close> read until satisfied, only the total byte
  stream matters, not how it arrives in segments. Also here: \<open>net.IP.String\<close>.
\<close>

section \<open>Connections\<close>

record conn =
  c_in :: "byte list"
  c_out :: "byte list"
  c_room :: "nat option"
  c_closed :: bool

datatype io_err = EOF | UnexpectedEOF | WriteFailed

type_synonym ('e, 'a) io = "conn \<Rightarrow> ('e + 'a) \<times> conn"

definition io_return :: "'a \<Rightarrow> ('e, 'a) io" where
  "io_return x = (\<lambda>c. (Inr x, c))"

definition io_fail :: "'e \<Rightarrow> ('e, 'a) io" where
  "io_fail e = (\<lambda>c. (Inl e, c))"

definition io_bind :: "('e, 'a) io \<Rightarrow> ('a \<Rightarrow> ('e, 'b) io) \<Rightarrow> ('e, 'b) io" where
  "io_bind m f = (\<lambda>c. case m c of (Inl e, c') \<Rightarrow> (Inl e, c') | (Inr x, c') \<Rightarrow> f x c')"

definition io_check :: "bool \<Rightarrow> 'e \<Rightarrow> ('e, unit) io" where
  "io_check bad e = (if bad then io_fail e else io_return ())"

text \<open>\<open>io.ReadFull\<close> into a buffer of length \<open>n\<close>, its error mapped by the caller.\<close>

definition read_full :: "(io_err \<Rightarrow> 'e) \<Rightarrow> nat \<Rightarrow> ('e, byte list) io" where
  "read_full err n = (\<lambda>c.
     if n \<le> length (c_in c) then (Inr (take n (c_in c)), c\<lparr>c_in := drop n (c_in c)\<rparr>)
     else (Inl (err (if c_in c = [] then EOF else UnexpectedEOF)), c\<lparr>c_in := []\<rparr>))"

text \<open>\<open>Write\<close>, its error mapped by the caller.\<close>

definition write_all :: "(io_err \<Rightarrow> 'e) \<Rightarrow> byte list \<Rightarrow> ('e, unit) io" where
  "write_all err bs = (\<lambda>c.
     case c_room c of
       None \<Rightarrow> (Inr (), c\<lparr>c_out := c_out c @ bs\<rparr>)
     | Some k \<Rightarrow>
         if length bs \<le> k then (Inr (), c\<lparr>c_out := c_out c @ bs, c_room := Some (k - length bs)\<rparr>)
         else (Inl (err WriteFailed), c\<lparr>c_out := c_out c @ take k bs, c_room := Some 0\<rparr>))"

text \<open>A write whose error the code ignores.\<close>

definition write_ignore :: "byte list \<Rightarrow> conn \<Rightarrow> conn" where
  "write_ignore bs c = snd (write_all (\<lambda>e. e) bs c)"

definition close_conn :: "conn \<Rightarrow> conn" where
  "close_conn c = c\<lparr>c_closed := True\<rparr>"

text \<open>\<open>io.Copy(dst, src)\<close>: everything \<open>src\<close> sends, up to what \<open>dst\<close> accepts; the byte count.\<close>

definition io_copy :: "conn \<Rightarrow> conn \<Rightarrow> nat \<times> conn \<times> conn" where
  "io_copy dst src =
     (let bs = c_in src;
          n = (case c_room dst of None \<Rightarrow> length bs | Some k \<Rightarrow> min k (length bs))
      in (n, write_ignore bs dst, src\<lparr>c_in := []\<rparr>))"

lemma io_simps [simp]:
  "io_return x c = (Inr x, c)"
  "io_fail e c = (Inl e, c)"
  by (simp_all add: io_return_def io_fail_def)

lemma io_check_simps [simp]:
  "io_check True e c = (Inl e, c)"
  "io_check False e c = (Inr (), c)"
  by (simp_all add: io_check_def)

lemma io_bind_Inr: "m c = (Inr x, c') \<Longrightarrow> io_bind m f c = f x c'"
  by (simp add: io_bind_def)

lemma io_bind_Inl: "m c = (Inl e, c') \<Longrightarrow> io_bind m f c = (Inl e, c')"
  by (simp add: io_bind_def)

lemma io_bind_Inr_iff:
  "io_bind m f c = (Inr y, c'') \<longleftrightarrow> (\<exists>x c'. m c = (Inr x, c') \<and> f x c' = (Inr y, c''))"
  by (auto simp: io_bind_def split: prod.splits sum.splits)

lemma io_bind_Inl_iff:
  "io_bind m f c = (Inl e, c'') \<longleftrightarrow>
     m c = (Inl e, c'') \<or> (\<exists>x c'. m c = (Inr x, c') \<and> f x c' = (Inl e, c''))"
  by (auto simp: io_bind_def split: prod.splits sum.splits)

lemma io_check_Inr_iff [simp]: "io_check b e c = (Inr u, c') \<longleftrightarrow> \<not> b \<and> c' = c"
  by (cases b) auto

lemma read_full_append:
  "c_in c = bs @ rest \<Longrightarrow> length bs = n \<Longrightarrow> read_full err n c = (Inr bs, c\<lparr>c_in := rest\<rparr>)"
  by (simp add: read_full_def)

lemma read_full_Inr_iff:
  "read_full err n c = (Inr bs, c') \<longleftrightarrow>
     length bs = n \<and> (\<exists>rest. c_in c = bs @ rest \<and> c' = c\<lparr>c_in := rest\<rparr>)"
proof
  assume "read_full err n c = (Inr bs, c')"
  then have "n \<le> length (c_in c)" "bs = take n (c_in c)" "c' = c\<lparr>c_in := drop n (c_in c)\<rparr>"
    by (auto simp: read_full_def split: if_splits)
  then show "length bs = n \<and> (\<exists>rest. c_in c = bs @ rest \<and> c' = c\<lparr>c_in := rest\<rparr>)"
    by (metis append_take_drop_id length_take min.absorb2)
qed (auto simp: read_full_def)

lemma read_full_out: "read_full err n c = (r, c') \<Longrightarrow> c_out c' = c_out c \<and> c_room c' = c_room c \<and> c_closed c' = c_closed c"
  by (auto simp: read_full_def split: if_splits)

lemma write_all_unlimited:
  "c_room c = None \<Longrightarrow> write_all err bs c = (Inr (), c\<lparr>c_out := c_out c @ bs\<rparr>)"
  by (simp add: write_all_def)

lemma write_all_Inr_iff:
  "write_all err bs c = (Inr u, c') \<longleftrightarrow>
     (case c_room c of None \<Rightarrow> c' = c\<lparr>c_out := c_out c @ bs\<rparr>
      | Some k \<Rightarrow> length bs \<le> k \<and> c' = c\<lparr>c_out := c_out c @ bs, c_room := Some (k - length bs)\<rparr>)"
  by (cases "c_room c") (auto simp: write_all_def split: if_splits)

lemma write_all_in: "write_all err bs c = (r, c') \<Longrightarrow> c_in c' = c_in c \<and> c_closed c' = c_closed c"
  by (auto simp: write_all_def split: option.splits if_splits)

lemma write_ignore_unlimited [simp]:
  "c_room c = None \<Longrightarrow> write_ignore bs c = c\<lparr>c_out := c_out c @ bs\<rparr>"
  by (simp add: write_ignore_def write_all_def)

lemma write_ignore_in [simp]: "c_in (write_ignore bs c) = c_in c" "c_closed (write_ignore bs c) = c_closed c"
  by (auto simp: write_ignore_def write_all_def split: option.splits)

text \<open>What is written is only ever appended, and is a prefix of what was asked for.\<close>

lemma write_ignore_out: "\<exists>k. c_out (write_ignore bs c) = c_out c @ take k bs"
proof (cases "c_room c")
  case None
  then show ?thesis by (intro exI [of _ "length bs"]) simp
next
  case (Some k)
  then show ?thesis by (intro exI [of _ k]) (simp add: write_ignore_def write_all_def)
qed

section \<open>net.IP.String\<close>

definition ipv4_string :: "byte list \<Rightarrow> string" where
  "ipv4_string bs = join_with ''.'' (map (\<lambda>b. nat_str (unat b)) bs)"

definition hex_digit :: "nat \<Rightarrow> char" where
  "hex_digit d = ''0123456789abcdef'' ! d"

text \<open>A 16-bit group in lower case hexadecimal without leading zeros.\<close>

fun hex_str :: "nat \<Rightarrow> string" where
  "hex_str n = (if n < 16 then [hex_digit n] else hex_str (n div 16) @ [hex_digit (n mod 16)])"

declare hex_str.simps [simp del]

fun groups_of :: "byte list \<Rightarrow> nat list" where
  "groups_of (hi # lo # r) = get_uint16 hi lo # groups_of r"
| "groups_of _ = []"

text \<open>The longest run of at least two zero groups, the leftmost of that length.\<close>

definition zero_run :: "nat list \<Rightarrow> nat \<Rightarrow> nat" where
  "zero_run gs i = length (takeWhile (\<lambda>g. g = 0) (drop i gs))"

definition longest_zero_run :: "nat list \<Rightarrow> nat \<times> nat" where
  "longest_zero_run gs =
     foldl (\<lambda>(s, l) i. let r = zero_run gs i in if r \<ge> 2 \<and> r > l then (i, r) else (s, l))
       (length gs, 0) [0..<length gs]"

definition ipv6_string :: "byte list \<Rightarrow> string" where
  "ipv6_string bs =
     (let gs = groups_of bs; (s, l) = longest_zero_run gs
      in if l = 0 then join_with '':'' (map hex_str gs)
         else join_with '':'' (map hex_str (take s gs)) @ ''::''
              @ join_with '':'' (map hex_str (drop (s + l) gs)))"

definition is_v4_mapped :: "byte list \<Rightarrow> bool" where
  "is_v4_mapped bs \<longleftrightarrow> length bs = 16 \<and> take 12 bs = replicate 10 0 @ [0xFF, 0xFF]"

text \<open>\<open>To4\<close>, and \<open>String\<close> for addresses of 4 or 16 bytes.\<close>

definition to4 :: "byte list \<Rightarrow> byte list option" where
  "to4 bs = (if length bs = 4 then Some bs else if is_v4_mapped bs then Some (drop 12 bs) else None)"

definition ip_string :: "byte list \<Rightarrow> string" where
  "ip_string bs = (case to4 bs of Some v4 \<Rightarrow> ipv4_string v4 | None \<Rightarrow> ipv6_string bs)"

lemma ip_string_localhost: "ip_string [127, 0, 0, 1] = ''127.0.0.1''"
  by (simp add: ip_string_def to4_def ipv4_string_def nat_str.simps digit_def)

lemma join_colons:
  "length ws \<ge> 2 \<Longrightarrow> CHR '':'' \<in> set (join_with '':'' ws)"
  by (cases ws; cases "tl ws") auto

lemma length_groups_of: "length bs = 2 * n \<Longrightarrow> length (groups_of bs) = n"
proof (induction n arbitrary: bs)
  case (Suc n)
  then obtain a b r where "bs = a # b # r" "length r = 2 * n"
    by (cases bs; cases "tl bs") auto
  with Suc.IH show ?case by simp
qed simp

text \<open>Every genuine IPv6 address is written with at least one colon.\<close>

lemma ipv6_string_colon:
  assumes "length bs = 16"
  shows "CHR '':'' \<in> set (ipv6_string bs)"
proof -
  have "length (groups_of bs) = 8" using assms by (intro length_groups_of) simp
  then have "CHR '':'' \<in> set (join_with '':'' (map hex_str (groups_of bs)))"
    by (intro join_colons) simp
  then show ?thesis
    by (cases "longest_zero_run (groups_of bs)") (auto simp: ipv6_string_def Let_def)
qed

text \<open>A colon also follows the first character.\<close>

lemma ipv6_string_tl_colon:
  assumes "length bs = 16"
  shows "CHR '':'' \<in> set (tl (ipv6_string bs))"
proof -
  have len: "length (groups_of bs) = 8" using assms by (intro length_groups_of) simp
  have hx: "hex_str n \<noteq> []" for n by (subst hex_str.simps) simp
  obtain s l where sl: "longest_zero_run (groups_of bs) = (s, l)" by force
  show ?thesis
  proof (cases "l = 0")
    case True
    obtain g h gs where "groups_of bs = g # h # gs"
      using len by (cases "groups_of bs"; cases "tl (groups_of bs)") auto
    with True sl hx [of g] show ?thesis
      by (cases "hex_str g") (auto simp: ipv6_string_def)
  next
    case False
    have t: "CHR '':'' \<in> set (tl (a @ ''::'' @ b))" for a b by (cases a) auto
    show ?thesis
      using False sl t by (simp add: ipv6_string_def Let_def del: append_Cons)
  qed
qed

text \<open>An IPv6 address starts with a hexadecimal digit or a colon.\<close>

lemma hex_digit_plain: "d < 16 \<Longrightarrow> hex_digit d \<in> set ''0123456789abcdef''"
  unfolding hex_digit_def by (rule nth_mem) simp

lemma hex_str_nonempty [simp]: "hex_str n \<noteq> []"
  by (subst hex_str.simps) simp

lemma hd_hex_str: "hd (hex_str n) \<in> set ''0123456789abcdef''"
proof (induction n rule: hex_str.induct)
  case (1 n)
  show ?case
  proof (cases "n < 16")
    case True
    then show ?thesis using hex_digit_plain [of n] by (simp add: hex_str.simps [of n])
  next
    case False
    then show ?thesis using 1 by (simp add: hex_str.simps [of n])
  qed
qed

lemma hd_join_hex: "gs \<noteq> [] \<Longrightarrow> hd (join_with '':'' (map hex_str gs)) \<in> set ''0123456789abcdef''"
proof (cases gs)
  case (Cons g gs')
  then show ?thesis using hd_hex_str [of g] by (cases gs') auto
qed simp

lemma ipv6_string_hd:
  assumes "length bs = 16"
  shows "hd (ipv6_string bs) \<noteq> CHR ''[''" "hd (ipv6_string bs) \<noteq> CHR ''*''"
proof -
  have "length (groups_of bs) = 8" using assms by (intro length_groups_of) simp
  then have g: "groups_of bs \<noteq> []" by auto
  obtain s l where sl: "longest_zero_run (groups_of bs) = (s, l)" by force
  have ne: "gs \<noteq> [] \<Longrightarrow> join_with '':'' (map hex_str gs) \<noteq> []" for gs
    by (cases gs; cases "tl gs") auto
  define H where "H = set ''0123456789abcdef''"
  have hd_H: "gs \<noteq> [] \<Longrightarrow> hd (join_with '':'' (map hex_str gs)) \<in> H" for gs
    unfolding H_def by (rule hd_join_hex)
  have "hd (ipv6_string bs) \<in> H \<union> {CHR '':''}"
  proof (cases "l = 0")
    case True
    with sl hd_H [OF g] show ?thesis by (simp add: ipv6_string_def)
  next
    case False
    let ?w = "join_with '':'' (map hex_str (take s (groups_of bs)))"
    have s6: "ipv6_string bs = ?w @ ''::'' @ join_with '':'' (map hex_str (drop (s + l) (groups_of bs)))"
      using sl False by (simp add: ipv6_string_def Let_def)
    show ?thesis
    proof (cases "take s (groups_of bs) = []")
      case True
      show ?thesis unfolding s6 True by simp
    next
      case False
      then show ?thesis unfolding s6 using hd_H [OF False] ne [OF False] by simp
    qed
  qed
  then show "hd (ipv6_string bs) \<noteq> CHR ''[''" "hd (ipv6_string bs) \<noteq> CHR ''*''" by (auto simp: H_def)
qed

end
