(* ===== verification/Socks5Server.thy ===== *)
theory Socks5Server
  imports Conn
begin

text \<open>
  \<open>pkg/socks5server/handler.go\<close>: the inbound SOCKS5 server's side of RFC 1928, from the method
  greeting to the relayed connection, and the interface \<open>wire_codec\<close> of a message format whose
  encodings can be read back from the front of any stream. Choosing and dialling an upstream
  are arguments (\<open>pick\<close> and \<open>dial\<close>); the theories Upstream and Route supply them.
\<close>

section \<open>Message formats\<close>

locale wire_codec =
  fixes enc :: "'a \<Rightarrow> byte list"
    and dec :: "byte list \<Rightarrow> ('b \<times> byte list) option"
    and view :: "'a \<Rightarrow> 'b"
    and valid :: "'a \<Rightarrow> bool"
  assumes dec_enc: "valid x \<Longrightarrow> dec (enc x @ rest) = Some (view x, rest)"
begin

lemma prefix_free:
  assumes "valid x" "valid y" "enc x @ r = enc y @ s"
  shows "view x = view y \<and> r = s"
  using dec_enc [OF assms(1), of r] dec_enc [OF assms(2), of s] assms(3) by simp

lemma enc_determines_view: "valid x \<Longrightarrow> valid y \<Longrightarrow> enc x = enc y \<Longrightarrow> view x = view y"
  using prefix_free [of x y "[]" "[]"] by simp

end

section \<open>Constants and errors\<close>

abbreviation socks5Version :: byte where "socks5Version \<equiv> 0x05"
abbreviation methodNoAuth :: byte where "methodNoAuth \<equiv> 0x00"
abbreviation methodNoAcceptable :: byte where "methodNoAcceptable \<equiv> 0xFF"
abbreviation cmdConnect :: byte where "cmdConnect \<equiv> 0x01"
abbreviation atypIPv4 :: byte where "atypIPv4 \<equiv> 0x01"
abbreviation atypDomain :: byte where "atypDomain \<equiv> 0x03"
abbreviation atypIPv6 :: byte where "atypIPv6 \<equiv> 0x04"
abbreviation replySucceeded :: byte where "replySucceeded \<equiv> 0x00"
abbreviation replyHostUnreachable :: byte where "replyHostUnreachable \<equiv> 0x04"
abbreviation replyConnRefused :: byte where "replyConnRefused \<equiv> 0x05"
abbreviation replyCommandNotSupported :: byte where "replyCommandNotSupported \<equiv> 0x07"

datatype socks_err =
    ReadGreeting io_err
  | ReadMethods io_err
  | NoAcceptableMethod
  | ReadRequestHeader io_err
  | UnsupportedVersion byte
  | ReadIPv4 io_err
  | ReadDomainLength io_err
  | ReadDomain io_err
  | ReadIPv6 io_err
  | UnknownAtyp byte
  | ReadPort io_err
  | SocksWrite io_err

section \<open>Handshake\<close>

definition negotiateMethod :: "(socks_err, unit) io" where
  "negotiateMethod =
     io_bind (read_full ReadGreeting 2) (\<lambda>hdr.
     io_bind (io_check (hdr ! 0 \<noteq> socks5Version) (UnsupportedVersion (hdr ! 0))) (\<lambda>_.
     io_bind (read_full ReadMethods (unat (hdr ! 1))) (\<lambda>methods.
       if methodNoAuth \<in> set methods
       then write_all SocksWrite [socks5Version, methodNoAuth]
       else (\<lambda>c. (Inl NoAcceptableMethod, write_ignore [socks5Version, methodNoAcceptable] c)))))"

definition read_host :: "byte \<Rightarrow> (socks_err, string) io" where
  "read_host atyp =
     (if atyp = atypIPv4 then io_bind (read_full ReadIPv4 4) (\<lambda>ip. io_return (ip_string ip))
      else if atyp = atypDomain then
        io_bind (read_full ReadDomainLength 1) (\<lambda>l.
        io_bind (read_full ReadDomain (unat (l ! 0))) (\<lambda>name. io_return (string_of name)))
      else if atyp = atypIPv6 then io_bind (read_full ReadIPv6 16) (\<lambda>ip. io_return (ip_string ip))
      else io_fail (UnknownAtyp atyp))"

definition readRequest :: "(socks_err, byte \<times> string \<times> nat) io" where
  "readRequest =
     io_bind (read_full ReadRequestHeader 4) (\<lambda>hdr.
     io_bind (io_check (hdr ! 0 \<noteq> socks5Version) (UnsupportedVersion (hdr ! 0))) (\<lambda>_.
     io_bind (read_host (hdr ! 3)) (\<lambda>host.
     io_bind (read_full ReadPort 2) (\<lambda>pb.
       io_return (hdr ! 1, host, get_uint16 (pb ! 0) (pb ! 1))))))"

definition reply_bytes :: "byte \<Rightarrow> byte list" where
  "reply_bytes code = [socks5Version, code, 0x00, atypIPv4, 0, 0, 0, 0, 0, 0]"

definition writeReply :: "byte \<Rightarrow> (socks_err, unit) io" where
  "writeReply code = write_all SocksWrite (reply_bytes code)"

text \<open>The error of a failed dial: a net error with its timeout flag, or any other error.\<close>

datatype dial_err = NetErr bool | OtherErr string

definition replyCodeFor :: "dial_err \<Rightarrow> byte" where
  "replyCodeFor err = (case err of NetErr True \<Rightarrow> replyHostUnreachable | _ \<Rightarrow> replyConnRefused)"

definition spliceClientUpstream :: "conn \<Rightarrow> conn \<Rightarrow> nat \<times> nat \<times> conn \<times> conn" where
  "spliceClientUpstream client up =
     (let (sent, up, client) = io_copy up client;
          (recv, client, up) = io_copy client up
      in (sent, recv, client, up))"

section \<open>The handler\<close>

datatype 'd outcome =
    HandshakeFailed socks_err
  | RequestFailed socks_err
  | UnsupportedCommand byte
  | DialFailed 'd string dial_err
  | ReplyFailed 'd string
  | Relayed 'd string nat nat

text \<open>The result: how the connection ended, the client's connection and the upstream's, if any.\<close>

definition handle ::
  "(string \<Rightarrow> 'd) \<Rightarrow> ('d \<Rightarrow> string \<Rightarrow> dial_err + conn) \<Rightarrow> conn \<Rightarrow> 'd outcome \<times> conn \<times> conn option"
where
  "handle pick dial client =
     (case negotiateMethod client of
        (Inl e, c) \<Rightarrow> (HandshakeFailed e, close_conn c, None)
      | (Inr _, c) \<Rightarrow>
     (case readRequest c of
        (Inl e, c) \<Rightarrow> (RequestFailed e, close_conn c, None)
      | (Inr (cmd, host, port), c) \<Rightarrow>
          if cmd \<noteq> cmdConnect then
            (UnsupportedCommand cmd, close_conn (write_ignore (reply_bytes replyCommandNotSupported) c), None)
          else
            let target = join_host_port host (itoa (int port));
                dialer = pick host
            in (case dial dialer target of
                  Inl err \<Rightarrow>
                    (DialFailed dialer target err,
                     close_conn (write_ignore (reply_bytes (replyCodeFor err)) c), None)
                | Inr up \<Rightarrow>
                    (case writeReply replySucceeded c of
                       (Inl _, c) \<Rightarrow> (ReplyFailed dialer target, close_conn c, Some (close_conn up))
                     | (Inr _, c) \<Rightarrow>
                         let (sent, recv, c, up) = spliceClientUpstream c up
                         in (Relayed dialer target sent recv, close_conn c, Some (close_conn up))))))"

section \<open>Requests as a message format\<close>

datatype socks_addr = IPv4 "byte list" | Domain string | IPv6 "byte list"

definition addr_bytes :: "socks_addr \<Rightarrow> byte list" where
  "addr_bytes a = (case a of
     IPv4 bs \<Rightarrow> atypIPv4 # bs
   | Domain s \<Rightarrow> atypDomain # byte_of_nat (length s) # bytes_of s
   | IPv6 bs \<Rightarrow> atypIPv6 # bs)"

definition addr_host :: "socks_addr \<Rightarrow> string" where
  "addr_host a = (case a of IPv4 bs \<Rightarrow> ip_string bs | Domain s \<Rightarrow> s | IPv6 bs \<Rightarrow> ip_string bs)"

definition addr_valid :: "socks_addr \<Rightarrow> bool" where
  "addr_valid a = (case a of IPv4 bs \<Rightarrow> length bs = 4 | Domain s \<Rightarrow> length s \<le> 255 | IPv6 bs \<Rightarrow> length bs = 16)"

record request =
  q_cmd :: byte
  q_addr :: socks_addr
  q_port :: "16 word"

definition request_bytes :: "request \<Rightarrow> byte list" where
  "request_bytes q = [socks5Version, q_cmd q, 0x00] @ addr_bytes (q_addr q) @ put_uint16 (q_port q)"

definition request_view :: "request \<Rightarrow> byte \<times> string \<times> nat" where
  "request_view q = (q_cmd q, addr_host (q_addr q), unat (q_port q))"

definition request_valid :: "request \<Rightarrow> bool" where
  "request_valid q = addr_valid (q_addr q)"

definition stream_conn :: "byte list \<Rightarrow> conn" where
  "stream_conn bs = \<lparr>c_in = bs, c_out = [], c_room = None, c_closed = False\<rparr>"

text \<open>Running a reader on a byte stream alone.\<close>

definition run_reader :: "('e, 'a) io \<Rightarrow> byte list \<Rightarrow> ('a \<times> byte list) option" where
  "run_reader m bs = (case m (stream_conn bs) of (Inl _, _) \<Rightarrow> None | (Inr x, c) \<Rightarrow> Some (x, c_in c))"

lemma read_host_addr:
  assumes "addr_valid a" "c_in c = tl (addr_bytes a) @ rest"
  shows "read_host (hd (addr_bytes a)) c = (Inr (addr_host a), c\<lparr>c_in := rest\<rparr>)"
proof (cases a)
  case (Domain s)
  have "read_full ReadDomainLength 1 c = (Inr [byte_of_nat (length s)], c\<lparr>c_in := bytes_of s @ rest\<rparr>)"
    by (rule read_full_append) (use assms Domain in \<open>simp_all add: addr_bytes_def\<close>)
  moreover have "unat (byte_of_nat (length s)) = length s"
    using assms(1) Domain by (simp add: addr_valid_def)
  ultimately show ?thesis
    using Domain
    by (simp add: read_host_def addr_bytes_def addr_host_def io_bind_Inr read_full_append [where bs = "bytes_of s"])
next
  case (IPv4 bs)
  then show ?thesis
    using assms by (simp add: read_host_def addr_bytes_def addr_host_def addr_valid_def io_bind_Inr
        read_full_append [where bs = bs and rest = rest])
next
  case (IPv6 bs)
  then show ?thesis
    using assms by (simp add: read_host_def addr_bytes_def addr_host_def addr_valid_def io_bind_Inr
        read_full_append [where bs = bs and rest = rest])
qed

lemma addr_bytes_Cons: "addr_bytes a = hd (addr_bytes a) # tl (addr_bytes a)"
  by (cases a) (simp_all add: addr_bytes_def)

lemma readRequest_bytes:
  assumes "request_valid q" "c_in c = request_bytes q @ rest"
  shows "readRequest c = (Inr (request_view q), c\<lparr>c_in := rest\<rparr>)"
proof -
  let ?a = "addr_bytes (q_addr q)"
  have "c_in c = [socks5Version, q_cmd q, 0x00, hd ?a] @ tl ?a @ put_uint16 (q_port q) @ rest"
    using assms(2) addr_bytes_Cons [of "q_addr q"] by (simp add: request_bytes_def)
  then have h: "read_full ReadRequestHeader 4 c =
      (Inr [socks5Version, q_cmd q, 0x00, hd ?a], c\<lparr>c_in := tl ?a @ put_uint16 (q_port q) @ rest\<rparr>)"
    by (intro read_full_append) simp_all
  have a: "read_host (hd ?a) (c\<lparr>c_in := tl ?a @ put_uint16 (q_port q) @ rest\<rparr>) =
      (Inr (addr_host (q_addr q)), c\<lparr>c_in := put_uint16 (q_port q) @ rest\<rparr>)"
    using assms(1) by (subst read_host_addr) (auto simp: request_valid_def)
  obtain hi lo where p: "put_uint16 (q_port q) = [hi, lo]" by (simp add: put_uint16_def)
  have b: "read_full ReadPort 2 (c\<lparr>c_in := put_uint16 (q_port q) @ rest\<rparr>) = (Inr [hi, lo], c\<lparr>c_in := rest\<rparr>)"
    by (subst read_full_append [where bs = "[hi, lo]" and rest = rest]) (simp_all add: p)
  show ?thesis
    by (simp add: readRequest_def io_bind_Inr h a b request_view_def get_put_uint16 [OF p])
qed

interpretation socks_request: wire_codec request_bytes "run_reader readRequest" request_view request_valid
  by unfold_locales (simp add: run_reader_def stream_conn_def readRequest_bytes)

section \<open>The greeting\<close>

definition greeting_bytes :: "byte list \<Rightarrow> byte list" where
  "greeting_bytes methods = [socks5Version, byte_of_nat (length methods)] @ methods"

definition greeting_valid :: "byte list \<Rightarrow> bool" where
  "greeting_valid methods \<longleftrightarrow> length methods \<le> 255 \<and> methodNoAuth \<in> set methods"

lemma negotiateMethod_greeting:
  assumes "length methods \<le> 255" "c_in c = greeting_bytes methods @ rest"
  shows "negotiateMethod c =
    (if methodNoAuth \<in> set methods
     then write_all SocksWrite [socks5Version, methodNoAuth] (c\<lparr>c_in := rest\<rparr>)
     else (Inl NoAcceptableMethod, write_ignore [socks5Version, methodNoAcceptable] (c\<lparr>c_in := rest\<rparr>)))"
proof -
  have h: "read_full ReadGreeting 2 c =
      (Inr [socks5Version, byte_of_nat (length methods)], c\<lparr>c_in := methods @ rest\<rparr>)"
    by (rule read_full_append) (use assms(2) in \<open>simp_all add: greeting_bytes_def\<close>)
  have m: "read_full ReadMethods (length methods) (c\<lparr>c_in := methods @ rest\<rparr>) = (Inr methods, c\<lparr>c_in := rest\<rparr>)"
    by (subst read_full_append [where bs = methods and rest = rest]) simp_all
  show ?thesis
    using assms(1) by (simp add: negotiateMethod_def io_bind_Inr h m)
qed

interpretation socks_greeting: wire_codec greeting_bytes "run_reader negotiateMethod" "\<lambda>_. ()" greeting_valid
proof unfold_locales
  fix methods rest
  assume "greeting_valid methods"
  then show "run_reader negotiateMethod (greeting_bytes methods @ rest) = Some ((), rest)"
    using negotiateMethod_greeting [of methods "stream_conn (greeting_bytes methods @ rest)" rest]
    by (simp add: run_reader_def stream_conn_def greeting_valid_def write_all_def)
qed

section \<open>What the reader accepts\<close>

lemma read_host_Inr:
  assumes "read_host atyp c = (Inr host, c')"
  obtains a where "addr_valid a" "atyp = hd (addr_bytes a)" "host = addr_host a"
    "c_in c = tl (addr_bytes a) @ c_in c'" "c' = c\<lparr>c_in := c_in c'\<rparr>"
proof -
  consider (v4) "atyp = atypIPv4" | (dom) "atyp = atypDomain" | (v6) "atyp = atypIPv6"
    using assms by (auto simp: read_host_def split: if_splits)
  then show thesis
  proof cases
    case v4
    then obtain bs rest where "length bs = 4" "c_in c = bs @ rest" "c' = c\<lparr>c_in := rest\<rparr>" "host = ip_string bs"
      using assms by (auto simp: read_host_def io_bind_Inr_iff read_full_Inr_iff)
    with v4 show thesis by (intro that [of "IPv4 bs"]) (simp_all add: addr_valid_def addr_bytes_def addr_host_def)
  next
    case v6
    then obtain bs rest where "length bs = 16" "c_in c = bs @ rest" "c' = c\<lparr>c_in := rest\<rparr>" "host = ip_string bs"
      using assms by (auto simp: read_host_def io_bind_Inr_iff read_full_Inr_iff)
    with v6 show thesis by (intro that [of "IPv6 bs"]) (simp_all add: addr_valid_def addr_bytes_def addr_host_def)
  next
    case dom
    then obtain l bs rest where l: "length l = 1" "c_in c = l @ bs @ rest" "length bs = unat (l ! 0)"
      "c' = c\<lparr>c_in := rest\<rparr>" "host = string_of bs"
      using assms by (auto simp: read_host_def io_bind_Inr_iff read_full_Inr_iff)
    then obtain b where b: "l = [b]" by (cases l) auto
    have "unat b < 256" using unsigned_less [of b] by simp
    moreover have "byte_of_nat (unat b) = b" by (simp add: byte_of_nat_def)
    ultimately show thesis
      using l b dom
      by (intro that [of "Domain (string_of bs)"]) (simp_all add: addr_valid_def addr_bytes_def addr_host_def)
  qed
qed

text \<open>A request that is read is the encoding of some address and port, but for the reserved byte.\<close>

lemma readRequest_Inr:
  assumes "readRequest c = (Inr (cmd, host, port), c')"
  obtains a rsv pb where "addr_valid a" "host = addr_host a" "length pb = 2"
    "port = get_uint16 (pb ! 0) (pb ! 1)"
    "c_in c = [socks5Version, cmd, rsv] @ addr_bytes a @ pb @ c_in c'" "c' = c\<lparr>c_in := c_in c'\<rparr>"
proof -
  obtain hdr rest h2 c2 pb where r: "length hdr = 4" "c_in c = hdr @ rest" "hdr ! 0 = socks5Version"
    "cmd = hdr ! 1" and h: "read_host (hdr ! 3) (c\<lparr>c_in := rest\<rparr>) = (Inr h2, c2)"
    and p: "length pb = 2" "c_in c2 = pb @ c_in c'" "c' = c2\<lparr>c_in := c_in c'\<rparr>"
    and o: "host = h2" "port = get_uint16 (pb ! 0) (pb ! 1)"
    using assms by (auto simp: readRequest_def io_bind_Inr_iff read_full_Inr_iff)
  obtain a where a: "addr_valid a" "hdr ! 3 = hd (addr_bytes a)" "h2 = addr_host a"
    "rest = tl (addr_bytes a) @ c_in c2" "c2 = c\<lparr>c_in := c_in c2\<rparr>"
    by (rule read_host_Inr [OF h]) simp
  obtain w x y z where "hdr = [w, x, y, z]"
    using r(1) by (auto simp: length_Suc_conv numeral_eq_Suc)
  then have "c_in c = [socks5Version, cmd, y] @ addr_bytes a @ pb @ c_in c'"
    using r a p addr_bytes_Cons [of a] by simp
  moreover have "c' = c\<lparr>c_in := c_in c'\<rparr>"
    using p(3) a(5) by (metis (mono_tags, lifting) conn.surjective conn.update_convs(1) old.unit.exhaust)
  ultimately show thesis using a p o by (intro that [of a pb y]) simp_all
qed

lemma get_uint16_bound: "get_uint16 a b < 65536"
proof -
  have "unat a < 256" "unat b < 256" using unsigned_less [of a] unsigned_less [of b] by simp_all
  then show ?thesis by (simp add: get_uint16_def)
qed

section \<open>Relaying\<close>

lemma splice_unlimited:
  assumes "c_room client = None" "c_room up = None"
  shows "spliceClientUpstream client up =
    (length (c_in client), length (c_in up),
     client\<lparr>c_in := [], c_out := c_out client @ c_in up\<rparr>,
     up\<lparr>c_in := [], c_out := c_out up @ c_in client\<rparr>)"
  using assms by (simp add: spliceClientUpstream_def io_copy_def Let_def)

lemma handle_relays:
  assumes inp: "c_in client = greeting_bytes methods @ request_bytes q @ payload"
    and g: "greeting_valid methods" and q: "request_valid q" "q_cmd q = cmdConnect"
    and room: "c_room client = None" "c_room up = None"
    and dial: "dial (pick (addr_host (q_addr q)))
      (join_host_port (addr_host (q_addr q)) (nat_str (unat (q_port q)))) = Inr up"
  shows "handle pick dial client =
    (Relayed (pick (addr_host (q_addr q)))
       (join_host_port (addr_host (q_addr q)) (nat_str (unat (q_port q))))
       (length payload) (length (c_in up)),
     client\<lparr>c_in := [], c_out := c_out client @ [socks5Version, methodNoAuth]
        @ reply_bytes replySucceeded @ c_in up, c_closed := True\<rparr>,
     Some (up\<lparr>c_in := [], c_out := c_out up @ payload, c_closed := True\<rparr>))"
proof -
  let ?c1 = "client\<lparr>c_in := request_bytes q @ payload, c_out := c_out client @ [socks5Version, methodNoAuth]\<rparr>"
  have n: "negotiateMethod client = (Inr (), ?c1)"
    using g inp room by (subst negotiateMethod_greeting [where methods = methods])
      (auto simp: greeting_valid_def write_all_def)
  have r: "readRequest ?c1 = (Inr (request_view q), ?c1\<lparr>c_in := payload\<rparr>)"
    using q by (intro readRequest_bytes) auto
  show ?thesis
    using q room dial
    by (simp add: handle_def n r request_view_def itoa_def writeReply_def write_all_def
        splice_unlimited close_conn_def)
qed

text \<open>Nothing is dialled, and so nothing relayed, unless a no-auth greeting and a CONNECT request were read.\<close>

lemma negotiateMethod_Inr:
  assumes "negotiateMethod c = (Inr u, c')"
  obtains methods where "greeting_valid methods" "c_in c = greeting_bytes methods @ c_in c'"
proof -
  obtain hdr rest methods rest' where r: "length hdr = 2" "c_in c = hdr @ rest" "hdr ! 0 = socks5Version"
    and m: "length methods = unat (hdr ! 1)" "rest = methods @ rest'" "methodNoAuth \<in> set methods"
    and w: "write_all SocksWrite [socks5Version, methodNoAuth] (c\<lparr>c_in := rest'\<rparr>) = (Inr u, c')"
    using assms by (auto simp: negotiateMethod_def io_bind_Inr_iff read_full_Inr_iff split: if_splits)
  obtain x y where h: "hdr = [x, y]" using r(1) by (auto simp: length_Suc_conv numeral_eq_Suc)
  have "unat y < 256" using unsigned_less [of y] by simp
  moreover have "byte_of_nat (unat y) = y" by (simp add: byte_of_nat_def)
  ultimately show thesis
    using r m h write_all_in [OF w]
    by (intro that [of methods]) (auto simp: greeting_valid_def greeting_bytes_def)
qed

definition dialled :: "'d outcome \<Rightarrow> ('d \<times> string) option" where
  "dialled o1 = (case o1 of DialFailed d t _ \<Rightarrow> Some (d, t) | ReplyFailed d t \<Rightarrow> Some (d, t)
     | Relayed d t _ _ \<Rightarrow> Some (d, t) | _ \<Rightarrow> None)"

lemma handle_dialled:
  assumes "handle pick dial client = (o1, client', up)" "dialled o1 = Some (d, t)"
  obtains methods a rsv pb payload where "greeting_valid methods" "addr_valid a" "length pb = 2"
    "c_in client = greeting_bytes methods @ [socks5Version, cmdConnect, rsv] @ addr_bytes a @ pb @ payload"
    "d = pick (addr_host a)"
    "t = join_host_port (addr_host a) (nat_str (get_uint16 (pb ! 0) (pb ! 1)))"
proof -
  obtain c1 where n: "negotiateMethod client = (Inr (), c1)"
    using assms by (auto simp: handle_def dialled_def split: prod.splits sum.splits)
  obtain cmd host port c2 where r: "readRequest c1 = (Inr (cmd, host, port), c2)"
    using assms n by (auto simp: handle_def dialled_def split: prod.splits sum.splits)
  have d: "cmd = cmdConnect" "d = pick host" "t = join_host_port host (nat_str port)"
    using assms n r
    by (auto simp: handle_def dialled_def Let_def itoa_def split: prod.splits sum.splits if_splits)
  from negotiateMethod_Inr [OF n] obtain methods where
    m: "greeting_valid methods" "c_in client = greeting_bytes methods @ c_in c1" .
  from readRequest_Inr [OF r] obtain a rsv pb where a: "addr_valid a" "host = addr_host a" "length pb = 2"
    "port = get_uint16 (pb ! 0) (pb ! 1)" "c_in c1 = [socks5Version, cmd, rsv] @ addr_bytes a @ pb @ c_in c2"
    .
  show thesis using that [of methods a pb rsv "c_in c2"] m a d by simp
qed

lemma handle_closes_client: "handle pick dial client = (o1, client', up) \<Longrightarrow> c_closed client'"
  by (auto simp: handle_def close_conn_def Let_def split: prod.splits sum.splits if_splits)

section \<open>Properties\<close>

text \<open>C38. A request survives the wire: from the front of any stream the server reads back the command,
  the host in Go's notation and the port, and leaves exactly the bytes that follow.\<close>

theorem readRequest_round_trip:
  assumes "request_valid q"
  shows "run_reader readRequest (request_bytes q @ rest) = Some (request_view q, rest)"
  using assms by (rule socks_request.dec_enc)

lemma readRequest_round_trip_witness:
  "run_reader readRequest (request_bytes \<lparr>q_cmd = cmdConnect, q_addr = Domain ''db.example'', q_port = 5432\<rparr> @ [1, 2])
     = Some ((cmdConnect, ''db.example'', 5432), [1, 2])"
  using readRequest_round_trip [of "\<lparr>q_cmd = cmdConnect, q_addr = Domain ''db.example'', q_port = 5432\<rparr>" "[1, 2]"]
  by (simp add: request_valid_def addr_valid_def request_view_def addr_host_def)

text \<open>C21. A client that offers no-auth and asks for a CONNECT gets the two answers of the protocol, then
  everything the dialled connection sends; the dialled connection gets everything the client sent
  after its request; the target is the requested host and port and the dialer is the one picked for
  that host; and both connections are closed.\<close>

theorem handle_serves_connect:
  assumes "c_in client = greeting_bytes methods @ request_bytes q @ payload"
    and "greeting_valid methods" "request_valid q" "q_cmd q = cmdConnect"
    and "c_room client = None" "c_room up = None"
    and "dial (pick (addr_host (q_addr q)))
      (join_host_port (addr_host (q_addr q)) (nat_str (unat (q_port q)))) = Inr up"
  shows "handle pick dial client =
    (Relayed (pick (addr_host (q_addr q)))
       (join_host_port (addr_host (q_addr q)) (nat_str (unat (q_port q))))
       (length payload) (length (c_in up)),
     client\<lparr>c_in := [], c_out := c_out client @ [socks5Version, methodNoAuth]
        @ reply_bytes replySucceeded @ c_in up, c_closed := True\<rparr>,
     Some (up\<lparr>c_in := [], c_out := c_out up @ payload, c_closed := True\<rparr>))"
  using assms by (rule handle_relays)

definition sample_request :: request where
  "sample_request = \<lparr>q_cmd = cmdConnect, q_addr = Domain ''db.example'', q_port = 5432\<rparr>"

lemma sample_request_simps:
  "request_valid sample_request" "q_cmd sample_request = cmdConnect"
  "addr_host (q_addr sample_request) = ''db.example''" "unat (q_port sample_request) = 5432"
  by (simp_all add: sample_request_def request_valid_def addr_valid_def addr_host_def)

lemma handle_serves_connect_witness:
  "handle (\<lambda>h. h) (\<lambda>_ _. Inr (stream_conn [7, 8]))
     (stream_conn (greeting_bytes [0] @ request_bytes sample_request @ [9])) =
   (Relayed ''db.example'' (join_host_port ''db.example'' (nat_str 5432)) 1 2,
    \<lparr>c_in = [], c_out = [5, 0] @ reply_bytes replySucceeded @ [7, 8], c_room = None, c_closed = True\<rparr>,
    Some \<lparr>c_in = [], c_out = [9], c_room = None, c_closed = True\<rparr>)"
proof -
  let ?up = "stream_conn [7, 8]"
  let ?c = "stream_conn (greeting_bytes [0] @ request_bytes sample_request @ [9])"
  have "c_in ?c = greeting_bytes [0] @ request_bytes sample_request @ [9]" by (simp add: stream_conn_def)
  moreover have "greeting_valid [0]" by (simp add: greeting_valid_def)
  moreover have "c_room ?c = None" "c_room ?up = None" by (simp_all add: stream_conn_def)
  ultimately have "handle (\<lambda>h. h) (\<lambda>_ _. Inr ?up) ?c =
     (Relayed (addr_host (q_addr sample_request))
        (join_host_port (addr_host (q_addr sample_request)) (nat_str (unat (q_port sample_request))))
        (length [9 :: byte]) (length (c_in ?up)),
      ?c\<lparr>c_in := [], c_out := c_out ?c @ [socks5Version, methodNoAuth]
         @ reply_bytes replySucceeded @ c_in ?up, c_closed := True\<rparr>,
      Some (?up\<lparr>c_in := [], c_out := c_out ?up @ [9], c_closed := True\<rparr>))"
    by (intro handle_serves_connect) (simp_all only: sample_request_simps)
  then show ?thesis
    unfolding sample_request_simps by (simp add: stream_conn_def)
qed

text \<open>C22. Nothing is dialled for a client that did not send, from its first byte on, a greeting offering
  no-auth and a CONNECT request; and what is dialled is the host and port of that request.\<close>

theorem handle_dials_requested:
  assumes "handle pick dial client = (res, client', up)" "dialled res = Some (d, t)"
  shows "\<exists>methods a rsv pb payload. greeting_valid methods \<and> addr_valid a \<and> length pb = 2
    \<and> c_in client = greeting_bytes methods @ [socks5Version, cmdConnect, rsv] @ addr_bytes a @ pb @ payload
    \<and> d = pick (addr_host a)
    \<and> t = join_host_port (addr_host a) (nat_str (get_uint16 (pb ! 0) (pb ! 1)))"
  using assms by (rule handle_dialled) blast

lemma handle_dials_requested_witness:
  "\<exists>methods a rsv pb payload. greeting_valid methods \<and> addr_valid a \<and> length pb = 2
    \<and> [5, 1, 0, 5, 1, 0, 1, 10, 0, 0, 1, 0, 80] =
        greeting_bytes methods @ [socks5Version, cmdConnect, rsv] @ addr_bytes a @ pb @ payload
    \<and> ''10.0.0.1'' = addr_host a
    \<and> ''10.0.0.1:80'' = join_host_port (addr_host a) (nat_str (get_uint16 (pb ! 0) (pb ! 1)))"
proof -
  let ?c = "stream_conn [5, 1, 0, 5, 1, 0, 1, 10, 0, 0, 1, 0, 80]"
  obtain client' up where h: "handle (\<lambda>h. h) (\<lambda>_ _. Inl (NetErr True)) ?c =
      (DialFailed ''10.0.0.1'' ''10.0.0.1:80'' (NetErr True), client', up)"
  proof -
    have "fst (handle (\<lambda>h. h) (\<lambda>_ _. Inl (NetErr True)) ?c) =
        DialFailed ''10.0.0.1'' ''10.0.0.1:80'' (NetErr True)"
      by code_simp
    then show thesis using that by (metis prod.collapse)
  qed
  from handle_dials_requested [OF h, of "''10.0.0.1''" "''10.0.0.1:80''"] show ?thesis
    by (simp only: dialled_def outcome.case stream_conn_def conn.select_convs)
qed

end
