(* ===== verification/OpenConnect.thy ===== *)
theory OpenConnect
  imports Config Secret
begin

text \<open>
  \<open>pkg/openconnect\<close> apart from the running process: finding the binaries (\<open>New\<close>), the command
  lines and scripts (\<open>newProcess\<close>, \<open>tunScript\<close>, \<open>signal\<close>), the output tail kept for error messages
  (\<open>tail.go\<close>) and the sudoers drop-in (\<open>sudoers.go\<close>). Looking up and running programs are fields
  of \<open>vpn_host\<close>. The life cycle of the process is in the theory VpnClient.
\<close>

section \<open>Programs\<close>

record vpn_host =
  vh_os :: secret_os
  vh_sudo_ok :: "string \<Rightarrow> string \<Rightarrow> bool"
  vh_version :: "string \<Rightarrow> string + string"
  vh_user :: "string + string"

datatype vpn_err =
    BinaryMissing string
  | NotSudoers
  | VersionFailed string
  | NoVpncScript
  | NilAuth
  | UserUnknown string
  | InstallFailed string
  | InstalledButAsks

definition vpn_searchDirs :: "string list" where
  "vpn_searchDirs = [''/opt/homebrew/bin'', ''/usr/local/bin'']"

definition vpn_lookPath :: "vpn_host \<Rightarrow> string \<Rightarrow> vpn_err + string" where
  "vpn_lookPath h name =
     (case os_LookPath (vh_os h) name of
        Some p \<Rightarrow> Inr p
      | None \<Rightarrow>
          (case find (os_executable (vh_os h)) (map (\<lambda>dir. path_join [dir, name]) vpn_searchDirs) of
             Some p \<Rightarrow> Inr p
           | None \<Rightarrow> Inl (BinaryMissing name)))"

definition sudoBins :: "vpn_host \<Rightarrow> vpn_err + string \<times> string" where
  "sudoBins h =
     rbind (vpn_lookPath h ''sudo'') (\<lambda>sudo.
     rbind (vpn_lookPath h ''kill'') (\<lambda>kill. Inr (sudo, kill)))"

definition checkSudo :: "vpn_host \<Rightarrow> string \<Rightarrow> string \<Rightarrow> string \<Rightarrow> vpn_err + unit" where
  "checkSudo h sudo openconnect kill =
     check_all (\<lambda>bin. guard_err (\<not> vh_sudo_ok h sudo bin) NotSudoers) [openconnect, kill]"

abbreviation vpncScriptPrefix :: string where
  "vpncScriptPrefix \<equiv> ''Default vpnc-script (override with --script): ''"

definition defaultVpncScript :: "vpn_host \<Rightarrow> string \<Rightarrow> vpn_err + string" where
  "defaultVpncScript h openconnect =
     rbind (wrap_err VersionFailed (vh_version h openconnect)) (\<lambda>out.
       (case List.map_filter (\<lambda>line. cut_prefix vpncScriptPrefix (trim_space line)) (split_on (CHR 0x0A) out) of
          path # _ \<Rightarrow> Inr path
        | [] \<Rightarrow> Inl NoVpncScript))"

section \<open>New\<close>

record vpn_cfg =
  v_openconnect :: string
  v_ocproxy :: string
  v_tun :: bool
  v_sudo :: string
  v_kill :: string
  v_vpncScript :: string
  v_args :: "string list"
  v_username :: string
  v_password :: string

abbreviation defaultProtocol :: string where "defaultProtocol \<equiv> ''f5''"

definition vpn_args :: "upstream \<Rightarrow> string list" where
  "vpn_args u =
     [''--protocol'', (if u_Protocol u = [] then defaultProtocol else u_Protocol u),
      ''--passwd-on-stdin'', ''--non-inter'']
     @ (if u_ServerCert u \<noteq> [] then [''--servercert'', u_ServerCert u] else [])
     @ [u_Server u]"

text \<open>The paths of the mode: ocproxy without a tun, or sudo, kill and the vpnc-script with one.\<close>

definition vpn_tools :: "vpn_host \<Rightarrow> bool \<Rightarrow> string \<Rightarrow> vpn_err + string \<times> string \<times> string \<times> string" where
  "vpn_tools h tun oc =
     (if tun then
        rbind (sudoBins h) (\<lambda>(sudo, kill).
        rbind (checkSudo h sudo oc kill) (\<lambda>_.
        rbind (defaultVpncScript h oc) (\<lambda>vpnc. Inr ([], sudo, kill, vpnc))))
      else rbind (vpn_lookPath h ''ocproxy'') (\<lambda>ocp. Inr (ocp, [], [], [])))"

text \<open>\<open>u.Auth.Username\<close> dereferences the pointer: \<open>NilAuth\<close> is the panic without credentials.\<close>

definition vpn_new :: "vpn_host \<Rightarrow> upstream \<Rightarrow> vpn_err + vpn_cfg" where
  "vpn_new h u =
     rbind (vpn_lookPath h ''openconnect'') (\<lambda>oc.
     rbind (vpn_tools h (u_Tun u) oc) (\<lambda>(ocp, sudo, kill, vpnc).
       (case u_Auth u of
          None \<Rightarrow> Inl NilAuth
        | Some a \<Rightarrow> Inr \<lparr>v_openconnect = oc, v_ocproxy = ocp, v_tun = u_Tun u, v_sudo = sudo,
            v_kill = kill, v_vpncScript = vpnc, v_args = vpn_args u,
            v_username = a_Username a, v_password = a_Password a\<rparr>)))"

section \<open>Command lines\<close>

definition shellQuote :: "string \<Rightarrow> string" where
  "shellQuote s = [CHR 0x27] @ concat (map (\<lambda>c. if c = CHR 0x27 then [CHR 0x27, CHR 0x5C, CHR 0x27, CHR 0x27] else [c]) s)
     @ [CHR 0x27]"

definition tunScript :: "string \<Rightarrow> string \<Rightarrow> string" where
  "tunScript vpncScript dnsFile =
     ''dns=$INTERNAL_IP4_DNS; unset INTERNAL_IP4_DNS INTERNAL_IP6_DNS; '' @
     shellQuote vpncScript @ ''; rc=$?; '' @
     ''[ '' @ [CHR 0x22] @ ''$reason'' @ [CHR 0x22] @ '' = connect ] && printf '' @ [CHR 0x27] @ ''%s'' @
     [CHR 0x5C] @ ''n'' @ [CHR 0x27] @ '' '' @ [CHR 0x22] @ ''$dns'' @ [CHR 0x22] @ '' > '' @
     shellQuote dnsFile @ ''; '' @ ''exit $rc''"

record vpn_process =
  p_argv :: "string list"
  p_addr :: string
  p_dir :: string

text \<open>\<open>newProcess\<close>: the temporary directory or the free port are what the calls yielded.\<close>

definition newProcess ::
  "vpn_cfg \<Rightarrow> (string + string) \<Rightarrow> (string + int) \<Rightarrow> string \<Rightarrow> string + vpn_process"
where
  "newProcess c tmpdir port username =
     (if v_tun c then
        rbind tmpdir (\<lambda>dir.
          Inr \<lparr>p_argv = [v_sudo c, ''-n'', v_openconnect c, ''--script'',
                 tunScript (v_vpncScript c) (path_join [dir, ''dns'']), ''--user'', username] @ v_args c,
               p_addr = [], p_dir = dir\<rparr>)
      else
        rbind port (\<lambda>port.
          Inr \<lparr>p_argv = [v_openconnect c, ''--script-tun'', ''--script'',
                 [CHR 0x27] @ v_ocproxy c @ [CHR 0x27] @ '' -D '' @ itoa port, ''--user'', username] @ v_args c,
               p_addr = join_host_port ''127.0.0.1'' (itoa port), p_dir = []\<rparr>))"

datatype vpn_signal = SIGTERM | SIGKILL

text \<open>What \<open>signal\<close> does: \<open>Inl\<close> the process is signalled itself, \<open>Inr\<close> a command is run.\<close>

definition vpn_signal_cmd :: "vpn_cfg \<Rightarrow> int \<Rightarrow> vpn_signal \<Rightarrow> vpn_signal + string list" where
  "vpn_signal_cmd c pid sig =
     (if \<not> v_tun c then Inl sig
      else if sig = SIGKILL then Inr [v_sudo c, ''-n'', v_kill c, ''-KILL'', ''--'', ''-'' @ itoa pid]
      else Inr [v_sudo c, ''-n'', v_kill c, ''-TERM'', itoa pid])"

text \<open>The \<open>n\<close>-th dial of the resolver goes to this server; a bare address gets port 53.\<close>

definition resolver_server :: "string list \<Rightarrow> 32 word \<Rightarrow> string" where
  "resolver_server servers n =
     (let server = servers ! (unat n mod length servers)
      in case split_host_port server of Inl _ \<Rightarrow> join_host_port server ''53'' | Inr _ \<Rightarrow> server)"

definition newResolver :: "string list \<Rightarrow> (32 word \<Rightarrow> string) option" where
  "newResolver servers = (if servers = [] then None else Some (resolver_server servers))"

text \<open>\<open>strings.Fields\<close>.\<close>

fun fields_from :: "string \<Rightarrow> string \<Rightarrow> string list" where
  "fields_from w [] = (if w = [] then [] else [w])"
| "fields_from w (c # s) =
     (if is_space c then (if w = [] then [] else [w]) @ fields_from [] s else fields_from (w @ [c]) s)"

text \<open>
  \<open>ready\<close>, with the content of the dns file if the vpnc-script has written it and the addresses that
  accept: whether the tunnel is up, and the resolver it stores, if it stores one.
\<close>

definition vpn_ready ::
  "bool \<Rightarrow> string option \<Rightarrow> (string \<Rightarrow> bool) \<Rightarrow> vpn_process \<Rightarrow> bool \<times> (32 word \<Rightarrow> string) option option"
where
  "vpn_ready tun dns accepts p =
     (if tun then
        (case dns of None \<Rightarrow> (False, None) | Some b \<Rightarrow> (True, Some (newResolver (fields_from [] b))))
      else (accepts (p_addr p), None))"

section \<open>The output tail\<close>

record tail_st =
  tl_buf :: string
  tl_lines :: "string list"

abbreviation tailLines :: nat where "tailLines \<equiv> 10"

definition tail_push :: "string list \<Rightarrow> string \<Rightarrow> string list" where
  "tail_push ls line =
     (if line = [] then ls
      else let ls = ls @ [line] in if length ls > tailLines then tl ls else ls)"

lemma index_of_less: "index_of c s = Some i \<Longrightarrow> i < length s"
  by (induction s arbitrary: i) (auto split: if_splits)

function tail_loop :: "string \<Rightarrow> string list \<Rightarrow> string \<times> string list" where
  "tail_loop buf ls =
     (case index_of (CHR 0x0A) buf of
        None \<Rightarrow> (buf, ls)
      | Some i \<Rightarrow> tail_loop (drop (Suc i) buf) (tail_push ls (trim_space (take i buf))))"
  by pat_completeness auto
termination
  by (relation "measure (\<lambda>(buf, _). length buf)") (auto dest: index_of_less)

declare tail_loop.simps [simp del]

definition tail_Write :: "string \<Rightarrow> tail_st \<Rightarrow> tail_st" where
  "tail_Write b t =
     (let (buf, ls) = tail_loop (tl_buf t @ b) (tl_lines t) in t\<lparr>tl_buf := buf, tl_lines := ls\<rparr>)"

definition tail_String :: "tail_st \<Rightarrow> string" where
  "tail_String t =
     (let rest = trim_space (tl_buf t);
          ls = (if rest \<noteq> [] then tl_lines t @ [rest] else tl_lines t)
      in join_with '' | '' ls)"

section \<open>The sudoers drop-in\<close>

abbreviation SudoersPath :: string where "SudoersPath \<equiv> ''/etc/sudoers.d/dockprox''"

definition Sudoers :: "vpn_host \<Rightarrow> vpn_err + string" where
  "Sudoers h =
     rbind (vpn_lookPath h ''openconnect'') (\<lambda>oc.
     rbind (sudoBins h) (\<lambda>(_, kill).
     rbind (wrap_err UserUnknown (vh_user h)) (\<lambda>me.
       Inr (me @ '' ALL=(root) NOPASSWD: '' @ oc @ '', '' @ kill @ [CHR 0x0A]))))"

definition installScript :: "string \<Rightarrow> string" where
  "installScript content =
     ''set -e; t=$(mktemp); printf '' @ [CHR 0x27] @ ''%s'' @ [CHR 0x27] @ '' '' @ shellQuote content @
     '' > '' @ [CHR 0x22] @ ''$t'' @ [CHR 0x22] @ ''; '' @
     ''visudo -cf '' @ [CHR 0x22] @ ''$t'' @ [CHR 0x22] @ '' >/dev/null; mkdir -p '' @ path_dir SudoersPath @ ''; '' @
     ''install -m 0440 -o root '' @ [CHR 0x22] @ ''$t'' @ [CHR 0x22] @ '' '' @ SudoersPath @
     ''; rm -f '' @ [CHR 0x22] @ ''$t'' @ [CHR 0x22]"

text \<open>\<open>h'\<close> is the host after the script ran.\<close>

definition sudoers_install ::
  "vpn_host \<Rightarrow> vpn_host \<Rightarrow> (string \<Rightarrow> string \<Rightarrow> string + unit) \<Rightarrow> vpn_err + unit"
where
  "sudoers_install h h' run =
     rbind (Sudoers h) (\<lambda>content.
       let oc = (case vpn_lookPath h ''openconnect'' of Inl _ \<Rightarrow> [] | Inr p \<Rightarrow> p);
           (sudo, kill) = (case sudoBins h of Inl _ \<Rightarrow> ([], []) | Inr p \<Rightarrow> p)
       in rbind (wrap_err InstallFailed (run sudo (installScript content))) (\<lambda>_.
            (case checkSudo h' sudo oc kill of Inl _ \<Rightarrow> Inl InstalledButAsks | Inr _ \<Rightarrow> Inr ())))"

definition appleScriptString :: "string \<Rightarrow> string" where
  "appleScriptString s =
     [CHR 0x22] @ concat (map (\<lambda>c. if c = CHR 0x22 then [CHR 0x5C, CHR 0x22] else [c])
       (concat (map (\<lambda>c. if c = CHR 0x5C then [CHR 0x5C, CHR 0x5C] else [c]) s))) @ [CHR 0x22]"

text \<open>The two front ends; \<open>exec\<close> runs a command, \<open>exec_out\<close> one with its output taken for the error.\<close>

definition InstallSudoers :: "(string list \<Rightarrow> string + unit) \<Rightarrow> vpn_host \<Rightarrow> vpn_host \<Rightarrow> vpn_err + unit" where
  "InstallSudoers exec h h' = sudoers_install h h' (\<lambda>sudo script. exec [sudo, ''sh'', ''-c'', script])"

definition InstallSudoersGUI :: "(string list \<Rightarrow> (string \<times> string) + unit) \<Rightarrow> vpn_host \<Rightarrow> vpn_host \<Rightarrow> vpn_err + unit" where
  "InstallSudoersGUI exec_out h h' = sudoers_install h h' (\<lambda>_ script.
     (case exec_out [''osascript'', ''-e'',
             ''do shell script '' @ appleScriptString script @ '' with administrator privileges''] of
        Inl (out, err) \<Rightarrow> Inl (trim_space out @ '': '' @ err)
      | Inr _ \<Rightarrow> Inr ()))"

text \<open>\<open>dockprox tun install\<close>: what it prints to standard error before and to standard output after.\<close>

definition tun_install ::
  "(string list \<Rightarrow> string + unit) \<Rightarrow> vpn_host \<Rightarrow> vpn_host \<Rightarrow> (vpn_err + string) \<times> string"
where
  "tun_install exec h h' =
     (case Sudoers h of
        Inl e \<Rightarrow> (Inl e, [])
      | Inr content \<Rightarrow>
          (case InstallSudoers exec h h' of Inl e \<Rightarrow> Inl e | Inr _ \<Rightarrow> Inr (''installed '' @ SudoersPath @ [CHR 0x0A]),
           ''writing '' @ SudoersPath @ '':'' @ [CHR 0x0A] @ ''  '' @ content))"

section \<open>How a shell and AppleScript read the quoted strings\<close>

text \<open>
  One word of a POSIX shell command: single quotes are literal up to the next quote, a backslash
  outside them takes the next character, and blanks, \<open>;\<close>, \<open>>\<close> and \<open>&\<close> end the word. Characters with
  another meaning outside quotes give \<open>None\<close>. The first argument says whether a quote is open.
\<close>

definition sh_delim :: "char \<Rightarrow> bool" where
  "sh_delim c \<longleftrightarrow> c \<in> {CHR '' '', CHR 0x09, CHR 0x0A, CHR '';'', CHR ''>'', CHR ''&''}"

definition sh_meta :: "char \<Rightarrow> bool" where
  "sh_meta c \<longleftrightarrow> c \<in> set ''$|<()*?[#~=%!{}'' \<union> {CHR 0x22, CHR 0x60}"

fun sh_read :: "bool \<Rightarrow> string \<Rightarrow> (string \<times> string) option" where
  "sh_read True [] = None"
| "sh_read False [] = Some ([], [])"
| "sh_read True (c # s) =
     (if c = CHR 0x27 then sh_read False s else map_option (apfst ((#) c)) (sh_read True s))"
| "sh_read False (c # s) =
     (if c = CHR 0x27 then sh_read True s
      else if c = CHR 0x5C then (case s of [] \<Rightarrow> None | d # s \<Rightarrow> map_option (apfst ((#) d)) (sh_read False s))
      else if sh_delim c then Some ([], c # s)
      else if sh_meta c then None
      else map_option (apfst ((#) c)) (sh_read False s))"

lemma sh_read_end: "rest = [] \<or> sh_delim (hd rest) \<Longrightarrow> sh_read False rest = Some ([], rest)"
  by (cases rest) (auto simp: sh_delim_def)

lemma sh_read_quoted:
  assumes "rest = [] \<or> sh_delim (hd rest)"
  shows "sh_read True (concat (map (\<lambda>c. if c = CHR 0x27 then [CHR 0x27, CHR 0x5C, CHR 0x27, CHR 0x27] else [c]) s)
      @ CHR 0x27 # rest) = Some (s, rest)"
  using sh_read_end [OF assms] by (induction s) auto

text \<open>An AppleScript string literal after its opening quote.\<close>

fun as_read :: "string \<Rightarrow> (string \<times> string) option" where
  "as_read [] = None"
| "as_read (c # s) =
     (if c = CHR 0x22 then Some ([], s)
      else if c = CHR 0x5C then
        (case s of [] \<Rightarrow> None
         | d # s \<Rightarrow> if d = CHR 0x22 \<or> d = CHR 0x5C then map_option (apfst ((#) d)) (as_read s) else None)
      else map_option (apfst ((#) c)) (as_read s))"

lemma as_read_escaped:
  "as_read (concat (map (\<lambda>c. if c = CHR 0x22 then [CHR 0x5C, CHR 0x22] else [c])
      (concat (map (\<lambda>c. if c = CHR 0x5C then [CHR 0x5C, CHR 0x5C] else [c]) s))) @ CHR 0x22 # rest) = Some (s, rest)"
  by (induction s) auto

section \<open>The tail\<close>

lemma index_of_append_Some: "index_of c x = Some i \<Longrightarrow> index_of c (x @ y) = Some i"
  by (simp add: index_of_append)

lemma tail_loop_append:
  "tail_loop (x @ y) ls = (let (r, ls') = tail_loop x ls in tail_loop (r @ y) ls')"
proof (induction x ls rule: tail_loop.induct)
  case (1 buf ls)
  show ?case
  proof (cases "index_of (CHR 0x0A) buf")
    case None
    then show ?thesis by (simp add: tail_loop.simps [of buf])
  next
    case (Some i)
    then have "i < length buf" by (rule index_of_less)
    then show ?thesis
      using 1 [OF Some] Some index_of_append_Some [OF Some, of y]
      by (simp add: tail_loop.simps [of buf] tail_loop.simps [of "buf @ y"])
  qed
qed

lemma tail_Write_append: "tail_Write b2 (tail_Write b1 t) = tail_Write (b1 @ b2) t"
  using tail_loop_append [of "tl_buf t @ b1" b2 "tl_lines t"]
  by (simp add: tail_Write_def split: prod.splits)

lemma tail_loop_bounded:
  "tail_loop buf ls = (r, ls') \<Longrightarrow> length ls \<le> tailLines \<Longrightarrow> length ls' \<le> tailLines \<and> CHR 0x0A \<notin> set r"
proof (induction buf ls arbitrary: r ls' rule: tail_loop.induct)
  case (1 buf ls)
  show ?case
  proof (cases "index_of (CHR 0x0A) buf")
    case None
    then show ?thesis
      using "1.prems" index_of_None_iff [of "CHR 0x0A" buf] by (simp add: tail_loop.simps [of buf])
  next
    case (Some i)
    have "length (tail_push ls (trim_space (take i buf))) \<le> tailLines"
      using "1.prems"(2) by (simp add: tail_push_def Let_def)
    with "1.IH" [OF Some] "1.prems"(1) Some show ?thesis by (simp add: tail_loop.simps [of buf])
  qed
qed

lemma split_on_nonempty [simp]: "split_on c s \<noteq> []"
  by (induction s rule: split_on.induct) (auto simp: Let_def split: list.splits)

lemma split_on_index:
  "split_on c s = (case index_of c s of None \<Rightarrow> [s] | Some i \<Rightarrow> take i s # split_on c (drop (Suc i) s))"
  by (induction s) (auto split: option.splits)

lemma tail_loop_fold:
  "tail_loop buf ls =
     (last (split_on (CHR 0x0A) buf),
      foldl (\<lambda>ls l. tail_push ls (trim_space l)) ls (butlast (split_on (CHR 0x0A) buf)))"
proof (induction buf ls rule: tail_loop.induct)
  case (1 buf ls)
  show ?case
    by (cases "index_of (CHR 0x0A) buf")
      (use 1 in \<open>simp_all add: tail_loop.simps [of buf] split_on_index [of _ buf]\<close>)
qed

definition last_n :: "nat \<Rightarrow> 'a list \<Rightarrow> 'a list" where
  "last_n n xs = drop (length xs - n) xs"

lemma tail_push_last_n:
  "tail_push (last_n tailLines ls) line = last_n tailLines (if line = [] then ls else ls @ [line])"
proof (cases "length ls \<ge> tailLines")
  case True
  then have "Suc (length ls - tailLines) = length ls - 9" by simp
  then have "tl (drop (length ls - tailLines) ls) = drop (length ls - 9) ls"
    by (metis drop_Suc tl_drop)
  with True show ?thesis by (simp add: tail_push_def last_n_def Let_def)
qed (simp add: tail_push_def last_n_def Let_def)

lemma foldl_tail_push:
  "foldl (\<lambda>ls l. tail_push ls (trim_space l)) (last_n tailLines ls) raw =
     last_n tailLines (ls @ filter (\<lambda>l. l \<noteq> []) (map trim_space raw))"
proof (induction raw arbitrary: ls)
  case (Cons l raw)
  from Cons [of "if trim_space l = [] then ls else ls @ [trim_space l]"] show ?case
    by (simp add: tail_push_last_n split: if_splits)
qed simp

lemma foldl_tail_Write: "foldl (\<lambda>t b. tail_Write b t) t chunks =
  (if chunks = [] then t else tail_Write (concat chunks) t)"
  by (induction chunks arbitrary: t) (auto simp: tail_Write_append)

lemma vpn_new_not_nil:
  assumes "valid_openconnect urlp u"
  shows "vpn_new h u \<noteq> Inl NilAuth"
proof -
  obtain a where a: "u_Auth u = Some a" "a_Username a \<noteq> []"
    using assms by (auto simp: valid_openconnect_def)
  have tools: "vpn_tools h tun oc \<noteq> Inl NilAuth" for tun oc
    by (auto simp: vpn_tools_def sudoBins_def checkSudo_def vpn_lookPath_def defaultVpncScript_def
        rbind_Inl_iff guard_err_def wrap_err_def split: option.splits list.splits sum.splits if_splits)
  have look: "vpn_lookPath h n \<noteq> Inl NilAuth" for n
    by (auto simp: vpn_lookPath_def split: option.splits)
  show ?thesis using a tools look by (auto simp: vpn_new_def rbind_Inl_iff)
qed

section \<open>Properties\<close>

text \<open>However openconnect's output is cut into writes, the tail holds the last ten lines that are not
  blank, trimmed and in order, and the unfinished line after the last newline.\<close>

theorem tail_keeps_last_lines:
  "foldl (\<lambda>t b. tail_Write b t) \<lparr>tl_buf = [], tl_lines = []\<rparr> chunks =
     \<lparr>tl_buf = last (split_on (CHR 0x0A) (concat chunks)),
      tl_lines = last_n tailLines (filter (\<lambda>l. l \<noteq> [])
        (map trim_space (butlast (split_on (CHR 0x0A) (concat chunks)))))\<rparr>"
proof (cases "chunks = []")
  case False
  have "last_n tailLines [] = ([] :: string list)" by (simp add: last_n_def)
  with foldl_tail_push [of "[]" "butlast (split_on (CHR 0x0A) (concat chunks))"] False show ?thesis
    unfolding foldl_tail_Write by (simp add: tail_Write_def tail_loop_fold del: filter_map)
qed (simp add: last_n_def)

text \<open>A path or a file content quoted for the shell is read back by it as one word, unchanged,
  whatever characters it holds; this covers the vpnc-script and the dns file of the tun script and
  the content of the sudoers drop-in.\<close>

theorem shellQuote_reads_back:
  assumes "rest = [] \<or> sh_delim (hd rest)"
  shows "sh_read False (shellQuote s @ rest) = Some (s, rest)"
  using sh_read_quoted [OF assms] by (simp add: shellQuote_def)

lemma shellQuote_reads_back_witness:
  "sh_read False (shellQuote (''/opt/it'' @ [CHR 0x27] @ ''s/vpnc script'') @ ''; rc=$?'')
     = Some (''/opt/it'' @ [CHR 0x27] @ ''s/vpnc script'', ''; rc=$?'')"
  by (rule shellQuote_reads_back) (simp add: sh_delim_def)

text \<open>The install script survives the quoting for AppleScript's \<open>do shell script\<close>: the literal is
  read back unchanged, and what the shell then prints to the drop-in file is the sudoers content.\<close>

lemma appleScript_installScript:
  "\<exists>before after. as_read (tl (appleScriptString (installScript content))) = Some (installScript content, [])
     \<and> installScript content = before @ shellQuote content @ after
     \<and> sh_read False (shellQuote content @ after) = Some (content, after)"
proof (intro exI conjI)
  let ?before = "''set -e; t=$(mktemp); printf '' @ [CHR 0x27] @ ''%s'' @ [CHR 0x27] @ '' ''"
  let ?after = "drop (length (?before @ shellQuote content)) (installScript content)"
  show "as_read (tl (appleScriptString (installScript content))) = Some (installScript content, [])"
    using as_read_escaped [of "installScript content" "[]"] by (simp add: appleScriptString_def)
  show "installScript content = ?before @ shellQuote content @ ?after"
    by (simp add: installScript_def)
  have "?after \<noteq> [] \<and> sh_delim (hd ?after)"
    by (simp add: installScript_def sh_delim_def)
  then show "sh_read False (shellQuote content @ ?after) = Some (content, ?after)"
    using sh_read_quoted [of ?after content] by (simp add: shellQuote_def)
qed


lemma sh_read_open: "CHR 0x27 \<notin> set s \<Longrightarrow> sh_read True s = None"
  by (induction s) auto

lemma itoa_no_quote: "CHR 0x27 \<notin> set (itoa n)"
proof -
  have "\<not> is_digit (CHR 0x27)" by code_simp
  then have "CHR 0x27 \<notin> set (nat_str k)" for k using nat_str_digits [of k] by (auto simp: list_all_iff)
  then show ?thesis by (auto simp: itoa_def)
qed

text \<open>The ocproxy path is put between single quotes as it is, unlike the paths of the tun
  script; with a quote in it the shell that openconnect starts does not read the path back.\<close>

theorem ocproxy_quoted_unescaped:
  assumes "\<not> v_tun c" "newProcess c tmpdir (Inr port) username = Inr p"
  shows "\<exists>rest. p_argv p ! 3 = [CHR 0x27] @ v_ocproxy c @ [CHR 0x27] @ '' -D '' @ rest
    \<and> (CHR 0x27 \<notin> set (v_ocproxy c) \<longrightarrow> sh_read False (p_argv p ! 3) = Some (v_ocproxy c, '' -D '' @ rest))
    \<and> (v_ocproxy c = ''/opt/it'' @ [CHR 0x27] @ ''s/ocproxy'' \<longrightarrow> sh_read False (p_argv p ! 3) = None)"
proof -
  have p: "p_argv p ! 3 = [CHR 0x27] @ v_ocproxy c @ [CHR 0x27] @ '' -D '' @ itoa port"
    using assms by (auto simp: newProcess_def)
  have same: "concat (map (\<lambda>c. if c = CHR 0x27 then [CHR 0x27, CHR 0x5C, CHR 0x27, CHR 0x27] else [c]) s) = s"
    if "CHR 0x27 \<notin> set s" for s
    using that by (induction s) auto
  have r: "sh_read False (shellQuote (v_ocproxy c) @ '' -D '' @ itoa port) = Some (v_ocproxy c, '' -D '' @ itoa port)"
    using sh_read_quoted [of "'' -D '' @ itoa port" "v_ocproxy c"] by (simp add: shellQuote_def sh_delim_def)
  have "sh_read False (p_argv p ! 3) = Some (v_ocproxy c, '' -D '' @ itoa port)" if "CHR 0x27 \<notin> set (v_ocproxy c)"
  proof -
    have "p_argv p ! 3 = shellQuote (v_ocproxy c) @ '' -D '' @ itoa port"
      unfolding p shellQuote_def same [OF that] by simp
    with r show ?thesis by simp
  qed
  moreover have "sh_read False (p_argv p ! 3) = None" if "v_ocproxy c = ''/opt/it'' @ [CHR 0x27] @ ''s/ocproxy''"
    unfolding p that using sh_read_open [OF itoa_no_quote] by (simp add: sh_delim_def sh_meta_def)
  ultimately show ?thesis using p by blast
qed

text \<open>For a validated VPN upstream, \<open>New\<close> never dereferences missing credentials; when it succeeds
  the mode and server are the configured ones, and in tun mode sudo runs both openconnect and kill
  without a password, so the process that is started can also be stopped.\<close>

theorem vpn_new_valid:
  assumes "valid_openconnect urlp u"
  shows "case vpn_new h u of
      Inl e \<Rightarrow> e \<noteq> NilAuth
    | Inr c \<Rightarrow> v_tun c = u_Tun u \<and> last (v_args c) = u_Server u \<and> v_username c \<noteq> []
        \<and> (if v_tun c then vh_sudo_ok h (v_sudo c) (v_openconnect c) \<and> vh_sudo_ok h (v_sudo c) (v_kill c)
           else vpn_lookPath h ''ocproxy'' = Inr (v_ocproxy c))"
proof -
  obtain a where a: "u_Auth u = Some a" "a_Username a \<noteq> []"
    using assms by (auto simp: valid_openconnect_def)
  show ?thesis
  proof (cases "vpn_new h u")
    case (Inl e)
    then show ?thesis using vpn_new_not_nil [OF assms, of h] by auto
  next
    case (Inr c)
    then obtain oc ocp sudo kill vpnc where t: "vpn_tools h (u_Tun u) oc = Inr (ocp, sudo, kill, vpnc)"
      and c: "v_openconnect c = oc" "v_ocproxy c = ocp" "v_sudo c = sudo" "v_kill c = kill"
        "v_tun c = u_Tun u" "v_args c = vpn_args u" "v_username c = a_Username a"
      using a by (auto simp: vpn_new_def rbind_Inr_iff)
    then show ?thesis
      using Inr a(2) by (auto simp: vpn_tools_def rbind_Inr_iff checkSudo_def vpn_args_def guard_err_def
          split: if_splits)
  qed
qed

definition sample_vpn :: upstream where
  "sample_vpn = zero_upstream\<lparr>u_Type := UpstreamOpenConnect, u_Server := ''https://vpn.example'',
     u_Auth := Some \<lparr>a_Username = ''me'', a_Password = ''op://vault/vpn''\<rparr>, u_Tun := True\<rparr>"

definition sample_vpn_host :: vpn_host where
  "sample_vpn_host = \<lparr>vh_os = sample_os\<lparr>os_LookPath := \<lambda>n. Some (''/usr/bin/'' @ n)\<rparr>,
     vh_sudo_ok = (\<lambda>_ _. True),
     vh_version = (\<lambda>_. Inr (''OpenConnect v9'' @ [CHR 0x0A] @ vpncScriptPrefix @ ''/etc/vpnc/vpnc-script'')),
     vh_user = Inr ''me''\<rparr>"

lemma vpn_new_valid_witness:
  "case vpn_new sample_vpn_host sample_vpn of Inl _ \<Rightarrow> False
    | Inr c \<Rightarrow> v_tun c \<and> v_vpncScript c = ''/etc/vpnc/vpnc-script'' \<and> v_kill c = ''/usr/bin/kill''
        \<and> last (v_args c) = ''https://vpn.example''"
proof -
  let ?urlp = "\<lambda>_. Some \<lparr>url_Scheme = ''https'', url_Host = ''vpn.example''\<rparr>"
  obtain c where c: "vpn_new sample_vpn_host sample_vpn = Inr c" "v_vpncScript c = ''/etc/vpnc/vpnc-script''"
    "v_kill c = ''/usr/bin/kill''"
  proof -
    have "(case vpn_new sample_vpn_host sample_vpn of Inl _ \<Rightarrow> False
      | Inr c \<Rightarrow> v_vpncScript c = ''/etc/vpnc/vpnc-script'' \<and> v_kill c = ''/usr/bin/kill'')"
      by code_simp
    then show thesis using that by (auto split: sum.splits)
  qed
  have "valid_openconnect ?urlp sample_vpn"
    by (simp add: valid_openconnect_def sample_vpn_def zero_upstream_def)
  from vpn_new_valid [OF this, of sample_vpn_host] c show ?thesis
    by (simp add: sample_vpn_def)
qed


definition sample_oc_cfg :: vpn_cfg where
  "sample_oc_cfg = \<lparr>v_openconnect = ''openconnect'', v_ocproxy = ''/opt/it'' @ [CHR 0x27] @ ''s/ocproxy'', v_tun = False,
     v_sudo = [], v_kill = [], v_vpncScript = [], v_args = [], v_username = ''me'', v_password = []\<rparr>"

lemma ocproxy_quoted_unescaped_witness:
  "\<exists>p. newProcess sample_oc_cfg (Inl []) (Inr 1080) ''me'' = Inr p \<and> sh_read False (p_argv p ! 3) = None"
proof -
  obtain p where p: "newProcess sample_oc_cfg (Inl []) (Inr 1080) ''me'' = Inr p"
    by (simp add: newProcess_def sample_oc_cfg_def)
  have c: "\<not> v_tun sample_oc_cfg" "v_ocproxy sample_oc_cfg = ''/opt/it'' @ [CHR 0x27] @ ''s/ocproxy''"
    by (simp_all add: sample_oc_cfg_def)
  from ocproxy_quoted_unescaped [OF c(1) p] c(2) p show ?thesis by blast
qed

text \<open>Names are resolved by the nameservers the VPN pushed, all of them in turn.\<close>

lemma resolver_uses_pushed:
  assumes "vpn_ready True (Some dns) accepts p = (up, Some (Some r))"
  shows "up \<and> (\<forall>n. \<exists>server \<in> set (fields_from [] dns). r n \<in> {server, join_host_port server ''53''})
    \<and> (\<forall>i < length (fields_from [] dns). i < 2 ^ 32 \<longrightarrow>
         r (of_nat i) \<in> {fields_from [] dns ! i, join_host_port (fields_from [] dns ! i) ''53''})"
proof -
  let ?f = "fields_from [] dns"
  have r: "up" "?f \<noteq> []" "r = resolver_server ?f"
    using assms by (auto simp: vpn_ready_def newResolver_def split: if_splits)
  have s: "r n \<in> {?f ! (unat n mod length ?f), join_host_port (?f ! (unat n mod length ?f)) ''53''}" for n
    by (auto simp: r(3) resolver_server_def Let_def split: sum.splits)
  have "?f ! (unat n mod length ?f) \<in> set ?f" for n :: "32 word" using r(2) by simp
  with s have "\<forall>n. \<exists>server \<in> set ?f. r n \<in> {server, join_host_port server ''53''}" by blast
  moreover have "r (of_nat i) \<in> {?f ! i, join_host_port (?f ! i) ''53''}" if "i < length ?f" "i < 2 ^ 32" for i
  proof -
    have "unat (of_nat i :: 32 word) = i" using that(2) by (simp add: unat_of_nat take_bit_nat_eq_self)
    with s [of "of_nat i"] that(1) show ?thesis by simp
  qed
  ultimately show ?thesis using r(1) by blast
qed

end
