(* ===== verification/Upstream.thy ===== *)
theory Upstream
  imports SshTarget Socks5Server OpenConnect
begin

text \<open>
  \<open>pkg/upstream\<close>: the dialers. \<open>socks5.go\<close> is the client side of the protocol that the theory
  Socks5Server serves, \<open>http.go\<close> an HTTP CONNECT client; \<open>direct.go\<close> and \<open>forward.go\<close> dial at
  once; an openconnect dialer dials through the SOCKS5 port of its VPN. Dialling TCP, name
  resolution, TLS and the sessions of the ssh and VPN clients are the record \<open>net_env\<close>.
\<close>

section \<open>The network\<close>

text \<open>
  \<open>n_ReadResponse\<close> is \<open>http.ReadResponse\<close> over a fresh \<open>bufio.Reader\<close>: the status code and how
  many bytes the reader has taken off the connection, which can be more than the header's.
\<close>

record http_response =
  hr_status :: nat
  hr_header_len :: nat
  hr_buffered :: nat

record net_env =
  n_Dial :: "string \<Rightarrow> dial_err + conn"
  n_DialTLS :: "string \<Rightarrow> bool \<Rightarrow> string option \<Rightarrow> string \<Rightarrow> dial_err + conn"
  n_ParseIP :: "string \<Rightarrow> byte list option"
  n_LookupIP :: "string \<Rightarrow> dial_err + byte list list"
  n_ReadResponse :: "byte list \<Rightarrow> http_response option"
  n_ReadCA :: "string \<Rightarrow> string + string"
  n_ValidPEM :: "string \<Rightarrow> bool"
  n_SSHChannel :: "string \<Rightarrow> string \<Rightarrow> dial_err + conn"
  n_VPN :: "string \<Rightarrow> dial_err + string"
  n_TunDial :: "string \<Rightarrow> string \<Rightarrow> dial_err + conn"

text \<open>
  A dial's outcome: the connection or an error, the connection it opened and abandoned (closed)
  on the way, and the secret resolver with what it cached.
\<close>

type_synonym dial_result = "(dial_err + conn) \<times> conn option \<times> resolver"

definition dialled_conn :: "dial_result \<Rightarrow> dial_err + conn" where
  "dialled_conn r = fst r"

section \<open>Credentials\<close>

definition resolveAuth ::
  "secret_os \<Rightarrow> resolver \<Rightarrow> upstream_auth option \<Rightarrow> (sec_err + string \<times> string) \<times> resolver"
where
  "resolveAuth os r a =
     (case a of
        None \<Rightarrow> (Inr ([], []), r)
      | Some a \<Rightarrow>
          (case Resolve os r (a_Username a) of
             (Inl e, r) \<Rightarrow> (Inl e, r)
           | (Inr username, r) \<Rightarrow>
               (case Resolve os r (a_Password a) of
                  (Inl e, r) \<Rightarrow> (Inl e, r)
                | (Inr password, r) \<Rightarrow> (Inr (username, password), r))))"

lemma resolveAuth_literal:
  "\<not> is_reference (a_Username a) \<Longrightarrow> \<not> is_reference (a_Password a) \<Longrightarrow>
     resolveAuth os r (Some a) = (Inr (a_Username a, a_Password a), r)"
  by (simp add: resolveAuth_def Resolve_literal)

section \<open>SOCKS5 client\<close>

datatype s5_err =
    S5Read io_err
  | S5Write io_err
  | S5Method byte
  | S5CredentialTooLong
  | S5AuthRejected byte
  | S5HostTooLong
  | S5Resolve dial_err
  | S5NoAddresses
  | S5ConnectFailed byte
  | S5Atyp byte

definition s5_dial_err :: "s5_err \<Rightarrow> dial_err" where
  "s5_dial_err e = (case e of S5Resolve d \<Rightarrow> d | _ \<Rightarrow> OtherErr ''socks5'')"

definition s5_method :: "upstream \<Rightarrow> byte" where
  "s5_method cfg = (if u_Auth cfg \<noteq> None then 0x02 else 0x00)"

definition s5_greet :: "upstream \<Rightarrow> (s5_err, unit) io" where
  "s5_greet cfg =
     io_bind (write_all S5Write [0x05, 0x01, s5_method cfg]) (\<lambda>_.
     io_bind (read_full S5Read 2) (\<lambda>hdr.
       io_check (hdr ! 0 \<noteq> 0x05 \<or> hdr ! 1 \<noteq> s5_method cfg) (S5Method (hdr ! 1))))"

definition s5_auth_bytes :: "string \<Rightarrow> string \<Rightarrow> byte list" where
  "s5_auth_bytes username password =
     [0x01, byte_of_nat (length username)] @ bytes_of username
     @ [byte_of_nat (length password)] @ bytes_of password"

definition s5_auth :: "upstream \<Rightarrow> string \<Rightarrow> string \<Rightarrow> (s5_err, unit) io" where
  "s5_auth cfg username password =
     (if u_Auth cfg = None then io_return ()
      else io_bind (io_check (length username > 255 \<or> length password > 255) S5CredentialTooLong) (\<lambda>_.
           io_bind (write_all S5Write (s5_auth_bytes username password)) (\<lambda>_.
           io_bind (read_full S5Read 2) (\<lambda>resp.
             io_check (resp ! 1 \<noteq> 0x00) (S5AuthRejected (resp ! 1))))))"

text \<open>The address part of the request: the name itself with remote DNS, else a local address.\<close>

definition s5_dest :: "net_env \<Rightarrow> upstream \<Rightarrow> string \<Rightarrow> s5_err + byte list" where
  "s5_dest env cfg host =
     (if u_DNS cfg = ''remote'' then
        rbind (guard_err (length host > 255) S5HostTooLong) (\<lambda>_.
          Inr ([0x03, byte_of_nat (length host)] @ bytes_of host))
      else
        rbind (case n_ParseIP env host of
                 Some ip \<Rightarrow> Inr ip
               | None \<Rightarrow> rbind (wrap_err S5Resolve (n_LookupIP env host)) (\<lambda>ips.
                   (case ips of [] \<Rightarrow> Inl S5NoAddresses | ip # _ \<Rightarrow> Inr ip))) (\<lambda>ip.
          Inr (case to4 ip of Some v4 \<Rightarrow> 0x01 # v4 | None \<Rightarrow> 0x04 # ip)))"

definition s5_drain :: "byte \<Rightarrow> (s5_err, unit) io" where
  "s5_drain atyp =
     (if atyp = 0x01 then io_bind (read_full S5Read 6) (\<lambda>_. io_return ())
      else if atyp = 0x03 then
        io_bind (read_full S5Read 1) (\<lambda>n.
        io_bind (read_full S5Read (unat (n ! 0) + 2)) (\<lambda>_. io_return ()))
      else if atyp = 0x04 then io_bind (read_full S5Read 18) (\<lambda>_. io_return ())
      else io_fail (S5Atyp atyp))"

definition s5_connect :: "net_env \<Rightarrow> upstream \<Rightarrow> string \<Rightarrow> int \<Rightarrow> (s5_err, unit) io" where
  "s5_connect env cfg host port =
     (case s5_dest env cfg host of
        Inl e \<Rightarrow> io_fail e
      | Inr dest \<Rightarrow>
          io_bind (write_all S5Write ([0x05, 0x01, 0x00] @ dest @ put_uint16 (word_of_int port))) (\<lambda>_.
          io_bind (read_full S5Read 4) (\<lambda>head.
          io_bind (io_check (head ! 1 \<noteq> 0x00) (S5ConnectFailed (head ! 1))) (\<lambda>_.
            s5_drain (head ! 3)))))"

definition s5_handshake ::
  "net_env \<Rightarrow> upstream \<Rightarrow> string \<Rightarrow> string \<Rightarrow> string \<Rightarrow> int \<Rightarrow> (s5_err, unit) io"
where
  "s5_handshake env cfg username password host port =
     io_bind (s5_greet cfg) (\<lambda>_.
     io_bind (s5_auth cfg username password) (\<lambda>_.
       s5_connect env cfg host port))"

definition finish_dial :: "'e + unit \<Rightarrow> ('e \<Rightarrow> dial_err) \<Rightarrow> conn \<Rightarrow> resolver \<Rightarrow> dial_result" where
  "finish_dial res f c r =
     (case res of Inl e \<Rightarrow> (Inl (f e), Some (close_conn c), r) | Inr _ \<Rightarrow> (Inr c, None, r))"

definition socks5_dial :: "net_env \<Rightarrow> secret_os \<Rightarrow> upstream \<Rightarrow> string \<Rightarrow> resolver \<Rightarrow> dial_result" where
  "socks5_dial env os cfg hostPort r =
     (case split_host_port hostPort of
        Inl _ \<Rightarrow> (Inl (OtherErr ''address''), None, r)
      | Inr (host, portStr) \<Rightarrow>
     (case atoi portStr of
        None \<Rightarrow> (Inl (OtherErr ''port''), None, r)
      | Some port \<Rightarrow>
          if port < 0 \<or> port > 0xFFFF then (Inl (OtherErr ''port out of range''), None, r)
          else (case resolveAuth os r (u_Auth cfg) of
             (Inl _, r) \<Rightarrow> (Inl (OtherErr ''auth''), None, r)
           | (Inr (username, password), r) \<Rightarrow>
               (case n_Dial env (u_Addr cfg) of
                  Inl e \<Rightarrow> (Inl e, None, r)
                | Inr c \<Rightarrow>
                    (case s5_handshake env cfg username password host port c of
                       (res, c) \<Rightarrow> finish_dial res s5_dial_err c r)))))"

section \<open>HTTP CONNECT client\<close>

record http_dialer =
  hd_scheme :: string
  hd_host :: string
  hd_hostname :: string
  hd_cfg :: upstream

definition crlf :: string where
  "crlf = [CHR 0x0D, CHR 0x0A]"

definition http_request :: "upstream \<Rightarrow> string \<Rightarrow> string \<Rightarrow> string \<Rightarrow> string" where
  "http_request cfg username password hostPort =
     ''CONNECT '' @ hostPort @ '' HTTP/1.1'' @ crlf @ ''Host: '' @ hostPort @ crlf
     @ (if u_Auth cfg \<noteq> None
        then ''Proxy-Authorization: Basic '' @ b64_encode (username @ '':'' @ password) @ crlf else [])
     @ crlf"

text \<open>\<open>tlsConfig\<close>: server name, skipping verification, the CA file's contents.\<close>

definition tlsConfig :: "net_env \<Rightarrow> http_dialer \<Rightarrow> string + string \<times> bool \<times> string option" where
  "tlsConfig env d =
     (case u_TLS (hd_cfg d) of
        None \<Rightarrow> Inr (hd_hostname d, False, None)
      | Some t \<Rightarrow>
          if CAFile t = [] then Inr (hd_hostname d, InsecureSkipVerify t, None)
          else rbind (n_ReadCA env (CAFile t)) (\<lambda>pem.
            if n_ValidPEM env pem then Inr (hd_hostname d, InsecureSkipVerify t, Some pem)
            else Inl ''invalid CA pem''))"

definition http_connect_conn :: "net_env \<Rightarrow> http_dialer \<Rightarrow> dial_err + conn" where
  "http_connect_conn env d =
     (if hd_scheme d = ''https'' then
        (case tlsConfig env d of
           Inl e \<Rightarrow> Inl (OtherErr e)
         | Inr (server, skip, ca) \<Rightarrow> n_DialTLS env server skip ca (hd_host d))
      else n_Dial env (hd_host d))"

definition http_handshake :: "net_env \<Rightarrow> upstream \<Rightarrow> string \<Rightarrow> string \<Rightarrow> string \<Rightarrow> (dial_err, unit) io" where
  "http_handshake env cfg username password hostPort =
     io_bind (write_all (\<lambda>_. OtherErr ''write'') (bytes_of (http_request cfg username password hostPort))) (\<lambda>_ c.
       (case n_ReadResponse env (c_in c) of
          None \<Rightarrow> (Inl (OtherErr ''read response''), c)
        | Some resp \<Rightarrow>
            let c = c\<lparr>c_in := drop (hr_buffered resp) (c_in c)\<rparr>
            in if hr_status resp div 100 \<noteq> 2 then (Inl (OtherErr ''upstream CONNECT failed''), c)
               else (Inr (), c)))"

definition http_dial :: "net_env \<Rightarrow> secret_os \<Rightarrow> http_dialer \<Rightarrow> string \<Rightarrow> resolver \<Rightarrow> dial_result" where
  "http_dial env os d hostPort r =
     (case resolveAuth os r (u_Auth (hd_cfg d)) of
        (Inl _, r) \<Rightarrow> (Inl (OtherErr ''auth''), None, r)
      | (Inr (username, password), r) \<Rightarrow>
          (case http_connect_conn env d of
             Inl e \<Rightarrow> (Inl e, None, r)
           | Inr c \<Rightarrow>
               (case http_handshake env (hd_cfg d) username password hostPort c of
                  (res, c) \<Rightarrow> finish_dial res (\<lambda>e. e) c r)))"

section \<open>The dialers\<close>

datatype dialer =
    DirectDialer string
  | Socks5Dialer string upstream
  | HTTPDialer string http_dialer
  | ForwardDialer string string
  | SSHDialer string target "dialer option"
  | OpenConnectDialer string vpn_cfg

fun dialer_name :: "dialer \<Rightarrow> string" where
  "dialer_name (DirectDialer n) = n"
| "dialer_name (Socks5Dialer n _) = n"
| "dialer_name (HTTPDialer n _) = n"
| "dialer_name (ForwardDialer n _) = n"
| "dialer_name (SSHDialer n _ _) = n"
| "dialer_name (OpenConnectDialer n _) = n"

definition no_conn :: "dial_err + conn \<Rightarrow> resolver \<Rightarrow> dial_result" where
  "no_conn res r = (res, None, r)"

definition openconnect_dial :: "net_env \<Rightarrow> secret_os \<Rightarrow> string \<Rightarrow> string \<Rightarrow> resolver \<Rightarrow> dial_result" where
  "openconnect_dial env os name hostPort r =
     (case n_VPN env name of
        Inl e \<Rightarrow> no_conn (Inl e) r
      | Inr addr \<Rightarrow>
          if addr = [] then no_conn (n_TunDial env name hostPort) r
          else socks5_dial env os (zero_upstream\<lparr>u_Addr := addr, u_DNS := ''remote''\<rparr>) hostPort r)"

fun Dial :: "net_env \<Rightarrow> secret_os \<Rightarrow> dialer \<Rightarrow> string \<Rightarrow> resolver \<Rightarrow> dial_result" where
  "Dial env os (DirectDialer _) hostPort r = no_conn (n_Dial env hostPort) r"
| "Dial env os (Socks5Dialer _ cfg) hostPort r = socks5_dial env os cfg hostPort r"
| "Dial env os (HTTPDialer _ d) hostPort r = http_dial env os d hostPort r"
| "Dial env os (ForwardDialer _ addr) hostPort r = no_conn (n_Dial env addr) r"
| "Dial env os (SSHDialer n _ _) hostPort r = no_conn (n_SSHChannel env n hostPort) r"
| "Dial env os (OpenConnectDialer n _) hostPort r = openconnect_dial env os n hostPort r"

section \<open>What the SOCKS5 client sends\<close>

lemma s5_dest_addr:
  assumes "s5_dest env cfg host = Inr dest"
    and ip: "\<And>h b. n_ParseIP env h = Some b \<Longrightarrow> length b \<in> {4, 16}"
      "\<And>h bs b. n_LookupIP env h = Inr bs \<Longrightarrow> b \<in> set bs \<Longrightarrow> length b \<in> {4, 16}"
  obtains a where "addr_valid a" "dest = addr_bytes a" "u_DNS cfg = ''remote'' \<Longrightarrow> a = Domain host"
proof (cases "u_DNS cfg = ''remote''")
  case True
  then show thesis
    using assms(1) by (intro that [of "Domain host"])
      (auto simp: s5_dest_def addr_bytes_def addr_valid_def result_simps)
next
  case False
  have "\<exists>b. length b \<in> {4, 16} \<and> dest = (case to4 b of Some v4 \<Rightarrow> 0x01 # v4 | None \<Rightarrow> 0x04 # b)"
  proof (cases "n_ParseIP env host")
    case (Some b)
    with assms(1) False show ?thesis using ip(1) [OF Some] by (auto simp: s5_dest_def)
  next
    case None
    with assms(1) False obtain ips where l: "n_LookupIP env host = Inr ips"
      by (auto simp: s5_dest_def rbind_Inr_iff)
    with None assms(1) False have "ips \<noteq> []"
      by (auto simp: s5_dest_def)
    then obtain b bs where ips: "ips = b # bs" by (cases ips) auto
    then have "dest = (case to4 b of Some v4 \<Rightarrow> 0x01 # v4 | None \<Rightarrow> 0x04 # b)"
      using assms(1) None l False by (simp add: s5_dest_def)
    then show ?thesis using ip(2) [OF l] ips by auto
  qed
  then obtain b where b: "length b \<in> {4, 16}"
    and d: "dest = (case to4 b of Some v4 \<Rightarrow> 0x01 # v4 | None \<Rightarrow> 0x04 # b)"
    by blast
  show thesis
  proof (cases "to4 b")
    case None
    then have "length b = 16" using b by (auto simp: to4_def)
    then show thesis
      using d None False by (intro that [of "IPv6 b"]) (simp_all add: addr_bytes_def addr_valid_def)
  next
    case (Some v)
    then have "length v = 4" by (auto simp: to4_def is_v4_mapped_def split: if_splits)
    then show thesis
      using d Some False by (intro that [of "IPv4 v"]) (simp_all add: addr_bytes_def addr_valid_def)
  qed
qed

text \<open>
  The whole exchange against a server that accepts: what was written, and what is left to read.
  The credentials' part is empty without authentication.
\<close>

definition s5_auth_sent :: "upstream \<Rightarrow> string \<Rightarrow> string \<Rightarrow> byte list" where
  "s5_auth_sent cfg username password = (if u_Auth cfg = None then [] else s5_auth_bytes username password)"

definition s5_auth_answer :: "upstream \<Rightarrow> byte list" where
  "s5_auth_answer cfg = (if u_Auth cfg = None then [] else [0x01, 0x00])"

lemma s5_handshake_ok:
  assumes room: "c_room c = None"
    and inp: "c_in c = [0x05, s5_method cfg] @ s5_auth_answer cfg @ reply_bytes 0x00 @ rest"
    and dest: "s5_dest env cfg host = Inr dest"
    and len: "length username \<le> 255" "length password \<le> 255"
  shows "s5_handshake env cfg username password host port c =
    (Inr (), c\<lparr>c_in := rest, c_out := c_out c @ [0x05, 0x01, s5_method cfg]
       @ s5_auth_sent cfg username password
       @ [0x05, 0x01, 0x00] @ dest @ put_uint16 (word_of_int port)\<rparr>)"
proof -
  let ?o1 = "c_out c @ [0x05, 0x01, s5_method cfg]"
  let ?o2 = "?o1 @ s5_auth_sent cfg username password"
  let ?o3 = "?o2 @ [0x05, 0x01, 0x00] @ dest @ put_uint16 (word_of_int port)"
  have g: "s5_greet cfg c = (Inr (), c\<lparr>c_in := s5_auth_answer cfg @ reply_bytes 0x00 @ rest, c_out := ?o1\<rparr>)"
    using room inp
    by (simp add: s5_greet_def io_bind_Inr write_all_unlimited
        read_full_append [where bs = "[0x05, s5_method cfg]" and n = 2])
  have a: "s5_auth cfg username password (c\<lparr>c_in := s5_auth_answer cfg @ reply_bytes 0x00 @ rest, c_out := ?o1\<rparr>)
      = (Inr (), c\<lparr>c_in := reply_bytes 0x00 @ rest, c_out := ?o2\<rparr>)"
    using room len
    by (simp add: s5_auth_def s5_auth_sent_def s5_auth_answer_def io_bind_Inr write_all_unlimited
        read_full_append [where bs = "[0x01, 0x00]" and n = 2])
  have k: "s5_connect env cfg host port (c\<lparr>c_in := reply_bytes 0x00 @ rest, c_out := ?o2\<rparr>)
      = (Inr (), c\<lparr>c_in := rest, c_out := ?o3\<rparr>)"
    using room dest
    by (simp add: s5_connect_def s5_drain_def reply_bytes_def io_bind_Inr write_all_unlimited
        read_full_append [where bs = "[0x05, 0, 0, 0x01]" and n = 4]
        read_full_append [where bs = "[0, 0, 0, 0, 0, 0]" and n = 6])
  show ?thesis
    using g a k by (simp add: s5_handshake_def io_bind_def)
qed

text \<open>The client's request, in the server's terms.\<close>

lemma s5_request_bytes:
  "[0x05, 0x01, 0x00] @ addr_bytes a @ put_uint16 w =
     request_bytes \<lparr>q_cmd = cmdConnect, q_addr = a, q_port = w\<rparr>"
  by (simp add: request_bytes_def)

lemma s5_greeting_bytes: "[0x05, 0x01, m] = greeting_bytes [m]"
  by (simp add: greeting_bytes_def byte_of_nat_def)

section \<open>A failed dial leaves no open connection behind\<close>

definition leaks :: "dial_result \<Rightarrow> bool" where
  "leaks res \<longleftrightarrow> (case fst (snd res) of None \<Rightarrow> False | Some c \<Rightarrow> \<not> c_closed c)"

lemma finish_dial_no_leak: "\<not> leaks (finish_dial res f c r)"
  by (cases res) (simp_all add: finish_dial_def leaks_def close_conn_def)

lemma socks5_dial_no_leak: "\<not> leaks (socks5_dial env os cfg hostPort r)"
  using finish_dial_no_leak
  by (auto simp: socks5_dial_def split: sum.splits option.splits prod.splits) (auto simp: leaks_def)

lemma http_dial_no_leak: "\<not> leaks (http_dial env os d hostPort r)"
  using finish_dial_no_leak
  by (auto simp: http_dial_def split: sum.splits prod.splits) (auto simp: leaks_def)

lemma Dial_no_leak: "\<not> leaks (Dial env os d hostPort r)"
  by (cases d) (auto simp: socks5_dial_no_leak http_dial_no_leak openconnect_dial_def no_conn_def
      split: sum.splits, auto simp: leaks_def)

section \<open>Where a dialer connects to\<close>

text \<open>
  The addresses a dialer may open a TCP connection to for a target. A dialer's result depends on
  the network at these addresses only, so nothing else is contacted.
\<close>

definition contacts :: "net_env \<Rightarrow> dialer \<Rightarrow> string \<Rightarrow> string set" where
  "contacts env d hostPort =
     (case d of
        DirectDialer _ \<Rightarrow> {hostPort}
      | Socks5Dialer _ cfg \<Rightarrow> {u_Addr cfg}
      | HTTPDialer _ h \<Rightarrow> {hd_host h}
      | ForwardDialer _ addr \<Rightarrow> {addr}
      | SSHDialer _ _ _ \<Rightarrow> {}
      | OpenConnectDialer n _ \<Rightarrow> (case n_VPN env n of Inr a \<Rightarrow> {a} | Inl _ \<Rightarrow> {}))"

definition agree_on :: "string set \<Rightarrow> net_env \<Rightarrow> net_env \<Rightarrow> bool" where
  "agree_on A env env' \<longleftrightarrow> (\<exists>f. env' = env\<lparr>n_Dial := f\<rparr> \<and> (\<forall>a \<in> A. f a = n_Dial env a))"

lemma s5_dest_net: "s5_dest (env\<lparr>n_Dial := f\<rparr>) = s5_dest env"
  by (intro ext) (simp add: s5_dest_def cong: option.case_cong)

lemma s5_handshake_net: "s5_handshake (env\<lparr>n_Dial := f\<rparr>) = s5_handshake env"
  by (intro ext) (simp add: s5_handshake_def s5_connect_def s5_dest_net)

lemma socks5_dial_contacts:
  "f (u_Addr cfg) = n_Dial env (u_Addr cfg) \<Longrightarrow>
     socks5_dial (env\<lparr>n_Dial := f\<rparr>) os cfg hostPort r = socks5_dial env os cfg hostPort r"
  by (auto simp: socks5_dial_def s5_handshake_net split: sum.splits option.splits prod.splits)

lemma tlsConfig_net: "tlsConfig (env\<lparr>n_Dial := f\<rparr>) d = tlsConfig env d"
  by (auto simp: tlsConfig_def split: option.splits)

lemma http_handshake_net: "http_handshake (env\<lparr>n_Dial := f\<rparr>) = http_handshake env"
  by (intro ext) (simp add: http_handshake_def)

lemma http_dial_contacts:
  "f (hd_host d) = n_Dial env (hd_host d) \<Longrightarrow>
     http_dial (env\<lparr>n_Dial := f\<rparr>) os d hostPort r = http_dial env os d hostPort r"
  by (auto simp: http_dial_def http_connect_conn_def http_handshake_net tlsConfig_net
      split: sum.splits prod.splits)

lemma Dial_contacts:
  assumes "agree_on (contacts env d hostPort) env env'"
  shows "Dial env' os d hostPort r = Dial env os d hostPort r"
proof -
  obtain f where f: "env' = env\<lparr>n_Dial := f\<rparr>" "\<forall>a \<in> contacts env d hostPort. f a = n_Dial env a"
    using assms by (auto simp: agree_on_def)
  then show ?thesis
    by (cases d) (auto simp: contacts_def no_conn_def openconnect_dial_def socks5_dial_contacts
        http_dial_contacts split: sum.splits)
qed

text \<open>With remote DNS the SOCKS5 dialer never resolves the name locally.\<close>

lemma s5_dest_remote_dns:
  "u_DNS cfg = ''remote'' \<Longrightarrow> s5_dest (env\<lparr>n_LookupIP := f, n_ParseIP := g\<rparr>) cfg = s5_dest env cfg"
  by (intro ext) (simp add: s5_dest_def)

lemma socks5_dial_remote_dns:
  "u_DNS cfg = ''remote'' \<Longrightarrow>
     socks5_dial (env\<lparr>n_LookupIP := f, n_ParseIP := g\<rparr>) os cfg hostPort r = socks5_dial env os cfg hostPort r"
  by (auto simp: socks5_dial_def s5_handshake_def s5_connect_def s5_dest_remote_dns
      split: sum.splits option.splits prod.splits)

section \<open>Properties\<close>

text \<open>C10. Client and server agree: the bytes the SOCKS5 dialer writes for a name and a port, with remote
  DNS and no credentials, make the inbound SOCKS5 server dial exactly that name and port, and the
  bytes that server answers with make the dialer succeed with the tunnel's bytes next to read.\<close>

theorem socks5_client_meets_server:
  assumes "u_Auth cfg = None" "u_DNS cfg = ''remote''" "length host \<le> 255" "0 \<le> port" "port \<le> 65535"
    and "c_room up = None" "dial (pick host) (join_host_port host (itoa port)) = Inr up"
  shows "\<exists>sent. s5_handshake env cfg [] [] host port
        (stream_conn ([0x05, 0x00] @ reply_bytes 0x00 @ c_in up)) =
      (Inr (), (stream_conn (c_in up))\<lparr>c_out := sent\<rparr>)
    \<and> handle pick dial (stream_conn (sent @ payload)) =
      (Relayed (pick host) (join_host_port host (itoa port)) (length payload) (length (c_in up)),
       \<lparr>c_in = [], c_out = [0x05, 0x00] @ reply_bytes 0x00 @ c_in up, c_room = None, c_closed = True\<rparr>,
       Some (up\<lparr>c_in := [], c_out := c_out up @ payload, c_closed := True\<rparr>))"
proof -
  let ?q = "\<lparr>q_cmd = cmdConnect, q_addr = Domain host, q_port = word_of_int port\<rparr>"
  let ?sent = "greeting_bytes [0x00] @ request_bytes ?q"
  let ?c = "stream_conn ([0x05, 0x00] @ reply_bytes 0x00 @ c_in up)"
  have p: "unat (word_of_int port :: 16 word) = nat port"
    using assms(4,5) by (simp add: unat_eq_nat_uint uint_word_of_int_eq take_bit_int_eq_self)
  have d: "s5_dest env cfg host = Inr (addr_bytes (Domain host))"
    using assms(2,3) by (simp add: s5_dest_def addr_bytes_def guard_err_def)
  have "s5_handshake env cfg [] [] host port ?c = (Inr (), ?c\<lparr>c_in := c_in up,
      c_out := c_out ?c @ [0x05, 0x01, s5_method cfg] @ s5_auth_sent cfg [] []
        @ [0x05, 0x01, 0x00] @ addr_bytes (Domain host) @ put_uint16 (word_of_int port)\<rparr>)"
    using assms(1) by (intro s5_handshake_ok [OF _ _ d]) (simp_all add: stream_conn_def s5_method_def s5_auth_answer_def)
  then have "s5_handshake env cfg [] [] host port ?c = (Inr (), (stream_conn (c_in up))\<lparr>c_out := ?sent\<rparr>)"
    using assms(1) s5_request_bytes [of "Domain host" "word_of_int port"] s5_greeting_bytes [of 0]
    by (simp add: stream_conn_def s5_method_def s5_auth_sent_def)
  moreover have "handle pick dial (stream_conn (?sent @ payload)) =
      (Relayed (pick host) (join_host_port host (itoa port)) (length payload) (length (c_in up)),
       \<lparr>c_in = [], c_out = [0x05, 0x00] @ reply_bytes 0x00 @ c_in up, c_room = None, c_closed = True\<rparr>,
       Some (up\<lparr>c_in := [], c_out := c_out up @ payload, c_closed := True\<rparr>))"
    using assms handle_relays [of "stream_conn (?sent @ payload)" "[0x00]" ?q payload up dial pick] p
    by (simp add: stream_conn_def greeting_valid_def request_valid_def addr_valid_def addr_host_def itoa_def)
  ultimately show ?thesis by blast
qed

definition sample_net :: net_env where
  "sample_net = \<lparr>n_Dial = (\<lambda>_. Inl (NetErr True)), n_DialTLS = (\<lambda>_ _ _ _. Inl (NetErr False)),
     n_ParseIP = (\<lambda>_. None), n_LookupIP = (\<lambda>_. Inl (NetErr False)), n_ReadResponse = (\<lambda>_. None),
     n_ReadCA = (\<lambda>_. Inl ''no such file''), n_ValidPEM = (\<lambda>_. False),
     n_SSHChannel = (\<lambda>_ _. Inl (OtherErr ''down'')), n_VPN = (\<lambda>_. Inl (OtherErr ''down'')),
     n_TunDial = (\<lambda>_ _. Inl (NetErr True))\<rparr>"

lemma socks5_client_meets_server_witness:
  "\<exists>sent. s5_handshake sample_net (zero_upstream\<lparr>u_DNS := ''remote''\<rparr>) [] [] ''db.example'' 5432
        (stream_conn ([0x05, 0x00] @ reply_bytes 0x00 @ [1, 2])) =
      (Inr (), (stream_conn [1, 2])\<lparr>c_out := sent\<rparr>)
    \<and> fst (handle (\<lambda>h. h) (\<lambda>_ _. Inr (stream_conn [1, 2])) (stream_conn (sent @ [3]))) =
      Relayed ''db.example'' (join_host_port ''db.example'' (itoa 5432)) 1 2"
  using socks5_client_meets_server [of "zero_upstream\<lparr>u_DNS := ''remote''\<rparr>" "''db.example''" 5432
      "stream_conn [1, 2]" "\<lambda>_ _. Inr (stream_conn [1, 2])" "\<lambda>h. h" sample_net "[3]"]
  by (auto simp: zero_upstream_def stream_conn_def)




text \<open>With remote DNS the SOCKS5 dialer resolves nothing locally: neither the parser of IP literals
  nor the resolver is consulted, so the name reaches only the upstream.\<close>

theorem socks5_remote_dns_private:
  assumes "u_DNS cfg = ''remote''"
  shows "Dial (env\<lparr>n_LookupIP := f, n_ParseIP := g\<rparr>) os (Socks5Dialer n cfg) hostPort r
    = Dial env os (Socks5Dialer n cfg) hostPort r"
  using socks5_dial_remote_dns [OF assms] by simp

lemma socks5_remote_dns_private_witness:
  "Dial (sample_net\<lparr>n_LookupIP := \<lambda>_. Inr [[10, 0, 0, 1]], n_ParseIP := \<lambda>_. None\<rparr>) sample_os
     (Socks5Dialer ''corp'' (zero_upstream\<lparr>u_DNS := ''remote''\<rparr>)) ''db.example:5432'' (secret_new [])
   = Dial sample_net sample_os
     (Socks5Dialer ''corp'' (zero_upstream\<lparr>u_DNS := ''remote''\<rparr>)) ''db.example:5432'' (secret_new [])"
  by (rule socks5_remote_dns_private) simp

text \<open>The HTTP dialer loses tunnel bytes: when the reader of the response took \<open>k\<close> bytes past the
  header off the connection, a successful CONNECT returns a connection whose first \<open>k\<close> tunnel
  bytes are gone.\<close>

theorem http_handshake_drops_buffered:
  assumes "c_room c = None" "c_in c = header @ tunnel" "n_ReadResponse env (c_in c) = Some resp"
    and "hr_status resp = 200" "hr_buffered resp = length header + k"
  shows "\<exists>c'. http_handshake env cfg user pass hostPort c = (Inr (), c') \<and> c_in c' = drop k tunnel"
  using assms by (simp add: http_handshake_def io_bind_def write_all_def)

lemma http_handshake_drops_buffered_witness:
  "\<exists>c'. http_handshake (sample_net\<lparr>n_ReadResponse :=
       \<lambda>bs. Some \<lparr>hr_status = 200, hr_header_len = 3, hr_buffered = length bs\<rparr>\<rparr>)
      zero_upstream [] [] ''db.example:5432'' (stream_conn ([72, 13, 10] @ [1, 2])) = (Inr (), c')
     \<and> c_in c' = []"
  using http_handshake_drops_buffered [where c = "stream_conn ([72, 13, 10] @ [1, 2])"
      and header = "[72, 13, 10]" and tunnel = "[1, 2]" and k = 2
      and env = "sample_net\<lparr>n_ReadResponse := \<lambda>bs. Some \<lparr>hr_status = 200, hr_header_len = 3, hr_buffered = length bs\<rparr>\<rparr>"
      and resp = "\<lparr>hr_status = 200, hr_header_len = 3, hr_buffered = 5\<rparr>"]
  by (simp add: stream_conn_def)

end
