(* ===== verification/Registry.thy ===== *)
theory Registry
  imports Upstream
begin

text \<open>
  \<open>pkg/upstream/registry.go\<close> and the constructors of the dialers: every upstream of a configuration
  becomes a named dialer, ssh upstreams in a second pass so that the upstream they go through
  exists. Each pass visits the map in an order of its own, so the two lists are arguments.
\<close>

section \<open>url.URL\<close>

definition valid_optional_port :: "string \<Rightarrow> bool" where
  "valid_optional_port s \<longleftrightarrow> s = [] \<or> (hd s = CHR '':'' \<and> list_all is_digit (tl s))"

text \<open>\<open>Hostname\<close> and \<open>Port\<close> of a URL with this host part.\<close>

definition url_split_host :: "string \<Rightarrow> string \<times> string" where
  "url_split_host s =
     (let (host, port) = (case last_index_of (CHR '':'') s of
            None \<Rightarrow> (s, [])
          | Some i \<Rightarrow> if valid_optional_port (drop i s) then (take i s, drop (Suc i) s) else (s, []))
      in (if has_prefix ''['' host \<and> has_suffix '']'' host then butlast (tl host) else host, port))"

section \<open>Data\<close>

record build_env =
  be_url :: url_parser
  be_ssh :: ssh_host
  be_vpn :: vpn_host

datatype reg_err =
    RegSecret sec_err
  | RegURL
  | RegURLHost
  | RegSSH target_err
  | RegVPN vpn_err
  | RegType string

record registry =
  rg_byName :: "(string \<times> dialer) list"
  rg_direct :: dialer

section \<open>Constructors\<close>

definition NewHTTP :: "url_parser \<Rightarrow> string \<Rightarrow> upstream \<Rightarrow> reg_err + dialer" where
  "NewHTTP urlp name u =
     (case urlp (u_URL u) of
        None \<Rightarrow> Inl RegURL
      | Some p \<Rightarrow>
          if url_Host p = [] then Inl RegURLHost
          else Inr (HTTPDialer name \<lparr>hd_scheme = url_Scheme p, hd_host = url_Host p,
                 hd_hostname = fst (url_split_host (url_Host p)), hd_cfg = u\<rparr>))"

definition NewSSH ::
  "ssh_host \<Rightarrow> string \<Rightarrow> upstream \<Rightarrow> dialer option \<Rightarrow> resolver \<Rightarrow> (reg_err + dialer) \<times> resolver"
where
  "NewSSH h name u via r =
     (case target_new h u of
        Inl e \<Rightarrow> (Inl (RegSSH e), r)
      | Inr t \<Rightarrow>
          (case target_validate h t r of
             (Inl e, r) \<Rightarrow> (Inl (RegSSH e), r)
           | (Inr _, r) \<Rightarrow> (Inr (SSHDialer name t via), r)))"

definition NewOpenConnect :: "vpn_host \<Rightarrow> string \<Rightarrow> upstream \<Rightarrow> reg_err + dialer" where
  "NewOpenConnect h name u = rbind (wrap_err RegVPN (vpn_new h u)) (\<lambda>c. Inr (OpenConnectDialer name c))"

section \<open>The registry\<close>

definition secret_refs :: "upstream \<Rightarrow> string list" where
  "secret_refs u = u_KeyFilePassphrase u #
     (case u_Auth u of None \<Rightarrow> [] | Some a \<Rightarrow> [a_Username a, a_Password a])"

definition build ::
  "build_env \<Rightarrow> (string \<times> dialer) list \<Rightarrow> string \<Rightarrow> upstream \<Rightarrow> resolver \<Rightarrow> (reg_err + dialer) \<times> resolver"
where
  "build env byName name u r =
     (case check_all (\<lambda>ref. wrap_err RegSecret (Check (sh_secret (be_ssh env)) r ref)) (secret_refs u) of
        Inl e \<Rightarrow> (Inl e, r)
      | Inr _ \<Rightarrow>
          if u_Type u = UpstreamDirect then (Inr (DirectDialer name), r)
          else if u_Type u = UpstreamSocks5 then (Inr (Socks5Dialer name u), r)
          else if u_Type u = UpstreamHTTP then (NewHTTP (be_url env) name u, r)
          else if u_Type u = UpstreamForward then (Inr (ForwardDialer name (u_Addr u)), r)
          else if u_Type u = UpstreamSSH then
            NewSSH (be_ssh env) name u (if u_Via u \<noteq> [] then map_of byName (u_Via u) else None) r
          else if u_Type u = UpstreamOpenConnect then (NewOpenConnect (be_vpn env) name u, r)
          else (Inl (RegType (u_Type u)), r))"

text \<open>One pass over the map. An error also yields what was registered so far, which is then closed.\<close>

fun build_pass ::
  "build_env \<Rightarrow> bool \<Rightarrow> (string \<times> upstream) list \<Rightarrow> (string \<times> dialer) list \<Rightarrow> resolver
     \<Rightarrow> ((string \<times> reg_err \<times> (string \<times> dialer) list) + (string \<times> dialer) list) \<times> resolver"
where
  "build_pass env sshPass [] byName r = (Inr byName, r)"
| "build_pass env sshPass ((name, u) # ups) byName r =
     (if (u_Type u = UpstreamSSH) \<noteq> sshPass then build_pass env sshPass ups byName r
      else (case build env byName name u r of
              (Inl e, r) \<Rightarrow> (Inl (name, e, byName), r)
            | (Inr d, r) \<Rightarrow> build_pass env sshPass ups (put byName name d) r))"

text \<open>The dialers \<open>Close\<close> acts on: those that hold a connection or a process.\<close>

fun closes :: "dialer \<Rightarrow> bool" where
  "closes (SSHDialer _ _ _) = True"
| "closes (OpenConnectDialer _ _) = True"
| "closes _ = False"

definition reg_Close :: "(string \<times> dialer) list \<Rightarrow> dialer list" where
  "reg_Close byName = filter closes (map snd byName)"

definition NewRegistry ::
  "build_env \<Rightarrow> (string \<times> upstream) list \<Rightarrow> (string \<times> upstream) list \<Rightarrow> resolver
     \<Rightarrow> ((string \<times> reg_err \<times> dialer list) + registry) \<times> resolver"
where
  "NewRegistry env ups1 ups2 r =
     (case build_pass env False ups1 [] r of
        (Inl (name, e, byName), r) \<Rightarrow> (Inl (name, e, reg_Close byName), r)
      | (Inr byName, r) \<Rightarrow>
          (case build_pass env True ups2 byName r of
             (Inl (name, e, byName), r) \<Rightarrow> (Inl (name, e, reg_Close byName), r)
           | (Inr byName, r) \<Rightarrow> (Inr \<lparr>rg_byName = byName, rg_direct = DirectDialer ''direct''\<rparr>, r)))"

definition Get :: "registry \<Rightarrow> string \<Rightarrow> dialer option" where
  "Get reg name = map_of (rg_byName reg) name"

definition Direct :: "registry \<Rightarrow> dialer" where
  "Direct reg = rg_direct reg"

section \<open>What a dialer is built from\<close>

text \<open>The dialer an upstream becomes; \<open>via\<close> looks up the dialer an ssh upstream goes through.\<close>

definition dialer_for :: "build_env \<Rightarrow> (string \<Rightarrow> dialer option) \<Rightarrow> string \<Rightarrow> upstream \<Rightarrow> dialer \<Rightarrow> bool" where
  "dialer_for env via name u d \<longleftrightarrow>
     (case d of
        DirectDialer n \<Rightarrow> n = name \<and> u_Type u = UpstreamDirect
      | Socks5Dialer n u' \<Rightarrow> n = name \<and> u_Type u = UpstreamSocks5 \<and> u' = u
      | HTTPDialer n h \<Rightarrow> n = name \<and> u_Type u = UpstreamHTTP \<and> hd_cfg h = u \<and> hd_host h \<noteq> []
      | ForwardDialer n a \<Rightarrow> n = name \<and> u_Type u = UpstreamForward \<and> a = u_Addr u
      | SSHDialer n t v \<Rightarrow> n = name \<and> u_Type u = UpstreamSSH \<and> target_new (be_ssh env) u = Inr t
          \<and> v = (if u_Via u \<noteq> [] then via (u_Via u) else None)
      | OpenConnectDialer n c \<Rightarrow> n = name \<and> u_Type u = UpstreamOpenConnect \<and> vpn_new (be_vpn env) u = Inr c)"

lemma build_Inr:
  assumes "build env byName name u r = (Inr d, r')"
  shows "dialer_for env (map_of byName) name u d"
  using assms
  by (auto simp: build_def NewHTTP_def NewSSH_def NewOpenConnect_def dialer_for_def rbind_Inr_iff
      split: sum.splits option.splits prod.splits if_splits)

lemma dialer_for_non_ssh:
  "u_Type u \<noteq> UpstreamSSH \<Longrightarrow> dialer_for env v name u d \<longleftrightarrow> dialer_for env v' name u d"
  by (cases d) (simp_all add: dialer_for_def)

lemma dialer_for_via:
  "v (u_Via u) = v' (u_Via u) \<Longrightarrow> dialer_for env v name u d \<longleftrightarrow> dialer_for env v' name u d"
  by (cases d) (simp_all add: dialer_for_def)

lemma dialer_for_name: "dialer_for env v name u d \<Longrightarrow> dialer_name d = name"
  by (cases d) (simp_all add: dialer_for_def)

text \<open>A pass registers a dialer for each upstream of its kind and leaves the other names alone.\<close>

lemma build_pass_frame:
  "build_pass env sshPass ups byName r = (Inr byName', r') \<Longrightarrow>
     name \<notin> fst ` {p \<in> set ups. (u_Type (snd p) = UpstreamSSH) = sshPass} \<Longrightarrow>
     map_of byName' name = map_of byName name"
proof (induction ups arbitrary: byName r)
  case (Cons p ups)
  obtain n u where p: "p = (n, u)" by force
  show ?case
  proof (cases "(u_Type u = UpstreamSSH) = sshPass")
    case False
    then show ?thesis using Cons p by auto
  next
    case True
    then obtain d r1 where rest: "build_pass env sshPass ups (put byName n d) r1 = (Inr byName', r')"
      using Cons.prems(1) p by (auto split: prod.splits sum.splits)
    have "n \<in> fst ` {q \<in> set (p # ups). (u_Type (snd q) = UpstreamSSH) = sshPass}"
      by (rule image_eqI [of _ _ "(n, u)"]) (use True p in simp_all)
    with Cons.prems(2) have "name \<noteq> n" by metis
    have "name \<notin> fst ` {q \<in> set ups. (u_Type (snd q) = UpstreamSSH) = sshPass}" using Cons.prems(2) by auto
    from Cons.IH [OF rest this] \<open>name \<noteq> n\<close> show ?thesis by simp
  qed
qed simp

lemma build_pass_builds:
  assumes "build_pass env sshPass ups byName r = (Inr byName', r')" "wf_map ups"
    and "(name, u) \<in> set ups" "(u_Type u = UpstreamSSH) = sshPass"
    and "sshPass \<Longrightarrow> u_Via u \<noteq> [] \<Longrightarrow> \<forall>u'. (u_Via u, u') \<in> set ups \<longrightarrow> u_Type u' \<noteq> UpstreamSSH"
  shows "\<exists>d. map_of byName' name = Some d \<and> dialer_for env (map_of byName) name u d"
  using assms
proof (induction ups arbitrary: byName r)
  case (Cons p ups)
  obtain n u' where p: "p = (n, u')" by force
  have wf: "wf_map ups" "n \<notin> fst ` set ups"
    using Cons.prems(2) by (auto simp: wf_map_def keys_def p)
  show ?case
  proof (cases "p = (name, u)")
    case True
    then obtain d r1 where b: "build env byName name u r = (Inr d, r1)"
      and rest: "build_pass env sshPass ups (put byName name d) r1 = (Inr byName', r')"
      using Cons.prems(1,4) p by (auto split: prod.splits sum.splits)
    have "name \<notin> fst ` {p \<in> set ups. (u_Type (snd p) = UpstreamSSH) = sshPass}"
      using wf(2) True p by auto
    from build_pass_frame [OF rest this] build_Inr [OF b] show ?thesis by simp
  next
    case False
    then have in_ups: "(name, u) \<in> set ups" using Cons.prems(3) p by auto
    have via: "sshPass \<Longrightarrow> u_Via u \<noteq> [] \<Longrightarrow> \<forall>u'. (u_Via u, u') \<in> set ups \<longrightarrow> u_Type u' \<noteq> UpstreamSSH"
      using Cons.prems(5) by auto
    show ?thesis
    proof (cases "(u_Type u' = UpstreamSSH) = sshPass")
      case False
      then show ?thesis using Cons.IH [OF _ wf(1) in_ups Cons.prems(4) via] Cons.prems(1) p by auto
    next
      case True
      then obtain d r1 where rest: "build_pass env sshPass ups (put byName n d) r1 = (Inr byName', r')"
        using Cons.prems(1) p by (auto split: prod.splits sum.splits)
      from Cons.IH [OF rest wf(1) in_ups Cons.prems(4) via] obtain d' where
        d': "map_of byName' name = Some d'" "dialer_for env (map_of (put byName n d)) name u d'" by blast
      have "dialer_for env (map_of byName) name u d'"
      proof (cases "u_Type u = UpstreamSSH \<and> u_Via u \<noteq> []")
        case ssh: True
        then have "n \<noteq> u_Via u" using True Cons.prems(4,5) p by auto
        then show ?thesis using d'(2) by (subst dialer_for_via [where v' = "map_of (put byName n d)"]) auto
      next
        case no_via: False
        show ?thesis
        proof (cases "u_Type u = UpstreamSSH")
          case True
          with no_via d'(2) show ?thesis by (cases d') (auto simp: dialer_for_def)
        qed (use d'(2) dialer_for_non_ssh in blast)
      qed
      with d'(1) show ?thesis by blast
    qed
  qed
qed simp

section \<open>What the registry holds\<close>

lemma NewRegistry_cases:
  assumes "NewRegistry env ups1 ups2 r = (Inr reg, r')"
  obtains byName r1 where "build_pass env False ups1 [] r = (Inr byName, r1)"
    "build_pass env True ups2 byName r1 = (Inr (rg_byName reg), r')" "rg_direct reg = DirectDialer ''direct''"
  using assms by (auto simp: NewRegistry_def split: prod.splits sum.splits)

lemma build_pass_unknown:
  "build_pass env sshPass ups byName r = (Inr byName', r') \<Longrightarrow> name \<notin> set (keys ups) \<Longrightarrow>
     map_of byName' name = map_of byName name"
  by (rule build_pass_frame) (auto simp: keys_def)

lemma NewRegistry_dialers:
  assumes new: "NewRegistry env ups1 ups2 r = (Inr reg, r')"
    and wf: "wf_map ups1" "wf_map ups2" and same: "map_of ups1 = map_of ups2"
    and via: "\<And>n u. map_of ups1 n = Some u \<Longrightarrow> valid_via ups1 u \<and> (u_Type u \<noteq> UpstreamSSH \<longrightarrow> u_Via u = [])"
    and u: "map_of ups1 name = Some u"
  shows "\<exists>d. Get reg name = Some d \<and> dialer_for env (Get reg) name u d"
proof -
  from NewRegistry_cases [OF new] obtain byName r1 where
    p1: "build_pass env False ups1 [] r = (Inr byName, r1)" and
    p2: "build_pass env True ups2 byName r1 = (Inr (rg_byName reg), r')" .
  have keep: "Get reg n = map_of byName n" if "\<And>u. map_of ups1 n = Some u \<Longrightarrow> u_Type u \<noteq> UpstreamSSH" for n
    unfolding Get_def
    by (rule build_pass_frame [OF p2]) (use that same wf wf_map_of_iff in fastforce)
  show ?thesis
  proof (cases "u_Type u = UpstreamSSH")
    case False
    have "(name, u) \<in> set ups1" using u wf_map_of_iff [OF wf(1)] by simp
    from build_pass_builds [OF p1 wf(1) this] False obtain d where
      d: "map_of byName name = Some d" "dialer_for env (map_of []) name u d" by auto
    have "Get reg name = map_of byName name" using u False by (intro keep) auto
    with d dialer_for_non_ssh [OF False, of env "map_of []" name d "Get reg"] show ?thesis by auto
  next
    case True
    have "(name, u) \<in> set ups2" using u same wf_map_of_iff [OF wf(2)] by simp
    moreover have "\<forall>u'. (u_Via u, u') \<in> set ups2 \<longrightarrow> u_Type u' \<noteq> UpstreamSSH" if "u_Via u \<noteq> []"
      using via [OF u] that same by (auto simp: valid_via_def simp flip: wf_map_of_iff [OF wf(2)])
    ultimately obtain d where d: "map_of (rg_byName reg) name = Some d" "dialer_for env (map_of byName) name u d"
      using build_pass_builds [OF p2 wf(2), of name u] True by auto
    have "dialer_for env (Get reg) name u d"
    proof (cases "u_Via u = []")
      case True
      with d(2) show ?thesis by (cases d) (auto simp: dialer_for_def)
    next
      case False
      then obtain t where t: "map_of ups1 (u_Via u) = Some t" "u_Type t \<noteq> UpstreamSSH"
        using via [OF u] by (auto simp: valid_via_def)
      then have "Get reg (u_Via u) = map_of byName (u_Via u)" by (intro keep) auto
      with d(2) show ?thesis using dialer_for_via [of "Get reg" u "map_of byName" env name d] by simp
    qed
    with d(1) show ?thesis by (auto simp: Get_def)
  qed
qed

lemma NewRegistry_other:
  assumes "NewRegistry env ups1 ups2 r = (Inr reg, r')" "map_of ups1 = map_of ups2" "map_of ups1 name = None"
  shows "Get reg name = None"
proof -
  from NewRegistry_cases [OF assms(1)] obtain byName r1 where
    p1: "build_pass env False ups1 [] r = (Inr byName, r1)" and
    p2: "build_pass env True ups2 byName r1 = (Inr (rg_byName reg), r')" .
  have "name \<notin> set (keys ups1)" "name \<notin> set (keys ups2)"
    using assms(2,3) by (simp_all flip: map_of_eq_None_keys)
  then show ?thesis using build_pass_unknown [OF p1] build_pass_unknown [OF p2] by (simp add: Get_def)
qed

section \<open>Which errors remain after validation\<close>

lemma build_valid_err:
  assumes "valid_upstream urlp u" "build env byName name u r = (Inl e, r')"
  shows "(\<nexists>t. e = RegType t) \<and> e \<noteq> RegVPN NilAuth"
proof -
  have "vpn_new h u \<noteq> Inl NilAuth" if "valid_openconnect urlp u" for h
    using vpn_new_not_nil [OF that] .
  then show ?thesis
    using assms by (auto simp: build_def valid_upstream_def NewHTTP_def NewSSH_def NewOpenConnect_def
        rbind_Inl_iff wrap_err_def split: sum.splits option.splits prod.splits if_splits
        dest!: check_all_Inl)
qed

lemma build_pass_err:
  assumes "build_pass env sshPass ups byName r = (Inl (name, e, m), r')"
  shows "\<exists>u byName r1 r2. (name, u) \<in> set ups \<and> build env byName name u r1 = (Inl e, r2)"
  using assms
proof (induction ups arbitrary: byName r)
  case (Cons p ups)
  obtain n u where p: "p = (n, u)" by force
  show ?case
  proof (cases "(u_Type u = UpstreamSSH) = sshPass")
    case False
    then show ?thesis using Cons p by fastforce
  next
    case True
    then show ?thesis
      using Cons p by (cases "build env byName n u r") (fastforce split: sum.splits)
  qed
qed simp

lemma NewRegistry_err:
  assumes "NewRegistry env ups1 ups2 r = (Inl (name, e, closed), r')"
  shows "\<exists>u byName r1 r2. (name, u) \<in> set ups1 \<union> set ups2 \<and> build env byName name u r1 = (Inl e, r2)"
  using assms by (auto simp: NewRegistry_def split: prod.splits sum.splits) (blast dest: build_pass_err)+

end
