(* ===== verification/Cli.thy ===== *)
theory Cli
  imports Load
begin

text \<open>
  \<open>internal/cli/serve.go\<close>, the configuration half: the \<open>--upstream\<close> and \<open>--rule\<close> flags are
  parsed and merged over the loaded configuration, which is then validated. (The serving half
  of the command is in the theory Serve.)
\<close>

record serve_flags =
  f_configPath :: string
  f_listen :: string
  f_logLevel :: string
  f_upstreams :: "string list"
  f_rules :: "string list"

datatype cli_err =
    CliLoad load_err
  | CliUpstreamSyntax string
  | CliUpstreamURL string string
  | CliSSH string ssh_flag_err
  | CliRule string
  | CliInvalid cfg_err
and ssh_flag_err = SSHHostRequired | SSHPort string

text \<open>\<open>strings.IndexByte(s, '=')\<close> with the test \<open>i <= 0\<close>: the text before and after the sign.\<close>

definition split_eq :: "string \<Rightarrow> (string \<times> string) option" where
  "split_eq s = (case index_of (CHR ''='') s of
     None \<Rightarrow> None
   | Some i \<Rightarrow> if i = 0 then None else Some (take i s, drop (Suc i) s))"

definition parseSSHUpstream :: "string \<Rightarrow> ssh_flag_err + upstream" where
  "parseSSHUpstream raw =
     (if raw = [] then Inl SSHHostRequired
      else (case split_host_port raw of
              Inl _ \<Rightarrow> Inr (zero_upstream\<lparr>u_Type := UpstreamSSH, u_Host := raw\<rparr>)
            | Inr (host, portStr) \<Rightarrow>
                (case atoi portStr of
                   None \<Rightarrow> Inl (SSHPort portStr)
                 | Some port \<Rightarrow>
                     Inr (zero_upstream\<lparr>u_Type := UpstreamSSH, u_Host := host, u_Port := port\<rparr>))))"

definition parseUpstreamFlag :: "string \<Rightarrow> cli_err + string \<times> upstream" where
  "parseUpstreamFlag s =
     (case split_eq s of
        None \<Rightarrow> Inl (CliUpstreamSyntax s)
      | Some (name, raw) \<Rightarrow>
          if has_prefix ''socks5://'' raw then
            Inr (name, zero_upstream\<lparr>u_Type := UpstreamSocks5, u_Addr := trim_prefix ''socks5://'' raw\<rparr>)
          else if has_prefix ''http://'' raw \<or> has_prefix ''https://'' raw then
            Inr (name, zero_upstream\<lparr>u_Type := UpstreamHTTP, u_URL := raw\<rparr>)
          else if has_prefix ''ssh://'' raw then
            (case parseSSHUpstream (trim_prefix ''ssh://'' raw) of
               Inl e \<Rightarrow> Inl (CliSSH name e)
             | Inr u \<Rightarrow> Inr (name, u))
          else if has_prefix ''forward://'' raw then
            Inr (name, zero_upstream\<lparr>u_Type := UpstreamForward, u_Addr := trim_prefix ''forward://'' raw\<rparr>)
          else if raw = ''direct'' then Inr (name, zero_upstream\<lparr>u_Type := UpstreamDirect\<rparr>)
          else Inl (CliUpstreamURL name raw))"

fun add_upstream_flags :: "(string \<times> upstream) list \<Rightarrow> string list \<Rightarrow> cli_err + (string \<times> upstream) list" where
  "add_upstream_flags ups [] = Inr ups"
| "add_upstream_flags ups (f # fs) =
     rbind (parseUpstreamFlag f) (\<lambda>(name, u). add_upstream_flags (put ups name u) fs)"

fun add_rule_flags :: "cfg_rule list \<Rightarrow> string list \<Rightarrow> cli_err + cfg_rule list" where
  "add_rule_flags rs [] = Inr rs"
| "add_rule_flags rs (f # fs) =
     (case split_eq f of
        None \<Rightarrow> Inl (CliRule f)
      | Some (pat, up) \<Rightarrow> add_rule_flags (rs @ [\<lparr>r_Match = pat, r_Upstream = up\<rparr>]) fs)"

text \<open>\<open>loadConfig\<close>; the results of reading stdin and a file are arguments.\<close>

definition loadConfig ::
  "url_parser \<Rightarrow> (load_err + config) \<Rightarrow> (string \<Rightarrow> load_err + config) \<Rightarrow> serve_flags \<Rightarrow> cli_err + config"
where
  "loadConfig urlp stdin file f =
     rbind (wrap_err CliLoad
       (if f_configPath f = ''-'' then stdin
        else if f_configPath f \<noteq> [] then file (f_configPath f)
        else Inr Defaults)) (\<lambda>cfg.
     let cfg = (if f_listen f \<noteq> [] then cfg\<lparr>c_Listen := f_listen f\<rparr> else cfg);
         cfg = (if f_logLevel f \<noteq> [] then cfg\<lparr>c_LogLevel := f_logLevel f\<rparr> else cfg)
     in rbind (add_upstream_flags (c_Upstreams cfg) (f_upstreams f)) (\<lambda>ups.
        let cfg = cfg\<lparr>c_Upstreams := ups\<rparr>
        in rbind (add_rule_flags (c_Rules cfg) (f_rules f)) (\<lambda>rs.
           let cfg = cfg\<lparr>c_Rules := rs\<rparr>
           in rbind (wrap_err CliInvalid (Validate urlp cfg)) (\<lambda>_. Inr cfg))))"

section \<open>Flags\<close>

lemma split_eq_decomp: "name \<noteq> [] \<Longrightarrow> CHR ''='' \<notin> set name \<Longrightarrow> split_eq (name @ ''='' @ raw) = Some (name, raw)"
  using index_of_decomp [of "CHR ''=''" name raw] by (simp add: split_eq_def)

lemma parseSSHUpstream_type:
  "parseSSHUpstream raw = Inr u \<Longrightarrow> u_Type u = UpstreamSSH \<and> u_KeyFile u = [] \<and> u_IdentityAgent u = []"
  by (auto simp: parseSSHUpstream_def zero_upstream_def split: if_splits sum.splits option.splits)

lemma has_prefix_disjoint:
  "has_prefix p s \<Longrightarrow> has_prefix q s \<Longrightarrow> take (min (length p) (length q)) p = take (min (length p) (length q)) q"
  by (auto simp: has_prefix_def min_def) (metis min.absorb1 min.absorb2 take_take nle_le)+

lemma parseUpstreamFlag_ssh:
  assumes "parseUpstreamFlag (name @ ''=ssh://'' @ rest) = Inr (n, u)"
    and "name \<noteq> []" "CHR ''='' \<notin> set name"
  shows "n = name \<and> u_Type u = UpstreamSSH \<and> u_KeyFile u = [] \<and> u_IdentityAgent u = []"
  using assms(1) split_eq_decomp [OF assms(2,3), of "''ssh://'' @ rest"]
  by (auto simp: parseUpstreamFlag_def has_prefix_def trim_prefix_def dest!: parseSSHUpstream_type
      split: sum.splits)

lemma add_upstream_flags_append:
  "add_upstream_flags ups (xs @ ys) = rbind (add_upstream_flags ups xs) (\<lambda>ups'. add_upstream_flags ups' ys)"
proof (induction xs arbitrary: ups)
  case (Cons x xs)
  then show ?case by (cases "parseUpstreamFlag x") auto
qed simp

lemma add_upstream_flags_wf: "add_upstream_flags ups fs = Inr ups' \<Longrightarrow> wf_map ups \<Longrightarrow> wf_map ups'"
  by (induction fs arbitrary: ups) (auto simp: result_simps)

text \<open>A flag that names another upstream leaves an entry alone.\<close>

lemma add_upstream_flags_other:
  "add_upstream_flags ups fs = Inr ups' \<Longrightarrow>
     (\<And>f n u. f \<in> set fs \<Longrightarrow> parseUpstreamFlag f = Inr (n, u) \<Longrightarrow> n \<noteq> name) \<Longrightarrow>
     map_of ups' name = map_of ups name"
proof (induction fs arbitrary: ups)
  case (Cons f fs)
  from Cons.prems(1) obtain n u where p: "parseUpstreamFlag f = Inr (n, u)"
    and rest: "add_upstream_flags (put ups n u) fs = Inr ups'"
    by (auto simp: result_simps)
  have "map_of ups' name = map_of (put ups n u) name"
    using Cons.prems(2) by (intro Cons.IH [OF rest]) auto
  moreover have "n \<noteq> name"
    using Cons.prems(2) p by auto
  ultimately show ?case by simp
qed simp

lemma add_rule_flags_Inr:
  "add_rule_flags rs fs = Inr rs' \<longleftrightarrow>
     (\<forall>f \<in> set fs. split_eq f \<noteq> None) \<and>
     rs' = rs @ map (\<lambda>f. case the (split_eq f) of (p, u) \<Rightarrow> \<lparr>r_Match = p, r_Upstream = u\<rparr>) fs"
  by (induction fs arbitrary: rs) (auto split: option.splits)

section \<open>The merged configuration\<close>

lemma loadConfig_Inr:
  assumes "loadConfig urlp stdin file f = Inr cfg"
  obtains base ups rs where
    "(if f_configPath f = ''-'' then stdin else if f_configPath f \<noteq> [] then file (f_configPath f)
      else Inr Defaults) = Inr base"
    "add_upstream_flags (c_Upstreams base) (f_upstreams f) = Inr ups"
    "add_rule_flags (c_Rules base) (f_rules f) = Inr rs"
    "cfg = base\<lparr>c_Listen := (if f_listen f \<noteq> [] then f_listen f else c_Listen base),
        c_LogLevel := (if f_logLevel f \<noteq> [] then f_logLevel f else c_LogLevel base),
        c_Upstreams := ups, c_Rules := rs\<rparr>"
    "Validate urlp cfg = Inr ()"
  using assms unfolding loadConfig_def rbind_Inr_iff wrap_err_Inr_iff Let_def
  by (elim exE conjE) (rule that, assumption, auto split: if_splits)

text \<open>No ssh upstream given as a flag survives validation: the flag cannot name a credential.\<close>

lemma loadConfig_ssh_flag:
  assumes flags: "f_upstreams f = pre @ (name @ ''=ssh://'' @ rest) # post"
    and name: "name \<noteq> []" "CHR ''='' \<notin> set name"
    and last: "\<And>g n u. g \<in> set post \<Longrightarrow> parseUpstreamFlag g = Inr (n, u) \<Longrightarrow> n \<noteq> name"
    and wf: "\<And>b. (if f_configPath f = ''-'' then stdin else if f_configPath f \<noteq> [] then file (f_configPath f)
      else Inr Defaults) = Inr b \<Longrightarrow> wf_map (c_Upstreams b)"
  shows "\<not> ok (loadConfig urlp stdin file f)"
proof
  assume "ok (loadConfig urlp stdin file f)"
  then obtain cfg where "loadConfig urlp stdin file f = Inr cfg" by (auto simp: ok_iff)
  from loadConfig_Inr [OF this] obtain base ups rs where
    b: "(if f_configPath f = ''-'' then stdin else if f_configPath f \<noteq> [] then file (f_configPath f)
      else Inr Defaults) = Inr base"
    and ups: "add_upstream_flags (c_Upstreams base) (f_upstreams f) = Inr ups"
    and c: "cfg = base\<lparr>c_Listen := (if f_listen f \<noteq> [] then f_listen f else c_Listen base),
        c_LogLevel := (if f_logLevel f \<noteq> [] then f_logLevel f else c_LogLevel base),
        c_Upstreams := ups, c_Rules := rs\<rparr>"
    and v: "Validate urlp cfg = Inr ()" .
  from wf [OF b] c have base: "wf_map (c_Upstreams base)" and cfg: "c_Upstreams cfg = ups" by auto
  from ups obtain m n u where pu: "parseUpstreamFlag (name @ ''=ssh://'' @ rest) = Inr (n, u)"
    and tl: "add_upstream_flags (put m n u) post = Inr ups"
    unfolding flags add_upstream_flags_append by (auto simp: result_simps)
  note u = parseUpstreamFlag_ssh [OF pu name]
  have "map_of ups name = Some u"
    using add_upstream_flags_other [OF tl last] u by simp
  moreover have "valid_config urlp cfg"
    using v add_upstream_flags_wf [OF ups base] cfg by (simp add: Validate_iff)
  ultimately have "valid_upstream urlp u"
    using cfg valid_config_upstream by blast
  with u show False by (auto simp: valid_upstream_def valid_ssh_def)
qed

section \<open>Properties\<close>

text \<open>Rules given as flags come after the configuration file's, so a host that a rule of the file
  matches is routed as the file says whatever flags are added.\<close>

theorem loadConfig_file_rules_first:
  assumes "loadConfig urlp stdin file f = Inr cfg" "f_configPath f \<notin> {[], ''-''}"
    and "file (f_configPath f) = Inr base" "wf_map (c_Upstreams base)"
    and "find (rule_matches (stripPort (to_lower host))) (match_rules base) = Some r"
  shows "\<exists>m. match_new (match_rules cfg) (known_upstreams cfg) = Inr m \<and> First m host = Some r"
proof -
  from loadConfig_Inr [OF assms(1)] obtain b ups rs where
    b: "(if f_configPath f = ''-'' then stdin else if f_configPath f \<noteq> [] then file (f_configPath f)
      else Inr Defaults) = Inr b"
    and ups: "add_upstream_flags (c_Upstreams b) (f_upstreams f) = Inr ups"
    and rs: "add_rule_flags (c_Rules b) (f_rules f) = Inr rs"
    and cfg: "cfg = b\<lparr>c_Listen := (if f_listen f \<noteq> [] then f_listen f else c_Listen b),
        c_LogLevel := (if f_logLevel f \<noteq> [] then f_logLevel f else c_LogLevel b),
        c_Upstreams := ups, c_Rules := rs\<rparr>"
    and v: "Validate urlp cfg = Inr ()" .
  have "b = base" using b assms(2,3) by auto
  with ups rs cfg have u: "add_upstream_flags (c_Upstreams base) (f_upstreams f) = Inr ups"
    and r: "add_rule_flags (c_Rules base) (f_rules f) = Inr rs"
    and c: "c_Upstreams cfg = ups" "c_Rules cfg = rs" by auto
  have "valid_config urlp cfg"
    using v c add_upstream_flags_wf [OF u assms(4)] by (simp add: Validate_iff)
  then obtain m where m: "match_new (match_rules cfg) (known_upstreams cfg) = Inr m"
    using valid_config_rules_compile by (auto simp: ok_iff)
  obtain more_rules where "match_rules cfg = match_rules base @ more_rules"
    using r c by (auto simp: add_rule_flags_Inr match_rules_def)
  then have "First m host = Some r"
    using First_eq_find [OF m] assms(5) by (simp add: find_append_Some)
  with m show ?thesis by blast
qed

lemma loadConfig_file_rules_first_witness:
  "\<exists>cfg m. match_new (match_rules cfg) (known_upstreams cfg) = Inr m
     \<and> First m ''git.corp.example'' = Some \<lparr>Pattern = ''*.corp.example'', RuleUpstream = ''corp''\<rparr>"
proof -
  let ?f = "\<lparr>f_configPath = ''config.yaml'', f_listen = [], f_logLevel = ''debug'',
     f_upstreams = [''tor=socks5://127.0.0.1:9050''], f_rules = [''git.corp.example=tor'']\<rparr>"
  have "ok (loadConfig (\<lambda>_. None) (Inl VersionRequired) (\<lambda>_. Inr sample_config) ?f)"
    by code_simp
  then obtain cfg where c: "loadConfig (\<lambda>_. None) (Inl VersionRequired) (\<lambda>_. Inr sample_config) ?f = Inr cfg"
    by (auto simp: ok_iff)
  have "find (rule_matches (stripPort (to_lower ''git.corp.example''))) (match_rules sample_config)
      = Some \<lparr>Pattern = ''*.corp.example'', RuleUpstream = ''corp''\<rparr>"
    by code_simp
  from loadConfig_file_rules_first [OF c _ _ sample_config_wf this] show ?thesis by auto
qed

text \<open>An ssh upstream can never be given as a flag: the flag's syntax carries no credential and
  validation demands one, so the command fails unless a later flag replaces the entry.\<close>

theorem loadConfig_rejects_ssh_flag:
  assumes "f_upstreams f = pre @ (name @ ''=ssh://'' @ rest) # post"
    and "name \<noteq> []" "CHR ''='' \<notin> set name"
    and "\<And>g n u. g \<in> set post \<Longrightarrow> parseUpstreamFlag g = Inr (n, u) \<Longrightarrow> n \<noteq> name"
    and "f_configPath f = []"
  shows "\<not> ok (loadConfig urlp stdin file f)"
  using assms(1-4)
proof (rule loadConfig_ssh_flag)
  show "wf_map (c_Upstreams b)" if "(if f_configPath f = ''-'' then stdin
    else if f_configPath f \<noteq> [] then file (f_configPath f) else Inr Defaults) = Inr b" for b
    using that assms(5) by (auto simp: Defaults_def)
qed

lemma loadConfig_rejects_ssh_flag_witness:
  "\<not> ok (loadConfig (\<lambda>_. None) (Inl VersionRequired) (\<lambda>_. Inl VersionRequired)
     \<lparr>f_configPath = [], f_listen = [], f_logLevel = [], f_upstreams = [''bastion=ssh://host.example:22''],
       f_rules = [''*.corp=bastion'']\<rparr>)"
  by (rule loadConfig_rejects_ssh_flag [where pre = "[]" and name = "''bastion''" and post = "[]"
        and rest = "''host.example:22''"]) simp_all

end
