(* ===== verification/Route.thy ===== *)
theory Route
  imports Registry Cli
begin

text \<open>
  How a connection finds its upstream: \<open>pick\<close> of \<open>pkg/proxy\<close>, \<open>pkg/socks5server\<close> and
  \<open>pkg/portforward\<close>, the HTTP proxy's handler (\<open>pkg/proxy/handler.go\<close>) and the port forward's. The
  locale \<open>router\<close> is the interface between the servers and the matcher and registry they hold.
  \<open>net/http\<close>'s reading and writing of messages is the record \<open>http_lib\<close>.
\<close>

section \<open>The routing interface\<close>

definition route_pick ::
  "(string \<Rightarrow> match_rule option) \<Rightarrow> (string \<Rightarrow> 'd option) \<Rightarrow> 'd \<Rightarrow> string \<Rightarrow> 'd"
where
  "route_pick first get direct host =
     (case first host of
        Some r \<Rightarrow> (case get (RuleUpstream r) of Some d \<Rightarrow> d | None \<Rightarrow> direct)
      | None \<Rightarrow> direct)"

locale router =
  fixes first :: "'s \<Rightarrow> string \<Rightarrow> match_rule option"
    and get :: "'s \<Rightarrow> string \<Rightarrow> 'd option"
    and direct :: "'s \<Rightarrow> 'd"
    and inv :: "'s \<Rightarrow> bool"
  assumes routed: "inv s \<Longrightarrow> first s host = Some r \<Longrightarrow> get s (RuleUpstream r) \<noteq> None"
begin

lemma pick_rule:
  "inv s \<Longrightarrow> first s host = Some r \<Longrightarrow> get s (RuleUpstream r) = Some (route_pick (first s) (get s) (direct s) host)"
  using routed [of s host r] by (auto simp: route_pick_def)

lemma pick_default: "first s host = None \<Longrightarrow> route_pick (first s) (get s) (direct s) host = direct s"
  by (simp add: route_pick_def)

text \<open>The fallback inside the rule branch is dead code: a matching rule always decides.\<close>

lemma pick_direct_iff:
  assumes "inv s" "\<And>n. get s n \<noteq> Some (direct s)"
  shows "route_pick (first s) (get s) (direct s) host = direct s \<longleftrightarrow> first s host = None"
  using assms pick_rule [of s host] pick_default [of s host] by (cases "first s host") auto

end

text \<open>A router some of whose states are pinned to one dialer: the listeners of an upstream.\<close>

definition pinned_pick :: "'d option \<Rightarrow> (string \<Rightarrow> 'd) \<Rightarrow> string \<Rightarrow> 'd" where
  "pinned_pick p route host = (case p of Some d \<Rightarrow> d | None \<Rightarrow> route host)"

locale pinned_router = router first get direct inv
  for first :: "'s \<Rightarrow> string \<Rightarrow> match_rule option"
    and get :: "'s \<Rightarrow> string \<Rightarrow> 'd option"
    and direct :: "'s \<Rightarrow> 'd"
    and inv :: "'s \<Rightarrow> bool" +
  fixes pin :: "'s \<Rightarrow> 'd option"
  assumes pinned_inv: "inv s \<Longrightarrow> pin s = Some d \<Longrightarrow> \<exists>n. get s n = Some d"
begin

abbreviation route :: "'s \<Rightarrow> string \<Rightarrow> 'd" where
  "route s host \<equiv> pinned_pick (pin s) (route_pick (first s) (get s) (direct s)) host"

text \<open>Whatever the host, the connection goes to a registered dialer or to the built-in direct one.\<close>

lemma route_registered: "inv s \<Longrightarrow> route s host = direct s \<or> (\<exists>n. get s n = Some (route s host))"
  using pick_rule [of s host] pick_default [of s host] pinned_inv [of s]
  by (cases "pin s"; cases "first s host") (auto simp: pinned_pick_def)

lemma route_pinned: "pin s = Some d \<Longrightarrow> route s host = d"
  by (simp add: pinned_pick_def)

lemma route_rule:
  "inv s \<Longrightarrow> pin s = None \<Longrightarrow> first s host = Some r \<Longrightarrow> get s (RuleUpstream r) = Some (route s host)"
  using pick_rule by (simp add: pinned_pick_def)

end

text \<open>The compiled matcher's rules name registered upstreams.\<close>

definition routes_ok :: "matcher \<Rightarrow> registry \<Rightarrow> bool" where
  "routes_ok m reg \<longleftrightarrow>
     (\<exists>rules known. match_new rules known = Inr m \<and> (\<forall>n \<in> set known. Get reg n \<noteq> None))"

lemma routes_ok_routed:
  assumes "routes_ok m reg" "First m host = Some r"
  shows "Get reg (RuleUpstream r) \<noteq> None"
proof -
  obtain rules known where m: "match_new rules known = Inr m" and k: "\<forall>n \<in> set known. Get reg n \<noteq> None"
    using assms(1) by (auto simp: routes_ok_def)
  have "r \<in> set rules"
    using assms(2) First_eq_find [OF m, of host] by (auto simp: find_Some_iff)
  then have "RuleUpstream r \<in> set known"
    using m match_new_ok_iff [of rules known] by (auto simp: rule_valid_def)
  with k show ?thesis by blast
qed

section \<open>Server options and pick\<close>

text \<open>The options of the three servers; the HTTP proxy has neither a target nor a pinned dialer.\<close>

record server_opts =
  o_Listen :: string
  o_Target :: string
  o_Dialer :: "dialer option"
  o_Matcher :: "matcher option"
  o_Registry :: "registry option"

definition pick :: "matcher \<Rightarrow> registry \<Rightarrow> string \<Rightarrow> dialer" where
  "pick m reg host = route_pick (First m) (Get reg) (Direct reg) host"

text \<open>\<open>None\<close> is the nil dereference of a server with neither a dialer nor a matcher and registry.\<close>

definition opts_pick :: "server_opts \<Rightarrow> string \<Rightarrow> dialer option" where
  "opts_pick o1 host =
     (case o_Dialer o1 of
        Some d \<Rightarrow> Some d
      | None \<Rightarrow>
          (case (o_Matcher o1, o_Registry o1) of
             (Some m, Some reg) \<Rightarrow> Some (pick m reg host)
           | _ \<Rightarrow> None))"

text \<open>The model's servers as routers: a state is a matcher, a registry and the pinned dialer.\<close>

interpretation route: router "\<lambda>(m, reg). First m" "\<lambda>(m, reg). Get reg" "\<lambda>(m, reg). Direct reg"
  "\<lambda>(m, reg). routes_ok m reg"
  by unfold_locales (use routes_ok_routed in auto)

definition pin_ok :: "registry \<Rightarrow> dialer option \<Rightarrow> bool" where
  "pin_ok reg p \<longleftrightarrow> (case p of None \<Rightarrow> True | Some d \<Rightarrow> \<exists>n. Get reg n = Some d)"

interpretation listener_route: pinned_router "\<lambda>(m, reg, p). First m" "\<lambda>(m, reg, p). Get reg"
  "\<lambda>(m, reg, p). Direct reg" "\<lambda>(m, reg, p). routes_ok m reg \<and> pin_ok reg p" "\<lambda>(m, reg, p). p"
  by unfold_locales (use routes_ok_routed in \<open>auto simp: pin_ok_def split: option.splits\<close>)

lemma opts_pick_eq:
  "o_Matcher o1 = Some m \<Longrightarrow> o_Registry o1 = Some reg \<Longrightarrow>
     opts_pick o1 host = Some (pinned_pick (o_Dialer o1) (pick m reg) host)"
  by (simp add: opts_pick_def pinned_pick_def split: option.splits)

lemma reg_pick_rule: "routes_ok m reg \<Longrightarrow> First m host = Some r \<Longrightarrow> Get reg (RuleUpstream r) = Some (pick m reg host)"
  using route.pick_rule [of "(m, reg)" host r] by (simp add: pick_def)

lemma reg_pick_default: "First m host = None \<Longrightarrow> pick m reg host = Direct reg"
  using route.pick_default [of "(m, reg)" host] by (simp add: pick_def)

section \<open>The HTTP proxy\<close>

record http_msg =
  rq_RequestURI :: string
  rq_URLHost :: string
  rq_body :: "byte list"

record http_resp =
  rs_status :: nat
  rs_bytes :: "byte list"

text \<open>
  \<open>hl_ReadRequest\<close> reads one request from a stream and yields what is left of it;
  \<open>hl_Write\<close> is what \<open>req.Write\<close> emits once the URL's scheme and host are cleared.
\<close>

record http_lib =
  hl_ReadRequest :: "byte list \<Rightarrow> (http_msg \<times> byte list) option"
  hl_Write :: "http_msg \<Rightarrow> byte list"
  hl_ReadResponse :: "byte list \<Rightarrow> http_resp option"

datatype 'd proxy_outcome =
    PeekFailed
  | BadRequest
  | ProxyDialFailed 'd string dial_err
  | Tunnelled 'd string nat nat
  | ForwardWriteFailed 'd string
  | ForwardReadFailed 'd string
  | ClientWriteFailed 'd string
  | Forwarded 'd string nat

definition http_line :: "string \<Rightarrow> byte list" where
  "http_line s = bytes_of (''HTTP/1.1 '' @ s @ crlf @ crlf)"

abbreviation bad_request :: "byte list" where "bad_request \<equiv> http_line ''400 Bad Request''"
abbreviation bad_gateway :: "byte list" where "bad_gateway \<equiv> http_line ''502 Bad Gateway''"
abbreviation established :: "byte list" where "established \<equiv> http_line ''200 Connection Established''"

text \<open>The reader is drained first and then the connection, so all that follows the request is sent.\<close>

definition spliceClientServer :: "conn \<Rightarrow> conn \<Rightarrow> nat \<times> nat \<times> conn \<times> conn" where
  "spliceClientServer client up =
     (let (sent, up, client) = io_copy up client;
          (recv, client, up) = io_copy client up
      in (sent, recv, client, up))"

definition handleConnect ::
  "http_lib \<Rightarrow> (string \<Rightarrow> 'd) \<Rightarrow> ('d \<Rightarrow> string \<Rightarrow> dial_err + conn) \<Rightarrow> conn
     \<Rightarrow> 'd proxy_outcome \<times> conn \<times> conn option"
where
  "handleConnect http select dial client =
     (case hl_ReadRequest http (c_in client) of
        None \<Rightarrow> (BadRequest, write_ignore bad_request (client\<lparr>c_in := []\<rparr>), None)
      | Some (req, rest) \<Rightarrow>
          let client = client\<lparr>c_in := rest\<rparr>; target = rq_RequestURI req
          in (case split_host_port target of
                Inl _ \<Rightarrow> (BadRequest, write_ignore bad_request client, None)
              | Inr (host, _) \<Rightarrow>
                  let dialer = select host
                  in (case dial dialer target of
                        Inl err \<Rightarrow> (ProxyDialFailed dialer target err, write_ignore bad_gateway client, None)
                      | Inr up \<Rightarrow>
                          let (sent, recv, client, up) = spliceClientServer (write_ignore established client) up
                          in (Tunnelled dialer target sent recv, client, Some (close_conn up)))))"

definition handleForward ::
  "http_lib \<Rightarrow> (string \<Rightarrow> 'd) \<Rightarrow> ('d \<Rightarrow> string \<Rightarrow> dial_err + conn) \<Rightarrow> conn
     \<Rightarrow> 'd proxy_outcome \<times> conn \<times> conn option"
where
  "handleForward http select dial client =
     (case hl_ReadRequest http (c_in client) of
        None \<Rightarrow> (BadRequest, write_ignore bad_request (client\<lparr>c_in := []\<rparr>), None)
      | Some (req, rest) \<Rightarrow>
          let client = client\<lparr>c_in := rest\<rparr>
          in if rq_URLHost req = [] then (BadRequest, write_ignore bad_request client, None)
             else
               let (host, port) = url_split_host (rq_URLHost req);
                   port = (if port = [] then ''80'' else port);
                   dialer = select host;
                   target = join_host_port host port
               in (case dial dialer target of
                     Inl err \<Rightarrow> (ProxyDialFailed dialer target err, write_ignore bad_gateway client, None)
                   | Inr up \<Rightarrow>
                       (case write_all (\<lambda>_. ()) (hl_Write http (req\<lparr>rq_RequestURI := [], rq_URLHost := []\<rparr>)) up of
                          (Inl _, up) \<Rightarrow> (ForwardWriteFailed dialer target, client, Some (close_conn up))
                        | (Inr _, up) \<Rightarrow>
                            (case hl_ReadResponse http (c_in up) of
                               None \<Rightarrow> (ForwardReadFailed dialer target, client, Some (close_conn up))
                             | Some resp \<Rightarrow>
                                 (case write_all (\<lambda>_. ()) (rs_bytes resp) client of
                                    (Inl _, client) \<Rightarrow> (ClientWriteFailed dialer target, client, Some (close_conn up))
                                  | (Inr _, client) \<Rightarrow>
                                      (Forwarded dialer target (rs_status resp), client, Some (close_conn up)))))))"

definition proxy_handle ::
  "http_lib \<Rightarrow> (string \<Rightarrow> 'd) \<Rightarrow> ('d \<Rightarrow> string \<Rightarrow> dial_err + conn) \<Rightarrow> conn
     \<Rightarrow> 'd proxy_outcome \<times> conn \<times> conn option"
where
  "proxy_handle http select dial client =
     (if length (c_in client) < 8 then (PeekFailed, close_conn client, None)
      else
        let (mthd, _, _) = cut (CHR '' '') (string_of (take 8 (c_in client)));
            (out, client, up) =
              (if mthd = ''CONNECT'' then handleConnect http select dial client
               else handleForward http select dial client)
        in (out, close_conn client, up))"

section \<open>The port forward\<close>

datatype 'd forward_outcome =
    ForwardDialFailed 'd dial_err
  | ForwardedTCP 'd nat nat

text \<open>\<open>pipe\<close>'s half-closing of the destination is the subject of the theory Relay.\<close>

definition forward_handle ::
  "'d \<Rightarrow> ('d \<Rightarrow> string \<Rightarrow> dial_err + conn) \<Rightarrow> string \<Rightarrow> conn \<Rightarrow> 'd forward_outcome \<times> conn \<times> conn option"
where
  "forward_handle dialer dial target client =
     (case dial dialer target of
        Inl err \<Rightarrow> (ForwardDialFailed dialer err, close_conn client, None)
      | Inr up \<Rightarrow>
          let (sent, up, client) = io_copy up client;
              (recv, client, up) = io_copy client up
          in (ForwardedTCP dialer sent recv, close_conn client, Some (close_conn up)))"

section \<open>A validated configuration\<close>

lemma valid_config_vias:
  assumes "valid_config urlp cfg" "map_of (c_Upstreams cfg) n = Some u"
  shows "valid_via (c_Upstreams cfg) u \<and> (u_Type u \<noteq> UpstreamSSH \<longrightarrow> u_Via u = [])"
  using valid_config_upstream [OF assms] by (auto simp: valid_upstream_def ssh_fields_unset_def)

lemma valid_config_dialers:
  assumes "valid_config urlp cfg" "wf_map (c_Upstreams cfg)" "wf_map ups2" "map_of (c_Upstreams cfg) = map_of ups2"
    and "NewRegistry env (c_Upstreams cfg) ups2 r = (Inr reg, r')" "map_of (c_Upstreams cfg) name = Some u"
  shows "\<exists>d. Get reg name = Some d \<and> dialer_for env (Get reg) name u d"
  by (rule NewRegistry_dialers [OF assms(5,2-4)]) (use assms(1,6) valid_config_vias in auto)

lemma valid_config_routes_ok:
  assumes "valid_config urlp cfg" "wf_map (c_Upstreams cfg)" "wf_map ups2" "map_of (c_Upstreams cfg) = map_of ups2"
    and m: "match_new (match_rules cfg) (known_upstreams cfg) = Inr m"
    and reg: "NewRegistry env (c_Upstreams cfg) ups2 r = (Inr reg, r')"
  shows "routes_ok m reg"
  unfolding routes_ok_def
proof (intro exI conjI ballI)
  show "match_new (match_rules cfg) (known_upstreams cfg) = Inr m" by (rule m)
  fix n assume "n \<in> set (known_upstreams cfg)"
  then obtain u where "map_of (c_Upstreams cfg) n = Some u"
    using map_of_Some_keys [of "c_Upstreams cfg" n] by (auto simp: known_upstreams_def)
  from valid_config_dialers [OF assms(1-4) reg this] show "Get reg n \<noteq> None" by auto
qed

lemma First_ip6:
  assumes "length bs = 16" "\<not> is_v4_mapped bs" "match_new rules known = Inr m" "First m (ip_string bs) = Some r"
  shows "to_lower (Pattern r) \<noteq> ip_string bs"
proof
  assume p: "to_lower (Pattern r) = ip_string bs"
  have s: "ip_string bs = ipv6_string bs" using assms(1,2) by (simp add: ip_string_def to4_def)
  have low: "to_lower (ip_string bs) = ip_string bs" using p by (metis to_lower_idem)
  have c: "CHR '':'' \<in> set (tl (ip_string bs))" using ipv6_string_tl_colon [OF assms(1)] s by simp
  have hd: "hd (ip_string bs) \<noteq> CHR ''[''"
    using ipv6_string_hd [OF assms(1)] s by simp
  have "length (stripPort (ip_string bs)) < length (ip_string bs)"
    by (rule stripPort_bare_colon [OF c hd])
  then have "stripPort (ip_string bs) \<noteq> ip_string bs" by auto
  moreover have "rule_matches (stripPort (ip_string bs)) r"
    using assms(4) First_eq_find [OF assms(3), of "ip_string bs"] low by (auto simp: find_Some_iff)
  moreover have "\<not> has_prefix ''*.'' (ip_string bs)"
    using ipv6_string_hd [OF assms(1)] s by (auto simp: has_prefix_iff)
  ultimately show False using p by (simp add: rule_matches_def)
qed

section \<open>Properties\<close>

text \<open>C11. Routing in a validated configuration: a host goes to the dialer built from the upstream of the
  first rule that matches it, in configuration order, and to the built-in direct dialer when no rule
  matches. The fallback to direct inside the rule branch is never taken.\<close>

theorem routing_follows_rules:
  assumes "Validate urlp cfg = Inr ()" "wf_map (c_Upstreams cfg)"
    and "wf_map ups2" "map_of (c_Upstreams cfg) = map_of ups2"
    and "match_new (match_rules cfg) (known_upstreams cfg) = Inr m"
    and "NewRegistry env (c_Upstreams cfg) ups2 r = (Inr reg, r')"
  shows "case find (rule_matches (stripPort (to_lower host))) (match_rules cfg) of
      None \<Rightarrow> pick m reg host = DirectDialer ''direct''
    | Some rule \<Rightarrow> \<exists>u. map_of (c_Upstreams cfg) (RuleUpstream rule) = Some u
        \<and> dialer_for env (Get reg) (RuleUpstream rule) u (pick m reg host)"
proof -
  have v: "valid_config urlp cfg" using assms(1,2) by (simp add: Validate_iff)
  have routes: "routes_ok m reg"
    by (rule valid_config_routes_ok [OF v assms(2-6)])
  have F: "First m host = find (rule_matches (stripPort (to_lower host))) (match_rules cfg)"
    by (rule First_eq_find [OF assms(5)])
  show ?thesis
  proof (cases "First m host")
    case None
    then show ?thesis
      using F reg_pick_default [OF None, of reg] NewRegistry_cases [OF assms(6)] by (auto simp: Direct_def)
  next
    case (Some rule)
    then have "rule \<in> set (match_rules cfg)" using F by (auto simp: find_Some_iff)
    then obtain u where u: "map_of (c_Upstreams cfg) (RuleUpstream rule) = Some u"
      using valid_config_rule_upstream [OF v] by blast
    from valid_config_dialers [OF v assms(2-4,6) u] reg_pick_rule [OF routes Some] show ?thesis
      using u Some unfolding F [symmetric] by auto
  qed
qed

definition sample_build :: build_env where
  "sample_build = \<lparr>be_url = (\<lambda>_. None),
     be_ssh = sample_host\<lparr>sh_ReadFile := \<lambda>_. Inr ''PEM'', sh_ParsePrivateKey := \<lambda>_. Key ''SHA256:key''\<rparr>,
     be_vpn = sample_vpn_host\<rparr>"

lemma sample_builds:
  "ok (fst (NewRegistry sample_build (c_Upstreams sample_config) (c_Upstreams sample_config) (secret_new [])))"
  "ok (match_new (match_rules sample_config) (known_upstreams sample_config))"
  by code_simp+

lemma routing_follows_rules_witness:
  "\<exists>m reg u. map_of (c_Upstreams sample_config) ''jump'' = Some u
     \<and> dialer_for sample_build (Get reg) ''jump'' u (pick m reg ''Git.Example:22'')"
proof -
  obtain m where m: "match_new (match_rules sample_config) (known_upstreams sample_config) = Inr m"
    using sample_builds(2) by (auto simp: ok_iff)
  obtain reg r' where reg: "NewRegistry sample_build (c_Upstreams sample_config) (c_Upstreams sample_config)
      (secret_new []) = (Inr reg, r')"
    using sample_builds(1) by (auto simp: ok_iff) (metis prod.collapse)
  have f: "find (rule_matches (stripPort (to_lower ''Git.Example:22''))) (match_rules sample_config)
      = Some \<lparr>Pattern = ''git.example'', RuleUpstream = ''jump''\<rparr>"
    by code_simp
  from routing_follows_rules [OF sample_config_Validate sample_config_wf sample_config_wf refl m reg,
      of "''Git.Example:22''"] show ?thesis
    by (simp only: f option.case match_rule.select_convs) blast
qed



text \<open>A rule for an IPv6 address never applies: \<open>pick\<close> passes the bare address, whose text from the
  last colon on is stripped as if it were a port, so whatever the lookup returns for an address is
  not a rule that spells that address out.\<close>

theorem ipv6_rule_never_matches:
  assumes "length bs = 16" "\<not> is_v4_mapped bs" "match_new rules known = Inr m"
    and "First m (ip_string bs) = Some r"
  shows "to_lower (Pattern r) \<noteq> ip_string bs"
  using assms by (rule First_ip6)

lemma ipv6_rule_never_matches_witness:
  "\<exists>m r. match_new [\<lparr>Pattern = ''::1'', RuleUpstream = ''a''\<rparr>, \<lparr>Pattern = '':'', RuleUpstream = ''a''\<rparr>] [''a''] = Inr m
     \<and> First m (ip_string (replicate 15 0 @ [1])) = Some r \<and> to_lower (Pattern r) \<noteq> ''::1''"
proof -
  let ?rs = "[\<lparr>Pattern = ''::1'', RuleUpstream = ''a''\<rparr>, \<lparr>Pattern = '':'', RuleUpstream = ''a''\<rparr>]"
  have s: "ip_string (replicate 15 0 @ [1]) = ''::1''" by code_simp
  have "ok (match_new ?rs [''a''])" by code_simp
  then obtain m where m: "match_new ?rs [''a''] = Inr m" by (auto simp: ok_iff)
  have "find (rule_matches (stripPort (to_lower ''::1''))) ?rs = Some \<lparr>Pattern = '':'', RuleUpstream = ''a''\<rparr>"
    by code_simp
  then have f: "First m (ip_string (replicate 15 0 @ [1])) = Some \<lparr>Pattern = '':'', RuleUpstream = ''a''\<rparr>"
    using First_eq_find [OF m] s by simp
  have "length (replicate 15 0 @ [1 :: byte]) = 16" "\<not> is_v4_mapped (replicate 15 0 @ [1])"
    by (simp, code_simp)
  from ipv6_rule_never_matches [OF this m f] m f show ?thesis unfolding s by blast
qed

text \<open>C25. A CONNECT through the HTTP proxy: the target is dialled as written by the dialer picked for its
  host, the client reads the 200 answer and then all the upstream sends, the upstream reads all that
  follows the request and nothing else, and both connections are closed.\<close>

theorem proxy_serves_connect:
  assumes "take 8 (c_in client) = bytes_of ''CONNECT ''"
    and "hl_ReadRequest http (c_in client) = Some (req, payload)"
    and "split_host_port (rq_RequestURI req) = Inr (host, port)"
    and "dial (select host) (rq_RequestURI req) = Inr up"
    and "c_room client = None" "c_room up = None"
  shows "proxy_handle http select dial client =
    (Tunnelled (select host) (rq_RequestURI req) (length payload) (length (c_in up)),
     client\<lparr>c_in := [], c_out := c_out client @ established @ c_in up, c_closed := True\<rparr>,
     Some (up\<lparr>c_in := [], c_out := c_out up @ payload, c_closed := True\<rparr>))"
proof -
  have "length (c_in client) \<ge> 8"
    using arg_cong [OF assms(1), of length] by simp
  moreover have "cut (CHR '' '') (string_of (take 8 (c_in client))) = (''CONNECT'', [], True)"
    using assms(1) cut_decomp [of "CHR '' ''" "''CONNECT''" "[]"] by simp
  ultimately show ?thesis
    using assms(2-6)
    by (simp add: proxy_handle_def handleConnect_def spliceClientServer_def io_copy_def close_conn_def Let_def)
qed

lemma proxy_serves_connect_witness:
  "proxy_handle \<lparr>hl_ReadRequest = \<lambda>bs. Some (\<lparr>rq_RequestURI = ''db.example:5432'', rq_URLHost = [], rq_body = []\<rparr>, drop 10 bs),
       hl_Write = \<lambda>_. [], hl_ReadResponse = \<lambda>_. None\<rparr> (\<lambda>h. h) (\<lambda>_ _. Inr (stream_conn [7, 8]))
     (stream_conn (bytes_of ''CONNECT '' @ [1, 2, 3])) =
   (Tunnelled ''db.example'' ''db.example:5432'' 1 2,
    (stream_conn [])\<lparr>c_out := established @ [7, 8], c_closed := True\<rparr>,
    Some ((stream_conn [])\<lparr>c_out := [3], c_closed := True\<rparr>))"
proof -
  let ?req = "\<lparr>rq_RequestURI = ''db.example:5432'', rq_URLHost = [], rq_body = []\<rparr>"
  let ?http = "\<lparr>hl_ReadRequest = \<lambda>bs. Some (?req, drop 10 bs), hl_Write = \<lambda>_. [], hl_ReadResponse = \<lambda>_. None\<rparr>"
  let ?c = "stream_conn (bytes_of ''CONNECT '' @ [1, 2, 3])"
  have s: "split_host_port (rq_RequestURI ?req) = Inr (''db.example'', ''5432'')" by code_simp
  have d: "drop 10 (bytes_of ''CONNECT '' @ [1, 2, 3]) = [3]" by (simp add: drop_append)
  have t: "take 8 (c_in ?c) = bytes_of ''CONNECT ''" by (simp add: stream_conn_def)
  have r: "hl_ReadRequest ?http (c_in ?c) = Some (?req, [3])" using d by (simp add: stream_conn_def)
  have "proxy_handle ?http (\<lambda>h. h) (\<lambda>_ _. Inr (stream_conn [7, 8])) ?c =
     (Tunnelled ''db.example'' (rq_RequestURI ?req) (length [3 :: byte]) (length (c_in (stream_conn [7, 8]))),
      ?c\<lparr>c_in := [], c_out := c_out ?c @ established @ c_in (stream_conn [7, 8]), c_closed := True\<rparr>,
      Some ((stream_conn [7, 8])\<lparr>c_in := [], c_out := c_out (stream_conn [7, 8]) @ [3], c_closed := True\<rparr>))"
    by (rule proxy_serves_connect [OF t r s]) (simp_all add: stream_conn_def)
  then show ?thesis by (simp add: stream_conn_def)
qed

end
