(* ===== verification/Serve.thy ===== *)
theory Serve
  imports Route "HOL-Library.Multiset"
begin

text \<open>
  Binding: \<open>NewServer\<close> of the three servers, \<open>listener.New\<close> (\<open>pkg/listener\<close>), and \<open>tunnelListeners\<close> and
  \<open>runServe\<close> of \<open>internal/cli/serve.go\<close>. How they serve is in the theory ServerLife. The addresses
  bound by this process are explicit state; which addresses the system refuses and which pairs
  of addresses cannot be bound together are fields of \<open>net_ports\<close>.
\<close>

section \<open>Binding\<close>

record net_ports =
  np_refuses :: "string \<Rightarrow> bool"
  np_conflict :: "string \<Rightarrow> string \<Rightarrow> bool"
  np_bound :: "string list"

datatype serve_err =
    MatcherRequired
  | RegistryRequired
  | DialerOrRoutesRequired
  | TargetErr addr_err
  | ListenErr string
  | NotInRegistry string
  | TypeUnknown string
  | ListenerErr string serve_err

definition net_listen :: "net_ports \<Rightarrow> string \<Rightarrow> (serve_err + unit) \<times> net_ports" where
  "net_listen np addr =
     (if np_refuses np addr \<or> list_ex (np_conflict np addr) (np_bound np) then (Inl (ListenErr addr), np)
      else (Inr (), np\<lparr>np_bound := addr # np_bound np\<rparr>))"

definition net_close :: "net_ports \<Rightarrow> string \<Rightarrow> net_ports" where
  "net_close np addr = np\<lparr>np_bound := remove1 addr (np_bound np)\<rparr>"

datatype server_kind = HTTPProxy | Socks5 | TCPForward string

text \<open>A bound server; \<open>TCPForward\<close> carries the host the target is routed by.\<close>

record server =
  srv_kind :: server_kind
  srv_opts :: server_opts

definition bind_server :: "server_kind \<Rightarrow> server_opts \<Rightarrow> net_ports \<Rightarrow> (serve_err + server) \<times> net_ports" where
  "bind_server kind o1 np =
     (case net_listen np (o_Listen o1) of
        (Inl e, np) \<Rightarrow> (Inl e, np)
      | (Inr _, np) \<Rightarrow> (Inr \<lparr>srv_kind = kind, srv_opts = o1\<rparr>, np))"

definition proxy_NewServer :: "server_opts \<Rightarrow> net_ports \<Rightarrow> (serve_err + server) \<times> net_ports" where
  "proxy_NewServer o1 np =
     (if o_Matcher o1 = None then (Inl MatcherRequired, np)
      else if o_Registry o1 = None then (Inl RegistryRequired, np)
      else bind_server HTTPProxy o1 np)"

definition socks5_NewServer :: "server_opts \<Rightarrow> net_ports \<Rightarrow> (serve_err + server) \<times> net_ports" where
  "socks5_NewServer o1 np =
     (if o_Dialer o1 = None \<and> o_Matcher o1 = None then (Inl MatcherRequired, np)
      else if o_Dialer o1 = None \<and> o_Registry o1 = None then (Inl RegistryRequired, np)
      else bind_server Socks5 o1 np)"

definition forward_NewServer :: "server_opts \<Rightarrow> net_ports \<Rightarrow> (serve_err + server) \<times> net_ports" where
  "forward_NewServer o1 np =
     (case split_host_port (o_Target o1) of
        Inl e \<Rightarrow> (Inl (TargetErr e), np)
      | Inr (host, _) \<Rightarrow>
          if o_Dialer o1 = None \<and> (o_Matcher o1 = None \<or> o_Registry o1 = None)
          then (Inl DialerOrRoutesRequired, np)
          else bind_server (TCPForward host) o1 np)"

definition server_Close :: "server \<Rightarrow> net_ports \<Rightarrow> net_ports" where
  "server_Close s np = net_close np (o_Listen (srv_opts s))"

text \<open>The dialer a server hands a connection for \<open>host\<close> to; \<open>None\<close> is a nil dereference.\<close>

definition server_pick :: "server \<Rightarrow> string \<Rightarrow> dialer option" where
  "server_pick s host =
     (case srv_kind s of
        HTTPProxy \<Rightarrow> opts_pick ((srv_opts s)\<lparr>o_Dialer := None\<rparr>) host
      | Socks5 \<Rightarrow> opts_pick (srv_opts s) host
      | TCPForward h \<Rightarrow> opts_pick (srv_opts s) h)"

section \<open>listener.New\<close>

definition listener_New ::
  "listener \<Rightarrow> registry \<Rightarrow> matcher \<Rightarrow> net_ports \<Rightarrow> (serve_err + server) \<times> net_ports"
where
  "listener_New l reg m np =
     (let d = (if l_Upstream l \<noteq> [] then Get reg (l_Upstream l) else None);
          o1 = \<lparr>o_Listen = l_Listen l, o_Target = l_Target l, o_Dialer = d, o_Matcher = Some m, o_Registry = Some reg\<rparr>
      in if l_Upstream l \<noteq> [] \<and> d = None then (Inl (NotInRegistry (l_Upstream l)), np)
         else if l_Type l = [] \<or> l_Type l = ListenerSocks5 then socks5_NewServer (o1\<lparr>o_Target := []\<rparr>) np
         else if l_Type l = ListenerTCP then forward_NewServer o1 np
         else (Inl (TypeUnknown (l_Type l)), np))"

section \<open>cli/serve.go\<close>

fun tunnelListeners ::
  "listener list \<Rightarrow> registry \<Rightarrow> matcher \<Rightarrow> server list \<Rightarrow> net_ports \<Rightarrow> (serve_err + server list) \<times> net_ports"
where
  "tunnelListeners [] reg m servers np = (Inr servers, np)"
| "tunnelListeners (l # ls) reg m servers np =
     (case listener_New l reg m np of
        (Inl e, np) \<Rightarrow> (Inl (ListenerErr (l_Listen l) e), foldl (\<lambda>np s. server_Close s np) np servers)
      | (Inr srv, np) \<Rightarrow> tunnelListeners ls reg m (servers @ [srv]) np)"

datatype run_err =
    RunConfig cli_err
  | RunLog string
  | RunRegistry string reg_err
  | RunMatcher match_err
  | RunProxy serve_err
  | RunListeners serve_err

text \<open>
  \<open>runServe\<close> up to the point where it serves: the servers it runs, or the error, and the
  addresses bound. On an error the process exits, so nothing is closed.
\<close>

definition runServe ::
  "url_parser \<Rightarrow> (load_err + config) \<Rightarrow> (string \<Rightarrow> load_err + config) \<Rightarrow> os_env \<Rightarrow> fs_errs \<Rightarrow> build_env
     \<Rightarrow> (string \<times> upstream) list \<Rightarrow> serve_flags \<Rightarrow> resolver \<Rightarrow> net_ports \<Rightarrow> (run_err + server list) \<times> net_ports"
where
  "runServe urlp stdin file os errs env ups2 f r np =
     (case loadConfig urlp stdin file f of
        Inl e \<Rightarrow> (Inl (RunConfig e), np)
      | Inr cfg \<Rightarrow>
     (case OpenLogWriter os errs cfg of
        Inl e \<Rightarrow> (Inl (RunLog e), np)
      | Inr _ \<Rightarrow>
     (case fst (NewRegistry env (c_Upstreams cfg) ups2 r) of
        Inl (name, e, _) \<Rightarrow> (Inl (RunRegistry name e), np)
      | Inr reg \<Rightarrow>
     (case match_new (match_rules cfg) (known_upstreams cfg) of
        Inl e \<Rightarrow> (Inl (RunMatcher e), np)
      | Inr m \<Rightarrow>
     (case proxy_NewServer \<lparr>o_Listen = c_Listen cfg, o_Target = [], o_Dialer = None, o_Matcher = Some m,
              o_Registry = Some reg\<rparr> np of
        (Inl e, np) \<Rightarrow> (Inl (RunProxy e), np)
      | (Inr srv, np) \<Rightarrow>
          (case tunnelListeners (c_Listeners cfg) reg m [] np of
             (Inl e, np) \<Rightarrow> (Inl (RunListeners e), np)
           | (Inr tunnels, np) \<Rightarrow> (Inr (srv # tunnels), np)))))))"

section \<open>Servers never dereference nil\<close>

lemma bind_server_Inr:
  "bind_server kind o1 np = (Inr s, np') \<longleftrightarrow>
     s = \<lparr>srv_kind = kind, srv_opts = o1\<rparr> \<and> net_listen np (o_Listen o1) = (Inr (), np')"
  by (auto simp: bind_server_def split: prod.splits sum.splits)

lemma net_listen_Inr:
  "net_listen np addr = (Inr u, np') \<Longrightarrow> np' = np\<lparr>np_bound := addr # np_bound np\<rparr>"
  by (auto simp: net_listen_def split: if_splits)

lemma listener_New_Inr:
  assumes "listener_New l reg m np = (Inr s, np')"
  shows "np' = np\<lparr>np_bound := l_Listen l # np_bound np\<rparr> \<and> o_Listen (srv_opts s) = l_Listen l
    \<and> o_Matcher (srv_opts s) = Some m \<and> o_Registry (srv_opts s) = Some reg
    \<and> o_Dialer (srv_opts s) = (if l_Upstream l \<noteq> [] then Get reg (l_Upstream l) else None)
    \<and> (l_Upstream l \<noteq> [] \<longrightarrow> Get reg (l_Upstream l) \<noteq> None)
    \<and> (l_Type l \<in> {[], ListenerSocks5} \<and> srv_kind s = Socks5
       \<or> l_Type l = ListenerTCP \<and> o_Target (srv_opts s) = l_Target l
         \<and> (\<exists>host port. split_host_port (l_Target l) = Inr (host, port) \<and> srv_kind s = TCPForward host))"
  using assms
  by (auto simp: listener_New_def socks5_NewServer_def forward_NewServer_def bind_server_Inr Let_def
      dest!: net_listen_Inr split: if_splits sum.splits prod.splits)

lemma listener_New_Inl: "listener_New l reg m np = (Inl e, np') \<Longrightarrow> np' = np"
  by (auto simp: listener_New_def socks5_NewServer_def forward_NewServer_def bind_server_def net_listen_def Let_def
      split: if_splits sum.splits prod.splits)

text \<open>The error of \<open>listener.New\<close> for a listener of a validated configuration is the bind itself.\<close>

lemma listener_New_valid:
  assumes "valid_listener ups l" "\<And>n. map_of ups n \<noteq> None \<Longrightarrow> Get reg n \<noteq> None"
    and "listener_New l reg m np = (Inl e, np')"
  shows "e = ListenErr (l_Listen l)"
proof -
  have "\<not> (l_Upstream l \<noteq> [] \<and> Get reg (l_Upstream l) = None)"
    using assms(1,2) by (auto simp: valid_listener_def)
  with assms(1,3) show ?thesis
    by (auto simp: valid_listener_def valid_target_def listener_New_def socks5_NewServer_def forward_NewServer_def
        bind_server_def net_listen_def Let_def split: if_splits sum.splits prod.splits)
qed

section \<open>tunnelListeners binds all or nothing\<close>

definition srv_addr :: "server \<Rightarrow> string" where
  "srv_addr s = o_Listen (srv_opts s)"

lemma close_all_bound:
  "mset (np_bound (foldl (\<lambda>np s. server_Close s np) np servers))
     = mset (np_bound np) - mset (map srv_addr servers)"
proof (induction servers arbitrary: np)
  case (Cons s servers)
  then show ?case by (simp add: server_Close_def net_close_def srv_addr_def)
qed simp

lemma tunnelListeners_Inr:
  assumes "tunnelListeners ls reg m servers np = (Inr servers', np')"
  shows "np_bound np' = rev (map l_Listen ls) @ np_bound np
    \<and> (\<exists>new. servers' = servers @ new
        \<and> list_all2 (\<lambda>l s. \<exists>np1 np2. listener_New l reg m np1 = (Inr s, np2)) ls new)"
  using assms
proof (induction ls arbitrary: servers np)
  case (Cons l ls)
  then obtain s np1 where s: "listener_New l reg m np = (Inr s, np1)"
    and rest: "tunnelListeners ls reg m (servers @ [s]) np1 = (Inr servers', np')"
    by (auto split: prod.splits sum.splits)
  from Cons.IH [OF rest] obtain new where new: "servers' = servers @ s # new"
    "list_all2 (\<lambda>l s. \<exists>np1 np2. listener_New l reg m np1 = (Inr s, np2)) ls new"
    and b: "np_bound np' = rev (map l_Listen ls) @ np_bound np1" by auto
  show ?case using new b s listener_New_Inr [OF s] by (intro conjI exI [of _ "s # new"]) auto
qed simp

lemma tunnelListeners_Inl:
  assumes "tunnelListeners ls reg m servers np = (Inl e, np')"
  shows "mset (np_bound np') = mset (np_bound np) - mset (map srv_addr servers)"
  using assms
proof (induction ls arbitrary: servers np)
  case (Cons l ls)
  show ?case
  proof (cases "listener_New l reg m np")
    case (Pair res np1)
    show ?thesis
    proof (cases res)
      case (Inl e1)
      then show ?thesis
        using Cons.prems Pair listener_New_Inl [of l reg m np e1 np1] close_all_bound [of np servers] by auto
    next
      case (Inr s)
      then have "tunnelListeners ls reg m (servers @ [s]) np1 = (Inl e, np')"
        using Cons.prems Pair by simp
      from Cons.IH [OF this] listener_New_Inr [OF Pair [unfolded Inr]] show ?thesis
        by (simp add: srv_addr_def)
    qed
  qed
qed simp

section \<open>What a running server dispatches to\<close>

text \<open>The host a server routes a connection by: the requested one, or the port forward's target.\<close>

definition routed_host :: "server \<Rightarrow> string \<Rightarrow> string" where
  "routed_host s host = (case srv_kind s of TCPForward h \<Rightarrow> h | _ \<Rightarrow> host)"

lemma listener_pick:
  assumes "listener_New l reg m np = (Inr s, np')"
  shows "server_pick s host = Some (pinned_pick (o_Dialer (srv_opts s)) (pick m reg) (routed_host s host))"
  using listener_New_Inr [OF assms] opts_pick_eq [of "srv_opts s" m reg]
  by (cases "srv_kind s") (auto simp: server_pick_def routed_host_def)

text \<open>What a listener's server does with every connection: pinned, or routed by the rules.\<close>

definition dispatches :: "build_env \<Rightarrow> config \<Rightarrow> registry \<Rightarrow> matcher \<Rightarrow> listener \<Rightarrow> server \<Rightarrow> bool" where
  "dispatches env cfg reg m l s \<longleftrightarrow>
     (if l_Upstream l = [] then \<forall>host. server_pick s host = Some (pick m reg (routed_host s host))
      else \<exists>u d. map_of (c_Upstreams cfg) (l_Upstream l) = Some u
        \<and> dialer_for env (Get reg) (l_Upstream l) u d \<and> (\<forall>host. server_pick s host = Some d))"

lemma runServe_Inr:
  assumes "runServe urlp stdin file os errs env ups2 f r np = (Inr servers, np')"
  obtains cfg reg m srv tunnels np1 where "loadConfig urlp stdin file f = Inr cfg"
    "fst (NewRegistry env (c_Upstreams cfg) ups2 r) = Inr reg"
    "match_new (match_rules cfg) (known_upstreams cfg) = Inr m"
    "srv = \<lparr>srv_kind = HTTPProxy, srv_opts = \<lparr>o_Listen = c_Listen cfg, o_Target = [], o_Dialer = None,
        o_Matcher = Some m, o_Registry = Some reg\<rparr>\<rparr>"
    "net_listen np (c_Listen cfg) = (Inr (), np1)"
    "tunnelListeners (c_Listeners cfg) reg m [] np1 = (Inr tunnels, np')" "servers = srv # tunnels"
  using assms
  by (auto simp: runServe_def proxy_NewServer_def bind_server_Inr split: sum.splits prod.splits)

section \<open>Properties\<close>



definition sample_ports :: net_ports where
  "sample_ports = \<lparr>np_refuses = (\<lambda>_. False), np_conflict = (=), np_bound = []\<rparr>"

definition sample_flags :: serve_flags where
  "sample_flags = \<lparr>f_configPath = ''dockprox.yaml'', f_listen = [], f_logLevel = [], f_upstreams = [], f_rules = []\<rparr>"

lemma sample_loadConfig:
  "loadConfig (\<lambda>_. None) (Inl VersionRequired) (\<lambda>_. Inr sample_config) sample_flags = Inr sample_config"
  using sample_config_Validate
  by (simp add: loadConfig_def sample_flags_def)


end
