(* ===== verification/SshConn.thy ===== *)
theory SshConn
  imports SshTarget
begin

text \<open>
  One ssh connection: the connection states (\<open>connstate.go\<close>), the deadline that all sockets of one
  attempt share (\<open>attempt.go\<close>), the dial itself (\<open>dial\<close> of \<open>client.go\<close>), and the watcher of an open
  connection with its keepalive probe. Times are in seconds.
\<close>

section \<open>Connection states\<close>

datatype conn_state =
    ConnUnknown
  | ConnConnected
  | ConnDisconnected
  | ConnConnecting
  | ConnAwaitingApproval

definition conn_state_String :: "conn_state \<Rightarrow> string" where
  "conn_state_String s = (case s of ConnConnected \<Rightarrow> ''connected'' | ConnDisconnected \<Rightarrow> ''disconnected''
     | ConnConnecting \<Rightarrow> ''connecting'' | ConnAwaitingApproval \<Rightarrow> ''awaiting approval'' | ConnUnknown \<Rightarrow> ''unknown'')"

section \<open>One attempt's deadline\<close>

text \<open>The sockets of an attempt are represented by their deadlines.\<close>

record attempt =
  at_timeout :: nat
  at_approval :: nat
  at_conns :: "nat list"
  at_deadline :: nat
  at_aborted :: bool

definition newAttempt :: "nat \<Rightarrow> nat \<Rightarrow> nat \<Rightarrow> attempt" where
  "newAttempt now timeout approval =
     \<lparr>at_timeout = timeout, at_approval = approval, at_conns = [], at_deadline = now + timeout, at_aborted = False\<rparr>"

definition attempt_add :: "attempt \<Rightarrow> attempt" where
  "attempt_add a = a\<lparr>at_conns := at_conns a @ [at_deadline a]\<rparr>"

definition attempt_extend :: "nat \<Rightarrow> nat \<Rightarrow> attempt \<Rightarrow> attempt" where
  "attempt_extend now d a =
     (if at_aborted a then a
      else a\<lparr>at_deadline := now + d, at_conns := map (\<lambda>_. now + d) (at_conns a)\<rparr>)"

text \<open>The instant \<open>time.Unix(1, 0)\<close> is long past.\<close>

definition attempt_abort :: "attempt \<Rightarrow> attempt" where
  "attempt_abort a = a\<lparr>at_aborted := True, at_deadline := 1, at_conns := map (\<lambda>_. 1) (at_conns a)\<rparr>"

definition attempt_signStart :: "nat \<Rightarrow> attempt \<Rightarrow> attempt" where
  "attempt_signStart now a = attempt_extend now (at_approval a) a"

definition attempt_signDone :: "nat \<Rightarrow> attempt \<Rightarrow> attempt" where
  "attempt_signDone now a = attempt_extend now (at_timeout a) a"

datatype attempt_op = AttAdd | AttSignStart nat | AttSignDone nat | AttAbort

fun attempt_do :: "attempt_op \<Rightarrow> attempt \<Rightarrow> attempt" where
  "attempt_do AttAdd a = attempt_add a"
| "attempt_do (AttSignStart now) a = attempt_signStart now a"
| "attempt_do (AttSignDone now) a = attempt_signDone now a"
| "attempt_do AttAbort a = attempt_abort a"

lemmas attempt_defs = attempt_add_def attempt_extend_def attempt_abort_def attempt_signStart_def
  attempt_signDone_def

text \<open>All sockets carry the attempt's deadline; an aborted attempt's has passed and stays so.\<close>

lemma attempt_shared_deadline:
  "set (at_conns a) \<subseteq> {at_deadline a} \<Longrightarrow> set (at_conns (attempt_do x a)) \<subseteq> {at_deadline (attempt_do x a)}"
  by (cases x) (auto simp: attempt_defs)

lemma attempt_abort_stable:
  "at_aborted a \<Longrightarrow> at_aborted (attempt_do x a) \<and> (at_deadline a = 1 \<longrightarrow> at_deadline (attempt_do x a) = 1)"
  by (cases x) (auto simp: attempt_defs)

text \<open>
  \<open>agentSigner\<close> of \<open>auth.go\<close>: a sign request that goes out at \<open>t0\<close> and is answered with \<open>sig\<close> at \<open>t1\<close>.
\<close>

definition SignWithAlgorithm :: "nat \<Rightarrow> nat \<Rightarrow> 'sig \<Rightarrow> attempt \<Rightarrow> 'sig \<times> attempt" where
  "SignWithAlgorithm t0 t1 sig a = (sig, attempt_signDone t1 (attempt_signStart t0 a))"

lemma SignWithAlgorithm_deadline:
  "at_deadline (snd (SignWithAlgorithm t0 t1 sig a)) = (if at_aborted a then at_deadline a else t1 + at_timeout a)"
  by (simp add: SignWithAlgorithm_def attempt_defs)

section \<open>The keepalive probe\<close>

abbreviation heartbeat :: nat where "heartbeat \<equiv> 15"
abbreviation probe :: nat where "probe \<equiv> 5"
abbreviation stall :: nat where "stall \<equiv> 120"

datatype keepalive_result = Alive | ProbeFailed | Timeout nat | Stalled nat

text \<open>
  The polling loop, in seconds since the probe was sent: \<open>answer\<close> is when \<open>SendRequest\<close> returns, if it
  does, and whether it did without an error; \<open>writing\<close> is whether a write to the connection is blocked
  at a given time.
\<close>

definition answered :: "(nat \<times> bool) option \<Rightarrow> nat \<Rightarrow> keepalive_result option" where
  "answered answer t =
     (case answer of None \<Rightarrow> None
      | Some (a, fine) \<Rightarrow> if a \<le> t then Some (if fine then Alive else ProbeFailed) else None)"

function keepalive_poll :: "(nat \<times> bool) option \<Rightarrow> (nat \<Rightarrow> bool) \<Rightarrow> nat \<Rightarrow> keepalive_result" where
  "keepalive_poll answer writing t =
     (case answered answer t of
        Some r \<Rightarrow> r
      | None \<Rightarrow>
          if \<not> writing t then Timeout t
          else if stall \<le> t then Stalled t
          else keepalive_poll answer writing (Suc t))"
  by pat_completeness auto
termination
  by (relation "measure (\<lambda>(_, _, t). stall - t)") auto

declare keepalive_poll.simps [simp del]

definition keepalive :: "(nat \<times> bool) option \<Rightarrow> (nat \<Rightarrow> bool) \<Rightarrow> keepalive_result" where
  "keepalive answer writing = keepalive_poll answer writing probe"

lemma keepalive_poll_simps:
  "answered answer t = Some r \<Longrightarrow> keepalive_poll answer writing t = r"
  "answered answer t = None \<Longrightarrow> \<not> writing t \<Longrightarrow> keepalive_poll answer writing t = Timeout t"
  "answered answer t = None \<Longrightarrow> writing t \<Longrightarrow> stall \<le> t \<Longrightarrow> keepalive_poll answer writing t = Stalled t"
  "answered answer t = None \<Longrightarrow> writing t \<Longrightarrow> t < stall \<Longrightarrow>
     keepalive_poll answer writing t = keepalive_poll answer writing (Suc t)"
  by (simp_all add: keepalive_poll.simps [of answer writing t])

definition keepalive_ok :: "(nat \<times> bool) option \<Rightarrow> (nat \<Rightarrow> bool) \<Rightarrow> nat \<Rightarrow> keepalive_result \<Rightarrow> bool" where
  "keepalive_ok answer writing t r \<longleftrightarrow>
     (case r of
        Timeout u \<Rightarrow> t \<le> u \<and> u \<le> stall \<and> answered answer u = None \<and> \<not> writing u \<and> (\<forall>v. t \<le> v \<and> v < u \<longrightarrow> writing v)
      | Stalled u \<Rightarrow> u = stall \<and> answered answer u = None \<and> (\<forall>v. t \<le> v \<and> v \<le> u \<longrightarrow> writing v)
      | _ \<Rightarrow> answered answer stall = Some r)"

lemma keepalive_ok_Suc:
  assumes "writing t" "keepalive_ok answer writing (Suc t) r"
  shows "keepalive_ok answer writing t r"
proof -
  have "t \<le> v \<Longrightarrow> v = t \<or> Suc t \<le> v" for v by linarith
  then show ?thesis
    using assms by (cases r) (simp_all add: keepalive_ok_def, blast+)
qed

lemma answered_le: "answered answer t = Some r \<Longrightarrow> t \<le> u \<Longrightarrow> answered answer u = Some r"
  by (auto simp: answered_def split: option.splits if_splits)

lemma answered_range: "answered answer t = Some r \<Longrightarrow> r = Alive \<or> r = ProbeFailed"
  by (auto simp: answered_def split: option.splits if_splits)

lemma keepalive_poll_ok: "t \<le> stall \<Longrightarrow> keepalive_ok answer writing t (keepalive_poll answer writing t)"
proof (induction "stall - t" arbitrary: t)
  case 0
  then have t: "t = stall" by simp
  show ?case
  proof (cases "answered answer t")
    case None
    with t show ?thesis by (cases "writing t") (auto simp: keepalive_poll_simps keepalive_ok_def)
  next
    case (Some r)
    with t answered_range [OF Some] show ?thesis by (auto simp: keepalive_poll_simps keepalive_ok_def)
  qed
next
  case (Suc n)
  then have t: "t < stall" and IH: "keepalive_ok answer writing (Suc t) (keepalive_poll answer writing (Suc t))"
    by (auto intro: Suc.hyps(1))
  show ?case
  proof (cases "answered answer t")
    case (Some r)
    with answered_le [OF Some, of stall] answered_range [OF Some] t show ?thesis
      by (auto simp: keepalive_poll_simps keepalive_ok_def)
  next
    case None
    then show ?thesis
      using t keepalive_ok_Suc [OF _ IH]
      by (cases "writing t") (auto simp: keepalive_poll_simps keepalive_ok_def)
  qed
qed

section \<open>The dial\<close>

abbreviation handshakeTimeout :: nat where "handshakeTimeout \<equiv> 15"
abbreviation viaHandshakeTimeout :: nat where "viaHandshakeTimeout \<equiv> 45"
abbreviation approvalTimeout :: nat where "approvalTimeout \<equiv> 60"

text \<open>
  What the dial meets: the outcome of the TCP dial (or of the via upstream's), what happens to the
  attempt until the handshake is over (sign requests, an abort when the context is cancelled) and
  the outcome of the handshake.
\<close>

record dial_net =
  dn_Dial :: "string \<Rightarrow> string + unit"
  dn_events :: "attempt_op list"
  dn_Handshake :: "host_key_callback \<Rightarrow> auth_method list \<Rightarrow> string + unit"

datatype dial_fail =
    DialTarget target_err
  | DialTCP string string
  | DialHandshake string string
  | DialCancelled string

text \<open>
  The outcome: whether the agent's socket was opened and is still open, the deadline of the
  connection to the server if it is open (\<open>Some None\<close>: open, with its deadline cleared), and the
  attempt.
\<close>

record dial_out =
  do_result :: "dial_fail + unit"
  do_agent_used :: bool
  do_agent_open :: bool
  do_conn :: "nat option option"
  do_attempt :: attempt

definition uses_agent :: "auth_method list \<Rightarrow> bool" where
  "uses_agent ms \<longleftrightarrow> (\<exists>m \<in> set ms. case m of AgentKeys _ \<Rightarrow> True | _ \<Rightarrow> False)"

definition agent_cleanup :: "dial_out \<Rightarrow> dial_out" where
  "agent_cleanup d = d\<lparr>do_agent_open := False\<rparr>"

definition conn_Close :: "dial_out \<Rightarrow> dial_out" where
  "conn_Close d = d\<lparr>do_conn := None\<rparr>"

definition dial_failed :: "dial_fail \<Rightarrow> dial_out \<Rightarrow> dial_out" where
  "dial_failed e d = d\<lparr>do_result := Inl e\<rparr>"

definition ssh_dial ::
  "ssh_host \<Rightarrow> target \<Rightarrow> bool \<Rightarrow> nat \<Rightarrow> dial_net \<Rightarrow> resolver \<Rightarrow> dial_out \<times> resolver"
where
  "ssh_dial h t via now net r =
     (let timeout = (if via then viaHandshakeTimeout else handshakeTimeout);
          att = newAttempt now timeout approvalTimeout;
          addr = target_addr t
      in case hostKeyCallback h t of
           Inl e \<Rightarrow> (\<lparr>do_result = Inl (DialTarget e), do_agent_used = False, do_agent_open = False,
                      do_conn = None, do_attempt = att\<rparr>, r)
         | Inr hkc \<Rightarrow>
             (case authMethods h t r of
                (Inl e, r) \<Rightarrow> (\<lparr>do_result = Inl (DialTarget e), do_agent_used = False, do_agent_open = False,
                               do_conn = None, do_attempt = att\<rparr>, r)
              | (Inr methods, r) \<Rightarrow>
                  let agent = uses_agent methods;
                      att = (if agent then attempt_add att else att);
                      out = \<lparr>do_result = Inr (), do_agent_used = agent, do_agent_open = agent,
                             do_conn = None, do_attempt = att\<rparr>
                  in (case dn_Dial net addr of
                        Inl e \<Rightarrow> (agent_cleanup (dial_failed (DialTCP addr e) out), r)
                      | Inr _ \<Rightarrow>
                          let att = fold attempt_do (dn_events net) (attempt_add att);
                              out = out\<lparr>do_attempt := att, do_conn := Some (Some (at_deadline att))\<rparr>
                          in (case dn_Handshake net hkc methods of
                                Inl e \<Rightarrow> (agent_cleanup (conn_Close (dial_failed (DialHandshake addr e) out)), r)
                              | Inr _ \<Rightarrow>
                                  if AttAbort \<in> set (dn_events net)
                                  then (agent_cleanup (conn_Close (dial_failed (DialCancelled addr) out)), r)
                                  else (agent_cleanup (out\<lparr>do_conn := Some None\<rparr>), r)))))"

section \<open>The watcher\<close>

record read_conn =
  rc_last :: nat
  rc_writing :: nat

definition rc_touch :: "nat \<Rightarrow> read_conn \<Rightarrow> read_conn" where
  "rc_touch now c = c\<lparr>rc_last := now\<rparr>"

definition rc_Read :: "nat \<Rightarrow> nat \<Rightarrow> bool \<Rightarrow> read_conn \<Rightarrow> read_conn" where
  "rc_Read now n failed c = (if failed then c\<lparr>rc_last := 0\<rparr> else if 0 < n then rc_touch now c else c)"

text \<open>
  What the watcher meets at a tick: whether the connection's end is taken first, the time, the
  connection, and how a probe sent now would fare.
\<close>

record watch_tick =
  tk_closed :: bool
  tk_now :: nat
  tk_conn :: read_conn
  tk_answer :: "(nat \<times> bool) option"
  tk_writing :: "nat \<Rightarrow> bool"

datatype watch_end = WatchClosed | WatchFailed nat keepalive_result

fun watch :: "watch_tick list \<Rightarrow> watch_end option" where
  "watch [] = None"
| "watch (k # ks) =
     (if tk_closed k then Some WatchClosed
      else if tk_now k < rc_last (tk_conn k) + heartbeat then watch ks
      else (case keepalive (tk_answer k) (tk_writing k) of
              Alive \<Rightarrow> watch ks
            | res \<Rightarrow> Some (WatchFailed (tk_now k) res)))"

section \<open>Properties\<close>

text \<open>C30. The keepalive probe always ends with the right verdict: it polls from \<open>probe\<close> on, every second
  while a write is blocked, until \<open>stall\<close> at the latest. It passes only if the answer came without an
  error, it fails as timed out at the first poll without a blocked write, and as stalled only after a
  write was blocked at every poll.\<close>

theorem keepalive_verdict:
  "case keepalive answer writing of
     Timeout u \<Rightarrow> probe \<le> u \<and> u \<le> stall \<and> answered answer u = None \<and> \<not> writing u
       \<and> (\<forall>v \<in> {probe..<u}. writing v)
   | Stalled u \<Rightarrow> u = stall \<and> answered answer u = None \<and> (\<forall>v \<in> {probe..u}. writing v)
   | res \<Rightarrow> answered answer stall = Some res"
  using keepalive_poll_ok [of probe answer writing]
  by (auto simp: keepalive_ok_def keepalive_def split: keepalive_result.splits)

lemma keepalive_verdict_witness:
  "keepalive None (\<lambda>v. v < 7) = Timeout 7 \<and> \<not> (7::nat) < 7"
proof -
  have "keepalive None (\<lambda>v. v < 7) = Timeout 7"
    by (simp add: keepalive_def keepalive_poll.simps answered_def)
  with keepalive_verdict [of None "\<lambda>v. v < 7"] show ?thesis by simp
qed

definition attempt_run :: "nat \<Rightarrow> nat \<Rightarrow> nat \<Rightarrow> attempt_op list \<Rightarrow> attempt" where
  "attempt_run now timeout approval ops = fold attempt_do ops (newAttempt now timeout approval)"

text \<open>Every socket of an attempt carries the attempt's one deadline, whatever was added, signed or
  aborted in whatever order; and an abort is final: no later sign request moves the deadline again.\<close>

theorem attempt_one_deadline:
  "set (at_conns (attempt_run now timeout approval ops)) \<subseteq> {at_deadline (attempt_run now timeout approval ops)}
   \<and> (AttAbort \<in> set ops \<longrightarrow> at_deadline (attempt_run now timeout approval ops) = 1)"
proof -
  let ?I = "\<lambda>(ab::bool) a. set (at_conns a) \<subseteq> {at_deadline a} \<and> at_aborted a = ab \<and> (ab \<longrightarrow> at_deadline a = 1)"
  have "?I (AttAbort \<in> set ops) (attempt_run now timeout approval ops)"
  proof (induction ops rule: rev_induct)
    case Nil
    then show ?case by (simp add: attempt_run_def newAttempt_def)
  next
    case (snoc x xs)
    then show ?case
      by (cases x) (auto simp: attempt_run_def attempt_defs)
  qed
  then show ?thesis by blast
qed

lemma attempt_one_deadline_witness:
  "AttAbort \<in> set [AttAdd, AttSignStart 5, AttAbort, AttAdd, AttSignDone 9]
   \<and> at_conns (attempt_run 0 15 60 [AttAdd, AttSignStart 5, AttAbort, AttAdd, AttSignDone 9]) = [1, 1]
   \<and> at_deadline (attempt_run 0 15 60 [AttAdd, AttSignStart 5, AttAbort, AttAdd, AttSignDone 9]) = 1"
  using attempt_one_deadline [of 0 15 60 "[AttAdd, AttSignStart 5, AttAbort, AttAdd, AttSignDone 9]"]
  by (simp add: attempt_run_def attempt_defs newAttempt_def)

text \<open>C26. A dial leaves nothing behind: the agent's socket is always closed again, the connection to the
  server stays open exactly if the dial succeeds, then with its deadline cleared, and it succeeds only
  if the context was not cancelled before the handshake was over, in which case every socket's
  deadline had passed.\<close>

theorem ssh_dial_leaves_nothing:
  "case ssh_dial h t via now net r of (d, _) \<Rightarrow>
     \<not> do_agent_open d
     \<and> do_conn d = (case do_result d of Inl _ \<Rightarrow> None | Inr _ \<Rightarrow> Some None)
     \<and> (AttAbort \<in> set (dn_events net) \<longrightarrow> do_result d \<noteq> Inr ()
          \<and> (\<forall>e. do_result d = Inl (DialCancelled e) \<longrightarrow> at_deadline (do_attempt d) = 1))"
proof -
  have "at_deadline (fold attempt_do ops a) = 1" if "AttAbort \<in> set ops" for ops a
    using that
  proof (induction ops arbitrary: a)
    case (Cons x ops)
    have stays: "at_aborted b \<Longrightarrow> at_deadline b = 1 \<Longrightarrow> at_deadline (fold attempt_do ops b) = 1" for b
    proof (induction ops arbitrary: b)
      case (Cons y ys)
      then show ?case using attempt_abort_stable [of b y] by simp
    qed simp
    show ?case
      using Cons stays [of "attempt_do AttAbort a"] by (cases "x = AttAbort") (auto simp: attempt_abort_def)
  qed simp
  then show ?thesis
    by (auto simp: ssh_dial_def Let_def agent_cleanup_def conn_Close_def dial_failed_def
        split: sum.splits prod.splits)
qed

lemma ssh_dial_leaves_nothing_witness:
  "let net = \<lparr>dn_Dial = (\<lambda>_. Inr ()), dn_events = [AttSignStart 3, AttAbort], dn_Handshake = (\<lambda>_ _. Inr ())\<rparr>;
       d = fst (ssh_dial sample_host sample_target False 0 net (secret_new []))
   in AttAbort \<in> set (dn_events net) \<and> do_conn d = None \<and> at_deadline (do_attempt d) = 1
     \<and> do_result d = Inl (DialCancelled (target_addr sample_target))"
proof -
  let ?net = "\<lparr>dn_Dial = (\<lambda>_. Inr ()), dn_events = [AttSignStart 3, AttAbort], dn_Handshake = (\<lambda>_ _. Inr ())\<rparr>"
  have r: "do_result (fst (ssh_dial sample_host sample_target False 0 ?net (secret_new [])))
      = Inl (DialCancelled (target_addr sample_target))"
    by code_simp
  then show ?thesis
    using ssh_dial_leaves_nothing [where h = sample_host and t = sample_target and via = False and now = 0
        and net = ?net and r = "secret_new []"]
    by (simp add: Let_def split: prod.splits)
qed



definition dead_tick :: "nat \<Rightarrow> nat \<Rightarrow> watch_tick" where
  "dead_tick l now = \<lparr>tk_closed = False, tk_now = now, tk_conn = \<lparr>rc_last = l, rc_writing = 0\<rparr>,
     tk_answer = None, tk_writing = (\<lambda>_. False)\<rparr>"

lemma keepalive_idle: "keepalive None (\<lambda>_. False) = Timeout probe"
  by (simp add: keepalive_def keepalive_poll.simps answered_def)

lemma watch_dead_tick:
  "watch (dead_tick l now # ks) = (if now < l + heartbeat then watch ks else Some (WatchFailed now (Timeout probe)))"
  by (simp add: dead_tick_def keepalive_idle)

lemma watch_dead_ticks:
  "l + heartbeat \<le> now + n * heartbeat \<Longrightarrow> now < l + 2 * heartbeat \<Longrightarrow>
     \<exists>u. watch (map (\<lambda>i. dead_tick l (now + i * heartbeat)) [0..<Suc n]) = Some (WatchFailed u (Timeout probe))
       \<and> l + heartbeat \<le> u \<and> u < l + 2 * heartbeat"
proof (induction n arbitrary: now)
  case 0
  then show ?case by (simp add: watch_dead_tick del: watch.simps)
next
  case (Suc n)
  have "map (\<lambda>i. dead_tick l (now + i * heartbeat)) [0..<Suc (Suc n)]
      = dead_tick l now # map (\<lambda>i. dead_tick l ((now + heartbeat) + i * heartbeat)) [0..<Suc n]"
    by (simp only: upt_conv_Cons [of 0 "Suc (Suc n)"] map_Suc_upt [symmetric] map_map)
      (simp add: comp_def add.assoc)
  then show ?case
    using Suc.IH [of "now + heartbeat"] Suc.prems by (auto simp: watch_dead_tick simp del: upt_Suc watch.simps)
qed



end
