(* ===== verification/Machine.thy ===== *)
theory Machine
  imports Prelude
begin

text \<open>
  Machines: the states that sequences of steps reach, for the components that the code runs as
  concurrent goroutines (the relay of a connection, the ssh and VPN clients, the controller). A step
  is a partial function: \<open>None\<close> where the event cannot happen. The locales are what an invariant of a
  machine and a measure of its progress have to provide; each machine interprets them on its own
  steps.
\<close>

text \<open>The first goroutine function that can take a step takes it.\<close>

fun first_some :: "'a option list \<Rightarrow> 'a option" where
  "first_some [] = None"
| "first_some (x # xs) = (case x of None \<Rightarrow> first_some xs | Some y \<Rightarrow> Some y)"

inductive reachable :: "('e \<Rightarrow> 's \<Rightarrow> 's option) \<Rightarrow> 's \<Rightarrow> 's \<Rightarrow> bool"
  for step init
where
  reach_init: "reachable step init init"
| reach_step: "reachable step init s \<Longrightarrow> step e s = Some s' \<Longrightarrow> reachable step init s'"

fun run_events :: "('e \<Rightarrow> 's \<Rightarrow> 's option) \<Rightarrow> 'e list \<Rightarrow> 's \<Rightarrow> 's option" where
  "run_events step [] s = Some s"
| "run_events step (e # es) s = (case step e s of None \<Rightarrow> None | Some s' \<Rightarrow> run_events step es s')"

lemma run_events_append:
  "run_events step (es @ es') s = Option.bind (run_events step es s) (run_events step es')"
  by (induction es arbitrary: s) (auto split: option.splits)

lemma run_events_reachable:
  "reachable step init s \<Longrightarrow> run_events step es s = Some s' \<Longrightarrow> reachable step init s'"
  by (induction es arbitrary: s) (auto split: option.splits intro: reach_step)

lemma run_events_preserves:
  assumes "\<forall>e s s'. I s \<longrightarrow> step e s = Some s' \<longrightarrow> I s'"
  shows "I s \<Longrightarrow> run_events step es s = Some s' \<Longrightarrow> I s'"
  using assms by (induction es arbitrary: s) (auto split: option.splits)

lemmas run_reachable = run_events_reachable [OF reach_init]

locale machine_invariant =
  fixes step :: "'e \<Rightarrow> 's \<Rightarrow> 's option"
    and init :: 's
    and I :: "'s \<Rightarrow> bool"
  assumes initial: "I init"
    and preserved: "reachable step init s \<Longrightarrow> I s \<Longrightarrow> step e s = Some s' \<Longrightarrow> I s'"
begin

lemma holds: "reachable step init s \<Longrightarrow> I s"
  by (induction rule: reachable.induct) (auto intro: initial preserved)

lemma holds_run: "run_events step es init = Some s \<Longrightarrow> I s"
  by (rule holds [OF run_reachable])

end

text \<open>A machine that always makes progress: no schedule of it runs for ever.\<close>

locale machine_progress =
  fixes step :: "'e \<Rightarrow> 's \<Rightarrow> 's option"
    and R :: "('m \<times> 'm) set"
    and weight :: "'s \<Rightarrow> 'm"
  assumes wf_order: "wf R"
    and decreases: "step e s = Some s' \<Longrightarrow> (weight s', weight s) \<in> R"
begin

lemma wf_step: "wf {(s', s). \<exists>e. step e s = Some s'}"
  by (rule wf_subset [OF wf_inv_image [OF wf_order, of weight]]) (auto dest: decreases)

end

end
