(* ===== verification/VpnClient.thy ===== *)
theory VpnClient
  imports SshConn OpenConnect Machine
begin

text \<open>
  The life cycle of the VPN process, \<open>pkg/openconnect/client.go\<close>: \<open>get\<close>, \<open>start\<close>, \<open>stop\<close>, \<open>Up\<close>, \<open>Down\<close>,
  \<open>Close\<close> and the goroutine that waits for the process, as a machine of concurrent goroutines. What
  \<open>mu\<close> protects changes while it is held; the atomics, and the closing of \<open>done\<close>, are steps of their
  own. The process itself (when it exits, whether the tunnel answers), the clock and the outcome of
  resolving secrets and starting the command are events.
\<close>

section \<open>State\<close>

text \<open>
  The waiting goroutine of a process: it takes note of the exit, computes \<open>dropped\<close>, publishes the
  state and closes \<open>done\<close>.
\<close>

datatype proc_stat = Running | Exited | Noted bool | Published bool | Done bool

record vproc =
  vp_up :: bool
  vp_stopping :: bool
  vp_stat :: proc_stat

datatype vpn_result = GotAddr nat | VpnDisconnected | VpnClosed | VpnError string

text \<open>Where a goroutine is; the numbers are processes.\<close>

datatype vpc =
    VIdle
  | VUp
  | GWait bool nat
  | GLocked bool nat
  | GProc bool nat
  | GCheck bool nat
  | GPublish
  | GConnecting
  | GStart
  | GPoll nat
  | GStop nat vpn_result
  | GStopWait nat vpn_result
  | GFailed vpn_result
  | GOk nat
  | GRelease vpn_result
  | DStart
  | DAbort
  | DWait
  | DLocked
  | DStop nat
  | DStopWait nat
  | DSet
  | CCancel
  | CWait
  | CLocked
  | CStop nat
  | CStopWait nat
  | CSet
  | VReturned vpn_result
  | VReturnedUnit

record vpn_st =
  n_now :: nat
  n_mu :: "nat option"
  n_proc :: "nat option"
  n_tab :: "nat \<Rightarrow> vproc"
  n_next :: nat
  n_lastErr :: "(vpn_result \<times> nat) option"
  n_state :: conn_state
  n_held :: bool
  n_manualOnly :: bool
  n_closed :: bool
  n_abort :: "nat option"
  n_cancelled :: "nat \<Rightarrow> bool"
  n_drops :: "nat list"
  n_pc :: "nat \<Rightarrow> vpc"

definition vpn_init :: vpn_st where
  "vpn_init = \<lparr>n_now = 0, n_mu = None, n_proc = None,
     n_tab = (\<lambda>_. \<lparr>vp_up = False, vp_stopping = False, vp_stat = Done False\<rparr>), n_next = 0,
     n_lastErr = None, n_state = ConnUnknown, n_held = False, n_manualOnly = False, n_closed = False,
     n_abort = None, n_cancelled = (\<lambda>_. False), n_drops = [], n_pc = (\<lambda>_. VIdle)\<rparr>"

definition vgo :: "nat \<Rightarrow> vpc \<Rightarrow> vpn_st \<Rightarrow> vpn_st" where
  "vgo t p s = s\<lparr>n_pc := (n_pc s)(t := p)\<rparr>"

definition vset :: "nat \<Rightarrow> (vproc \<Rightarrow> vproc) \<Rightarrow> vpn_st \<Rightarrow> vpn_st" where
  "vset p f s = s\<lparr>n_tab := (n_tab s)(p := f (n_tab s p))\<rparr>"

abbreviation pstat :: "vpn_st \<Rightarrow> nat \<Rightarrow> proc_stat" where
  "pstat s p \<equiv> vp_stat (n_tab s p)"

definition exited :: "vpn_st \<Rightarrow> nat \<Rightarrow> bool" where
  "exited s p \<longleftrightarrow> (case pstat s p of Done _ \<Rightarrow> True | _ \<Rightarrow> False)"

definition vlock :: "nat \<Rightarrow> vpc \<Rightarrow> vpn_st \<Rightarrow> vpn_st option" where
  "vlock t p s = (if n_mu s = None then Some (vgo t p (s\<lparr>n_mu := Some t\<rparr>)) else None)"

definition vpn_setAbort :: "nat option \<Rightarrow> vpn_st \<Rightarrow> bool \<times> vpn_st" where
  "vpn_setAbort cancel s =
     (if cancel \<noteq> None \<and> n_held s then (False, s) else (True, s\<lparr>n_abort := cancel\<rparr>))"

section \<open>Steps of the functions\<close>

text \<open>\<open>get\<close>, up to the start of the process and from its end on.\<close>

definition vget_step :: "nat \<Rightarrow> vpn_st \<Rightarrow> vpn_st option" where
  "vget_step t s =
     (case n_pc s t of
        GWait e q \<Rightarrow> vlock t (GLocked e q) s
      | GLocked e q \<Rightarrow>
          Some (if n_closed s then vgo t (VReturned VpnClosed) (s\<lparr>n_mu := None\<rparr>) else vgo t (GProc e q) s)
      | GProc e q \<Rightarrow>
          (case n_proc s of
             Some p \<Rightarrow>
               if exited s p then Some (vgo t (GCheck e q) (s\<lparr>n_proc := None\<rparr>))
               else Some (vgo t (VReturned (GotAddr p)) (s\<lparr>n_state := ConnConnected, n_mu := None\<rparr>))
           | None \<Rightarrow> Some (vgo t (GCheck e q) s))
      | GCheck e q \<Rightarrow>
          if \<not> e \<and> n_manualOnly s then Some (vgo t (VReturned VpnDisconnected) (s\<lparr>n_mu := None\<rparr>))
          else (case n_lastErr s of
                  Some (err, when) \<Rightarrow>
                    if when > q then Some (vgo t (VReturned err) (s\<lparr>n_mu := None\<rparr>)) else Some (vgo t GPublish s)
                | None \<Rightarrow> Some (vgo t GPublish s))
      | GPublish \<Rightarrow>
          (case vpn_setAbort (Some t) (s\<lparr>n_cancelled := (n_cancelled s)(t := False)\<rparr>) of
             (False, _) \<Rightarrow> Some (vgo t (VReturned VpnDisconnected) (s\<lparr>n_mu := None\<rparr>))
           | (True, s) \<Rightarrow> Some (vgo t GConnecting s))
      | GConnecting \<Rightarrow> Some (vgo t GStart (s\<lparr>n_state := ConnConnecting\<rparr>))
      | GFailed r \<Rightarrow>
          Some (vgo t (GRelease r) (s\<lparr>n_state := ConnDisconnected,
            n_lastErr := (if n_cancelled s t then n_lastErr s else Some (r, n_now s))\<rparr>))
      | GOk p \<Rightarrow>
          Some (vgo t (GRelease (GotAddr p)) (s\<lparr>n_proc := Some p, n_lastErr := None, n_state := ConnConnected\<rparr>))
      | GRelease r \<Rightarrow> Some (vgo t (VReturned r) ((snd (vpn_setAbort None s))\<lparr>n_mu := None\<rparr>))
      | _ \<Rightarrow> None)"

text \<open>\<open>stop\<close>: it marks the process and waits until \<open>done\<close> is closed.\<close>

definition stop_mark :: "nat \<Rightarrow> vpn_st \<Rightarrow> vpn_st" where
  "stop_mark p s = vset p (\<lambda>v. v\<lparr>vp_stopping := True\<rparr>) s"

definition stop_step :: "nat \<Rightarrow> vpn_st \<Rightarrow> vpn_st option" where
  "stop_step t s =
     (case n_pc s t of
        GStop p r \<Rightarrow> Some (vgo t (GStopWait p r) (stop_mark p s))
      | GStopWait p r \<Rightarrow> if exited s p then Some (vgo t (GFailed r) s) else None
      | DStop p \<Rightarrow> Some (vgo t (DStopWait p) (stop_mark p s))
      | DStopWait p \<Rightarrow> if exited s p then Some (vgo t DSet (s\<lparr>n_proc := None\<rparr>)) else None
      | CStop p \<Rightarrow> Some (vgo t (CStopWait p) (stop_mark p s))
      | CStopWait p \<Rightarrow> if exited s p then Some (vgo t CSet (s\<lparr>n_proc := None\<rparr>)) else None
      | _ \<Rightarrow> None)"

definition vUp_step :: "nat \<Rightarrow> vpn_st \<Rightarrow> vpn_st option" where
  "vUp_step t s = (case n_pc s t of VUp \<Rightarrow> Some (vgo t (GWait True (n_now s)) (s\<lparr>n_held := False\<rparr>)) | _ \<Rightarrow> None)"

definition vDown_step :: "nat \<Rightarrow> vpn_st \<Rightarrow> vpn_st option" where
  "vDown_step t s =
     (case n_pc s t of
        DStart \<Rightarrow> Some (vgo t DAbort (s\<lparr>n_held := True\<rparr>))
      | DAbort \<Rightarrow>
          Some (vgo t DWait (case n_abort s of None \<Rightarrow> s | Some u \<Rightarrow> s\<lparr>n_cancelled := (n_cancelled s)(u := True)\<rparr>))
      | DWait \<Rightarrow> vlock t DLocked s
      | DLocked \<Rightarrow> Some (vgo t (case n_proc s of None \<Rightarrow> DSet | Some p \<Rightarrow> DStop p) s)
      | DSet \<Rightarrow> Some (vgo t VReturnedUnit (s\<lparr>n_lastErr := None, n_state := ConnUnknown, n_mu := None\<rparr>))
      | _ \<Rightarrow> None)"

definition vClose_step :: "nat \<Rightarrow> vpn_st \<Rightarrow> vpn_st option" where
  "vClose_step t s =
     (case n_pc s t of
        CCancel \<Rightarrow> Some (vgo t CWait (s\<lparr>n_closed := True\<rparr>))
      | CWait \<Rightarrow> vlock t CLocked s
      | CLocked \<Rightarrow> Some (vgo t (case n_proc s of None \<Rightarrow> CSet | Some p \<Rightarrow> CStop p) s)
      | CSet \<Rightarrow> Some (vgo t VReturnedUnit (s\<lparr>n_state := ConnDisconnected, n_mu := None\<rparr>))
      | _ \<Rightarrow> None)"

section \<open>Events\<close>

text \<open>
  \<open>start\<close> ends early, or the command starts; then each \<open>Poll\<close> is one turn of its select. The second
  group is the waiting goroutine of a process.
\<close>

datatype poll = PollDone | PollCancelled | PollClosed | PollDeadline | PollReady

datatype vpn_event =
    VGet nat
  | VCallUp nat
  | VDown nat
  | VClose nat
  | VSetAutoconnect bool
  | VRun nat
  | StartFails nat string
  | CmdStart nat
  | Poll nat poll
  | VCancel nat
  | ProcExits nat
  | WaiterReads nat
  | WaiterPublishes nat
  | WaiterCloses nat
  | VTick

definition start_poll :: "nat \<Rightarrow> nat \<Rightarrow> poll \<Rightarrow> vpn_st \<Rightarrow> vpn_st option" where
  "start_poll t p k s =
     (case k of
        PollDone \<Rightarrow> if exited s p then Some (vgo t (GFailed (VpnError ''exited'')) s) else None
      | PollCancelled \<Rightarrow> if n_cancelled s t then Some (vgo t (GStop p (VpnError ''cancelled'')) s) else None
      | PollClosed \<Rightarrow> if n_closed s then Some (vgo t (GStop p VpnClosed) s) else None
      | PollDeadline \<Rightarrow> Some (vgo t (GStop p (VpnError ''tunnel not up'')) s)
      | PollReady \<Rightarrow> Some (vgo t (GOk p) (vset p (\<lambda>v. v\<lparr>vp_up := True\<rparr>) s)))"

definition vpn_run :: "nat \<Rightarrow> vpn_st \<Rightarrow> vpn_st option" where
  "vpn_run t s = first_some [vget_step t s, stop_step t s, vUp_step t s, vDown_step t s, vClose_step t s]"

definition vidle :: "vpn_st \<Rightarrow> nat \<Rightarrow> bool" where
  "vidle s t \<longleftrightarrow> (case n_pc s t of VIdle \<Rightarrow> True | VReturned _ \<Rightarrow> True | VReturnedUnit \<Rightarrow> True | _ \<Rightarrow> False)"

definition vcall :: "nat \<Rightarrow> vpc \<Rightarrow> vpn_st \<Rightarrow> vpn_st option" where
  "vcall t p s = (if vidle s t then Some (vgo t p s) else None)"

fun vpn_step :: "vpn_event \<Rightarrow> vpn_st \<Rightarrow> vpn_st option" where
  "vpn_step (VGet t) s = vcall t (GWait False (n_now s)) s"
| "vpn_step (VCallUp t) s = vcall t VUp s"
| "vpn_step (VDown t) s = vcall t DStart s"
| "vpn_step (VClose t) s = vcall t CCancel s"
| "vpn_step (VSetAutoconnect on) s = Some (s\<lparr>n_manualOnly := \<not> on\<rparr>)"
| "vpn_step (VRun t) s = vpn_run t s"
| "vpn_step (StartFails t err) s =
     (if n_pc s t = GStart then Some (vgo t (GFailed (VpnError err)) s) else None)"
| "vpn_step (CmdStart t) s =
     (if n_pc s t = GStart \<and> \<not> n_closed s
      then Some (vgo t (GPoll (n_next s)) (s\<lparr>n_next := Suc (n_next s),
             n_tab := (n_tab s)(n_next s := \<lparr>vp_up = False, vp_stopping = False, vp_stat = Running\<rparr>)\<rparr>))
      else None)"
| "vpn_step (Poll t k) s = (case n_pc s t of GPoll p \<Rightarrow> start_poll t p k s | _ \<Rightarrow> None)"
| "vpn_step (VCancel t) s = Some (s\<lparr>n_cancelled := (n_cancelled s)(t := True)\<rparr>)"
| "vpn_step (ProcExits p) s =
     (if p < n_next s \<and> pstat s p = Running then Some (vset p (\<lambda>v. v\<lparr>vp_stat := Exited\<rparr>) s) else None)"
| "vpn_step (WaiterReads p) s =
     (if p < n_next s \<and> pstat s p = Exited
      then Some (vset p (\<lambda>v. v\<lparr>vp_stat := Noted (vp_up v \<and> \<not> vp_stopping v \<and> \<not> n_closed s)\<rparr>) s) else None)"
| "vpn_step (WaiterPublishes p) s =
     (case pstat s p of
        Noted d \<Rightarrow> if p < n_next s
          then Some ((vset p (\<lambda>v. v\<lparr>vp_stat := Published d\<rparr>) s)\<lparr>n_state := ConnDisconnected\<rparr>) else None
      | _ \<Rightarrow> None)"
| "vpn_step (WaiterCloses p) s =
     (case pstat s p of
        Published d \<Rightarrow> if p < n_next s
          then Some ((vset p (\<lambda>v. v\<lparr>vp_stat := Done d\<rparr>) s)\<lparr>n_drops := (if d then p # n_drops s else n_drops s)\<rparr>)
          else None
      | _ \<Rightarrow> None)"
| "vpn_step VTick s = Some (s\<lparr>n_now := Suc (n_now s)\<rparr>)"

abbreviation vpn_reach :: "vpn_st \<Rightarrow> bool" where
  "vpn_reach \<equiv> reachable vpn_step vpn_init"

section \<open>Invariants\<close>

fun vholds :: "vpc \<Rightarrow> bool" where
  "vholds (VIdle) = False"
| "vholds VUp = False"
| "vholds (GWait _ _) = False"
| "vholds DStart = False"
| "vholds DAbort = False"
| "vholds DWait = False"
| "vholds CCancel = False"
| "vholds CWait = False"
| "vholds (VReturned _) = False"
| "vholds VReturnedUnit = False"
| "vholds _ = True"

fun vpublished :: "vpc \<Rightarrow> bool" where
  "vpublished GConnecting = True"
| "vpublished GStart = True"
| "vpublished (GPoll _) = True"
| "vpublished (GStop _ _) = True"
| "vpublished (GStopWait _ _) = True"
| "vpublished (GFailed _) = True"
| "vpublished (GOk _) = True"
| "vpublished (GRelease _) = True"
| "vpublished _ = False"

text \<open>Where there is no current process.\<close>

fun no_proc :: "vpc \<Rightarrow> bool" where
  "no_proc (GCheck _ _) = True"
| "no_proc GPublish = True"
| "no_proc DSet = True"
| "no_proc (GRelease _) = False"
| "no_proc p = vpublished p"

text \<open>The process that \<open>start\<close> has in hand, and the one that \<open>Down\<close> or \<open>Close\<close> is stopping.\<close>

fun hand :: "vpc \<Rightarrow> nat option" where
  "hand (GPoll p) = Some p"
| "hand (GStop p _) = Some p"
| "hand (GStopWait p _) = Some p"
| "hand (GOk p) = Some p"
| "hand _ = None"

fun stops :: "vpc \<Rightarrow> nat option" where
  "stops (DStop p) = Some p"
| "stops (DStopWait p) = Some p"
| "stops (CStop p) = Some p"
| "stops (CStopWait p) = Some p"
| "stops _ = None"

fun vdowning :: "vpc \<Rightarrow> bool" where
  "vdowning DAbort = True"
| "vdowning DWait = True"
| "vdowning DLocked = True"
| "vdowning (DStop _) = True"
| "vdowning (DStopWait _) = True"
| "vdowning DSet = True"
| "vdowning _ = False"

lemma published_vholds: "vpublished p \<Longrightarrow> vholds p" and no_proc_vholds: "no_proc p \<Longrightarrow> vholds p"
  and stops_vholds: "stops p = Some q \<Longrightarrow> vholds p"
  by (cases p; simp)+

definition vmu_inv :: "vpn_st \<Rightarrow> bool" where
  "vmu_inv s \<longleftrightarrow> (\<forall>t. (n_mu s = Some t \<longleftrightarrow> vholds (n_pc s t)) \<and> (n_abort s = Some t \<longleftrightarrow> vpublished (n_pc s t))
     \<and> (no_proc (n_pc s t) \<longrightarrow> n_proc s = None)
     \<and> (\<forall>p. stops (n_pc s t) = Some p \<longrightarrow> n_proc s = Some p))"


lemma vgo_simps [simp]:
  "n_pc (vgo t p s) = (n_pc s)(t := p)" "n_mu (vgo t p s) = n_mu s" "n_proc (vgo t p s) = n_proc s"
  "n_tab (vgo t p s) = n_tab s" "n_next (vgo t p s) = n_next s" "n_held (vgo t p s) = n_held s"
  "n_abort (vgo t p s) = n_abort s" "n_drops (vgo t p s) = n_drops s" "n_cancelled (vgo t p s) = n_cancelled s"
  by (simp_all add: vgo_def)

lemma vset_simps [simp]:
  "n_pc (vset p f s) = n_pc s" "n_mu (vset p f s) = n_mu s" "n_proc (vset p f s) = n_proc s"
  "n_tab (vset p f s) = (n_tab s)(p := f (n_tab s p))" "n_next (vset p f s) = n_next s"
  "n_held (vset p f s) = n_held s" "n_abort (vset p f s) = n_abort s" "n_drops (vset p f s) = n_drops s"
  by (simp_all add: vset_def)

lemmas vpn_run_defs = vpn_run_def vget_step_def stop_step_def vUp_step_def vDown_step_def vClose_step_def
  vlock_def vpn_setAbort_def stop_mark_def

lemma vmu_others:
  assumes "vmu_inv s" "vholds (n_pc s t)" "u \<noteq> t"
  shows "\<not> vholds (n_pc s u) \<and> \<not> vpublished (n_pc s u) \<and> \<not> no_proc (n_pc s u) \<and> stops (n_pc s u) = None"
proof -
  have "\<not> vholds (n_pc s u)" using assms by (auto simp: vmu_inv_def) (metis option.inject)
  then show ?thesis
    using published_vholds no_proc_vholds stops_vholds by (metis not_Some_eq)
qed

lemma vmu_holder:
  assumes "vmu_inv s" "vholds (n_pc s t)"
  shows "n_mu s = Some t" "n_abort s = (if vpublished (n_pc s t) then Some t else None)"
proof -
  show "n_mu s = Some t" using assms by (simp add: vmu_inv_def)
  have "n_abort s = Some u \<longleftrightarrow> u = t \<and> vpublished (n_pc s t)" for u
    using assms(1) vmu_others [OF assms, of u] by (auto simp: vmu_inv_def)
  then show "n_abort s = (if vpublished (n_pc s t) then Some t else None)"
    by (cases "n_abort s") auto
qed

lemma vmu_inv_holder:
  assumes "vmu_inv s" "vholds (n_pc s t)" "n_pc s2 = n_pc s"
    and "n_mu s2 = (if vholds p then Some t else None)" "n_abort s2 = (if vpublished p then Some t else None)"
    and "no_proc p \<longrightarrow> n_proc s2 = None" "\<forall>q. stops p = Some q \<longrightarrow> n_proc s2 = Some q"
  shows "vmu_inv (vgo t p s2)"
  using assms vmu_others [OF assms(1,2)] unfolding vmu_inv_def by auto

lemma vmu_inv_lock:
  assumes "vmu_inv s" "n_mu s = None" "vholds p" "\<not> no_proc p" "stops p = None" "\<not> vpublished p"
  shows "vmu_inv (vgo t p (s\<lparr>n_mu := Some t\<rparr>))"
  using assms published_vholds no_proc_vholds stops_vholds unfolding vmu_inv_def by auto

lemma vmu_inv_free:
  assumes "vmu_inv s" "\<not> vholds (n_pc s t)" "\<not> vholds p" "n_pc s2 = n_pc s" "n_mu s2 = n_mu s"
    "n_abort s2 = n_abort s" "n_proc s2 = n_proc s"
  shows "vmu_inv (vgo t p s2)"
  using assms published_vholds no_proc_vholds stops_vholds unfolding vmu_inv_def by auto

lemma vmu_inv_same:
  "vmu_inv s \<Longrightarrow> n_pc s2 = n_pc s \<Longrightarrow> n_mu s2 = n_mu s \<Longrightarrow> n_abort s2 = n_abort s \<Longrightarrow> n_proc s2 = n_proc s
     \<Longrightarrow> vmu_inv s2"
  by (simp add: vmu_inv_def)

lemma vmu_facts:
  assumes "vmu_inv s"
  shows "no_proc (n_pc s t) \<Longrightarrow> n_proc s = None" "stops (n_pc s t) = Some p \<Longrightarrow> n_proc s = Some p"
  using assms by (auto simp: vmu_inv_def)

lemma vmu_inv_run:
  assumes I: "vmu_inv s" and r: "vpn_run t s = Some s'"
  shows "vmu_inv s'"
proof (cases "vholds (n_pc s t)")
  case True
  note h = vmu_holder [OF I True] vmu_facts [OF I, of t]
  show ?thesis
    using r True h by (cases "n_pc s t")
      (auto simp: vpn_run_defs split: if_splits option.splits intro!: vmu_inv_holder [OF I])
next
  case False
  show ?thesis
    using r False by (cases "n_pc s t")
      (auto simp: vpn_run_defs split: if_splits option.splits
        intro!: vmu_inv_free [OF I] vmu_inv_lock [OF I])
qed

lemma vmu_inv_poll:
  assumes I: "vmu_inv s" and p: "n_pc s t = GPoll p" and r: "start_poll t p k s = Some s'"
  shows "vmu_inv s'"
proof -
  have h: "vholds (n_pc s t)" using p by simp
  show ?thesis
    using r p vmu_holder [OF I h] vmu_facts [OF I, of t]
    by (cases k) (auto simp: start_poll_def split: if_splits intro!: vmu_inv_holder [OF I])
qed

lemma vidle_holds: "vidle s t \<Longrightarrow> \<not> vholds (n_pc s t)"
  and vidle_hand: "vidle s t \<Longrightarrow> hand (n_pc s t) = None"
  and vidle_downing: "vidle s t \<Longrightarrow> \<not> vdowning (n_pc s t)"
  by (cases "n_pc s t"; simp add: vidle_def)+

lemma vmu_inv_start:
  assumes I: "vmu_inv s" and p: "n_pc s t = GStart" and q: "vholds q" "vpublished q" "stops q = None"
    and e: "n_pc s2 = n_pc s" "n_mu s2 = n_mu s" "n_abort s2 = n_abort s" "n_proc s2 = n_proc s"
  shows "vmu_inv (vgo t q s2)"
proof -
  have h: "vholds (n_pc s t)" using p by simp
  show ?thesis
    using vmu_holder [OF I h] vmu_facts [OF I, of t] p q e by (intro vmu_inv_holder [OF I]) auto
qed

lemma vcall_cases: "vcall t p s = Some s' \<Longrightarrow> s' = vgo t p s \<and> vidle s t"
  by (simp add: vcall_def split: if_splits)

lemma vmu_inv_call: "vmu_inv s \<Longrightarrow> vcall t p s = Some s' \<Longrightarrow> \<not> vholds p \<Longrightarrow> vmu_inv s'"
  using vcall_cases [of t p s s'] vmu_inv_free [of s t p s] vidle_holds [of s t] by simp

lemma vmu_inv_step:
  assumes I: "vmu_inv s" and r: "vpn_step e s = Some s'"
  shows "vmu_inv s'"
proof (cases e)
  case (VRun t)
  then show ?thesis using vmu_inv_run [OF I] r by simp
next
  case (Poll t k)
  with r obtain p where "n_pc s t = GPoll p" "start_poll t p k s = Some s'" by (auto split: vpc.splits)
  then show ?thesis by (rule vmu_inv_poll [OF I])
next
  case (StartFails t err)
  with r show ?thesis by (auto split: if_splits intro!: vmu_inv_start [OF I])
next
  case (CmdStart t)
  with r show ?thesis by (auto split: if_splits intro!: vmu_inv_start [OF I])
next
  case (WaiterReads p)
  with r show ?thesis by (auto split: if_splits intro!: vmu_inv_same [OF I])
next
  case (WaiterPublishes p)
  with r show ?thesis by (auto split: if_splits proc_stat.splits intro!: vmu_inv_same [OF I])
next
  case (WaiterCloses p)
  with r show ?thesis by (auto split: if_splits proc_stat.splits intro!: vmu_inv_same [OF I])
next
  case (ProcExits p)
  with r show ?thesis by (auto split: if_splits intro!: vmu_inv_same [OF I])
qed (use r in \<open>auto dest: vmu_inv_call [OF I] intro: vmu_inv_same [OF I]\<close>)

interpretation vpn_mu: machine_invariant vpn_step vpn_init vmu_inv
proof
  show "vmu_inv vpn_init" by (simp add: vmu_inv_def vpn_init_def)
  show "vmu_inv s'" if "vpn_reach s" "vmu_inv s" "vpn_step e s = Some s'" for s e s'
    using that vmu_inv_step by blast
qed

text \<open>A process that has not exited is the current one or in the hands of the goroutine that started it.\<close>

definition live_inv :: "vpn_st \<Rightarrow> bool" where
  "live_inv s \<longleftrightarrow> (\<forall>p < n_next s. \<not> exited s p \<longrightarrow> n_proc s = Some p \<or> (\<exists>t. hand (n_pc s t) = Some p))"

lemma live_invD: "live_inv s \<Longrightarrow> p < n_next s \<Longrightarrow> \<not> exited s p \<Longrightarrow> n_proc s = Some p \<or> (\<exists>t. hand (n_pc s t) = Some p)"
  by (simp add: live_inv_def)

lemma exited_simps [simp]:
  "exited (vgo t q s) = exited s" "exited (stop_mark p s) = exited s"
  "exited (s\<lparr>n_proc := x1\<rparr>) = exited s" "exited (s\<lparr>n_mu := x2\<rparr>) = exited s"
  "exited (s\<lparr>n_state := x3\<rparr>) = exited s" "exited (s\<lparr>n_lastErr := x4\<rparr>) = exited s"
  "exited (s\<lparr>n_abort := x5\<rparr>) = exited s" "exited (s\<lparr>n_cancelled := x6\<rparr>) = exited s"
  "exited (s\<lparr>n_held := x7\<rparr>) = exited s" "exited (s\<lparr>n_closed := x8\<rparr>) = exited s"
  "exited (s\<lparr>n_manualOnly := x9\<rparr>) = exited s" "exited (s\<lparr>n_now := x10\<rparr>) = exited s"
  "exited (s\<lparr>n_drops := x11\<rparr>) = exited s" "exited (vset p (\<lambda>v. v\<lparr>vp_stopping := b\<rparr>) s) = exited s"
  "exited (vset p (\<lambda>v. v\<lparr>vp_up := b\<rparr>) s) = exited s"
  by (simp_all add: exited_def vgo_def vset_def stop_mark_def fun_eq_iff)

lemma stop_mark_simps [simp]:
  "n_pc (stop_mark p s) = n_pc s" "n_mu (stop_mark p s) = n_mu s" "n_proc (stop_mark p s) = n_proc s"
  "n_next (stop_mark p s) = n_next s" "n_abort (stop_mark p s) = n_abort s" "n_held (stop_mark p s) = n_held s"
  "n_drops (stop_mark p s) = n_drops s"
  by (simp_all add: stop_mark_def)

lemma live_inv_go:
  assumes "live_inv s" "n_pc s2 = n_pc s" "n_next s2 = n_next s" "\<And>p. exited s p \<Longrightarrow> exited s2 p"
    and "\<And>p. n_proc s = Some p \<Longrightarrow> n_proc s2 = Some p \<or> exited s p \<or> hand q = Some p"
    and "\<And>p. hand (n_pc s t) = Some p \<Longrightarrow> hand q = Some p \<or> exited s p \<or> n_proc s2 = Some p"
  shows "live_inv (vgo t q s2)"
  unfolding live_inv_def
proof (intro allI impI)
  fix p assume p: "p < n_next (vgo t q s2)" "\<not> exited (vgo t q s2) p"
  then have n: "p < n_next s" "\<not> exited s p" using assms(3,4) by auto
  show "n_proc (vgo t q s2) = Some p \<or> (\<exists>u. hand (n_pc (vgo t q s2) u) = Some p)"
  proof (cases "n_proc s = Some p")
    case True
    with assms(5) n show ?thesis by auto
  next
    case False
    then obtain u where "hand (n_pc s u) = Some p" using live_invD [OF assms(1) n] by blast
    with assms(2,6) n show ?thesis by (cases "u = t") auto
  qed
qed

lemma live_inv_same:
  assumes "live_inv s" "n_pc s2 = n_pc s" "n_next s2 = n_next s" "\<And>p. exited s p \<Longrightarrow> exited s2 p" "n_proc s2 = n_proc s"
  shows "live_inv s2"
  using assms unfolding live_inv_def by auto

lemma live_inv_run:
  assumes M: "vmu_inv s" and I: "live_inv s" and r: "vpn_run t s = Some s'"
  shows "live_inv s'"
proof (cases "n_pc s t")
  case (GOk p)
  then have "no_proc (n_pc s t)" by simp
  with GOk r vmu_facts(1) [OF M this] show ?thesis
    by (auto simp: vpn_run_defs intro!: live_inv_go [OF I])
next
  case (DStopWait p)
  then have "stops (n_pc s t) = Some p" by simp
  with DStopWait r vmu_facts(2) [OF M this] show ?thesis
    by (auto simp: vpn_run_defs split: if_splits intro!: live_inv_go [OF I])
next
  case (CStopWait p)
  then have "stops (n_pc s t) = Some p" by simp
  with CStopWait r vmu_facts(2) [OF M this] show ?thesis
    by (auto simp: vpn_run_defs split: if_splits intro!: live_inv_go [OF I])
next
  case (GCheck e q)
  with r show ?thesis
    by (auto simp: vpn_run_defs split: if_splits option.splits) ((rule live_inv_go [OF I]; simp)+)
qed (use r in \<open>auto simp: vpn_run_defs split: if_splits option.splits intro!: live_inv_go [OF I]\<close>)

lemma live_inv_poll:
  assumes M: "vmu_inv s" and I: "live_inv s" and p: "n_pc s t = GPoll p" and r: "start_poll t p k s = Some s'"
  shows "live_inv s'"
  using r p by (cases k)
    (auto simp: start_poll_def exited_def split: if_splits proc_stat.splits intro!: live_inv_go [OF I])

lemma live_inv_call:
  assumes "live_inv s" "vcall t q s = Some s'" "hand q = None"
  shows "live_inv s'"
proof -
  have s': "s' = vgo t q s" "hand (n_pc s t) = None"
    using vcall_cases [OF assms(2)] by (simp_all add: vidle_hand)
  show ?thesis unfolding s'(1) by (rule live_inv_go [OF assms(1)]) (simp_all add: s'(2))
qed

lemma live_inv_step:
  assumes M: "vmu_inv s" and I: "live_inv s" and r: "vpn_step e s = Some s'"
  shows "live_inv s'"
proof (cases e)
  case (VRun t)
  then show ?thesis using live_inv_run [OF M I] r by simp
next
  case (Poll t k)
  with r obtain p where "n_pc s t = GPoll p" "start_poll t p k s = Some s'" by (auto split: vpc.splits)
  then show ?thesis by (rule live_inv_poll [OF M I])
next
  case (CmdStart t)
  then have t: "n_pc s t = GStart" and s': "s' = vgo t (GPoll (n_next s)) (s\<lparr>n_next := Suc (n_next s),
             n_tab := (n_tab s)(n_next s := \<lparr>vp_up = False, vp_stopping = False, vp_stat = Running\<rparr>)\<rparr>)"
    using r by (auto split: if_splits)
  have x: "exited s' p = exited s p" if "p < n_next s" for p
    using that by (simp add: s' exited_def)
  show ?thesis
    unfolding live_inv_def
  proof (intro allI impI)
    fix p assume p: "p < n_next s'" "\<not> exited s' p"
    show "n_proc s' = Some p \<or> (\<exists>u. hand (n_pc s' u) = Some p)"
    proof (cases "p = n_next s")
      case False
      with p x have "n_proc s = Some p \<or> (\<exists>u. hand (n_pc s u) = Some p)"
        by (intro live_invD [OF I]) (auto simp: s')
      moreover have "u \<noteq> t" if "hand (n_pc s u) = Some p" for u using that t by auto
      ultimately show ?thesis by (auto simp: s')
    qed (auto simp: s')
  qed
next
  case (StartFails t err)
  with r show ?thesis by (auto split: if_splits intro!: live_inv_go [OF I])
next
  case (WaiterReads p)
  with r show ?thesis by (auto simp: exited_def split: if_splits proc_stat.splits intro!: live_inv_same [OF I])
next
  case (WaiterPublishes p)
  with r show ?thesis by (auto simp: exited_def split: if_splits proc_stat.splits intro!: live_inv_same [OF I])
next
  case (WaiterCloses p)
  with r show ?thesis by (auto simp: exited_def split: if_splits proc_stat.splits intro!: live_inv_same [OF I])
next
  case (ProcExits p)
  with r show ?thesis by (auto simp: exited_def split: if_splits proc_stat.splits intro!: live_inv_same [OF I])
qed (use r in \<open>auto dest: live_inv_call [OF I] intro: live_inv_same [OF I]\<close>)

interpretation vpn_live: machine_invariant vpn_step vpn_init live_inv
proof
  show "live_inv vpn_init" by (simp add: live_inv_def vpn_init_def)
  show "live_inv s'" if "vpn_reach s" "live_inv s" "vpn_step e s = Some s'" for s e s'
    using that live_inv_step vpn_mu.holds by blast
qed

text \<open>While the client is held down and no \<open>Down\<close> is under way there is no process and no start.\<close>

definition vdown_inv :: "vpn_st \<Rightarrow> bool" where
  "vdown_inv s \<longleftrightarrow> (n_held s \<longrightarrow>
     (\<exists>d. vdowning (n_pc s d)) \<or> (n_proc s = None \<and> (\<forall>t. \<not> vpublished (n_pc s t))))"

lemma vdown_inv_go:
  assumes "vdown_inv s" "n_pc s2 = n_pc s" "n_held s2 \<Longrightarrow> n_held s" "vdowning (n_pc s t) \<Longrightarrow> vdowning q"
    and "vpublished q \<Longrightarrow> vpublished (n_pc s t)" "n_proc s2 = n_proc s \<or> n_proc s2 = None \<or> vpublished (n_pc s t)"
  shows "vdown_inv (vgo t q s2)"
proof (cases "\<exists>d. vdowning (n_pc s d)")
  case True
  then obtain d where "vdowning (n_pc s d)" by blast
  with assms(2,4) have "vdowning (n_pc (vgo t q s2) d)" by auto
  then show ?thesis unfolding vdown_inv_def by blast
next
  case False
  with assms show ?thesis unfolding vdown_inv_def by auto
qed

lemma vdown_inv_down: "vdowning q \<Longrightarrow> vdown_inv (vgo t q s)"
  unfolding vdown_inv_def by (metis fun_upd_same vgo_simps(1))

lemma vdown_inv_not_held: "\<not> n_held s \<Longrightarrow> vdown_inv s"
  by (simp add: vdown_inv_def)

lemma vdown_inv_same:
  "vdown_inv s \<Longrightarrow> n_pc s2 = n_pc s \<Longrightarrow> n_held s2 = n_held s \<Longrightarrow> n_proc s2 = n_proc s \<Longrightarrow> vdown_inv s2"
  by (simp add: vdown_inv_def)

lemma vdown_inv_done:
  assumes M: "vmu_inv s" and t: "n_pc s t = DSet"
    and e: "n_pc s2 = n_pc s" "n_proc s2 = n_proc s" and q: "\<not> vpublished q"
  shows "vdown_inv (vgo t q s2)"
proof -
  have h: "vholds (n_pc s t)" "no_proc (n_pc s t)" using t by simp_all
  have "\<not> vpublished (n_pc s u)" if "u \<noteq> t" for u using vmu_others [OF M h(1) that] by simp
  moreover have "n_proc s = None" using vmu_facts(1) [OF M h(2)] .
  ultimately show ?thesis using e q unfolding vdown_inv_def by auto
qed

lemma vdown_inv_call:
  assumes "vdown_inv s" "vcall t q s = Some s'" "\<not> vpublished q"
  shows "vdown_inv s'"
proof -
  have "s' = vgo t q s" "\<not> vdowning (n_pc s t)"
    using vcall_cases [OF assms(2)] by (simp_all add: vidle_downing)
  with assms(3) show ?thesis by (auto intro!: vdown_inv_go [OF assms(1)])
qed

lemma vdown_inv_run:
  assumes M: "vmu_inv s" and I: "vdown_inv s" and r: "vpn_run t s = Some s'"
  shows "vdown_inv s'"
proof (cases "n_pc s t")
  case DSet
  with r show ?thesis by (auto simp: vpn_run_defs intro!: vdown_inv_done [OF M])
next
  case VUp
  with r show ?thesis by (auto simp: vpn_run_defs intro!: vdown_inv_not_held)
next
  case GPublish
  with r show ?thesis
    by (auto simp: vpn_run_defs split: if_splits intro: vdown_inv_go [OF I] vdown_inv_not_held)
next
  case (GCheck e q)
  with r show ?thesis
    by (auto simp: vpn_run_defs split: if_splits option.splits) ((rule vdown_inv_go [OF I]; simp)+)
qed (use r in \<open>auto simp: vpn_run_defs split: if_splits option.splits
      intro: vdown_inv_down vdown_inv_go [OF I]\<close>)

lemma vdown_inv_step:
  assumes M: "vmu_inv s" and I: "vdown_inv s" and r: "vpn_step e s = Some s'"
  shows "vdown_inv s'"
proof (cases e)
  case (VRun t)
  then show ?thesis using vdown_inv_run [OF M I] r by simp
next
  case (Poll t k)
  with r show ?thesis
    by (cases k) (auto simp: start_poll_def split: if_splits vpc.splits intro!: vdown_inv_go [OF I])
next
  case (CmdStart t)
  with r show ?thesis by (auto split: if_splits intro!: vdown_inv_go [OF I])
next
  case (StartFails t err)
  with r show ?thesis by (auto split: if_splits intro!: vdown_inv_go [OF I])
next
  case (WaiterReads p)
  with r show ?thesis by (auto split: if_splits intro!: vdown_inv_same [OF I])
next
  case (WaiterPublishes p)
  with r show ?thesis by (auto split: if_splits proc_stat.splits intro!: vdown_inv_same [OF I])
next
  case (WaiterCloses p)
  with r show ?thesis by (auto split: if_splits proc_stat.splits intro!: vdown_inv_same [OF I])
next
  case (ProcExits p)
  with r show ?thesis by (auto split: if_splits intro!: vdown_inv_same [OF I])
qed (use r in \<open>auto dest: vdown_inv_call [OF I] intro: vdown_inv_same [OF I]\<close>)

interpretation vpn_down: machine_invariant vpn_step vpn_init vdown_inv
proof
  show "vdown_inv vpn_init" by (simp add: vdown_inv_def vpn_init_def)
  show "vdown_inv s'" if "vpn_reach s" "vdown_inv s" "vpn_step e s = Some s'" for s e s'
    using that vdown_inv_step vpn_mu.holds by blast
qed

text \<open>The drop hook runs once for a process, after its exit; one that is being stopped is never dropped.\<close>

definition drop_inv :: "vpn_st \<Rightarrow> bool" where
  "drop_inv s \<longleftrightarrow> distinct (n_drops s) \<and> (\<forall>p \<in> set (n_drops s). p < n_next s \<and> pstat s p = Done True)"

definition not_dropped :: "nat \<Rightarrow> vpn_st \<Rightarrow> bool" where
  "not_dropped p s \<longleftrightarrow> p < n_next s \<and> vp_stopping (n_tab s p)
     \<and> pstat s p \<in> {Running, Exited, Noted False, Published False, Done False} \<and> p \<notin> set (n_drops s)"

text \<open>What any step does to the processes.\<close>

lemma vpn_run_procs:
  "vpn_run t s = Some s' \<Longrightarrow> n_next s' = n_next s \<and> n_drops s' = n_drops s \<and> pstat s' p = pstat s p
     \<and> (vp_stopping (n_tab s p) \<longrightarrow> vp_stopping (n_tab s' p))"
  by (cases "n_pc s t") (auto simp: vpn_run_defs split: if_splits option.splits)

lemma vcall_procs:
  "vcall t q s = Some s' \<Longrightarrow> n_next s' = n_next s \<and> n_drops s' = n_drops s \<and> n_tab s' = n_tab s"
  by (auto dest: vcall_cases)

lemma drop_inv_step: "drop_inv s \<Longrightarrow> vpn_step e s = Some s' \<Longrightarrow> drop_inv s'"
proof (cases e)
  case (VRun t)
  assume "drop_inv s" "vpn_step e s = Some s'"
  with VRun show ?thesis using vpn_run_procs [of t s s'] by (simp add: drop_inv_def)
next
  case (Poll t k)
  assume "drop_inv s" "vpn_step e s = Some s'"
  with Poll show ?thesis
    by (cases k) (auto simp: drop_inv_def start_poll_def split: if_splits vpc.splits)
qed (auto simp: drop_inv_def less_Suc_eq dest!: vcall_procs split: if_splits proc_stat.splits)

interpretation vpn_drop: machine_invariant vpn_step vpn_init drop_inv
proof
  show "drop_inv vpn_init" by (simp add: drop_inv_def vpn_init_def)
  show "drop_inv s'" if "vpn_reach s" "drop_inv s" "vpn_step e s = Some s'" for s e s'
    using that drop_inv_step by blast
qed

lemma not_dropped_step: "not_dropped p s \<Longrightarrow> vpn_step e s = Some s' \<Longrightarrow> not_dropped p s'"
proof (cases e)
  case (VRun t)
  assume "not_dropped p s" "vpn_step e s = Some s'"
  with VRun show ?thesis using vpn_run_procs [of t s s' p] by (simp add: not_dropped_def)
next
  case (Poll t k)
  assume "not_dropped p s" "vpn_step e s = Some s'"
  with Poll show ?thesis
    by (cases k) (auto simp: not_dropped_def start_poll_def split: if_splits vpc.splits)
qed (auto simp: not_dropped_def dest!: vcall_procs split: if_splits proc_stat.splits)

section \<open>Properties\<close>


definition sample_vpn_up :: "vpn_event list" where
  "sample_vpn_up = [VGet 1, VRun 1, VRun 1, VRun 1, VRun 1, VRun 1, VRun 1, CmdStart 1, Poll 1 PollReady, VRun 1, VRun 1]"


text \<open>A step moves one goroutine at most.\<close>

fun vpn_tid :: "vpn_event \<Rightarrow> nat option" where
  "vpn_tid (VGet t) = Some t"
| "vpn_tid (VCallUp t) = Some t"
| "vpn_tid (VDown t) = Some t"
| "vpn_tid (VClose t) = Some t"
| "vpn_tid (VRun t) = Some t"
| "vpn_tid (StartFails t _) = Some t"
| "vpn_tid (CmdStart t) = Some t"
| "vpn_tid (Poll t _) = Some t"
| "vpn_tid _ = None"

lemma vpn_run_other: "vpn_run t s = Some s' \<Longrightarrow> u \<noteq> t \<Longrightarrow> n_pc s' u = n_pc s u"
  by (cases "n_pc s t") (auto simp: vpn_run_defs split: if_splits option.splits)

lemma vpn_step_other: "vpn_step e s = Some s' \<Longrightarrow> vpn_tid e \<noteq> Some u \<Longrightarrow> n_pc s' u = n_pc s u"
proof (cases e)
  case (Poll t k)
  assume "vpn_step e s = Some s'" "vpn_tid e \<noteq> Some u"
  with Poll show ?thesis by (cases k) (auto simp: start_poll_def split: if_splits vpc.splits)
qed (auto simp: vpn_run_other dest!: vcall_cases split: if_splits proc_stat.splits)

lemma vpn_run_others:
  "run_events vpn_step es s = Some s' \<Longrightarrow> Some u \<notin> vpn_tid ` set es \<Longrightarrow> n_pc s' u = n_pc s u"
proof (induction es arbitrary: s)
  case (Cons e es)
  then obtain s1 where s1: "vpn_step e s = Some s1" "run_events vpn_step es s1 = Some s'"
    by (auto split: option.splits)
  with Cons show ?case using vpn_step_other [OF s1(1), of u] by auto
qed simp

text \<open>A VPN the user disconnected stays down: once a \<open>Down\<close> has run through and no \<open>Up\<close> has undone it,
  every process has exited and none is being started, and a \<open>get\<close> that gets as far as publishing its
  start is refused.\<close>

theorem vpn_Down_is_final:
  assumes "vpn_reach s" "n_held s" "\<And>d. \<not> vdowning (n_pc s d)"
  shows "n_proc s = None \<and> (\<forall>p < n_next s. exited s p) \<and> (\<forall>t. \<not> vpublished (n_pc s t))
     \<and> (\<forall>t. n_pc s t = GPublish \<longrightarrow>
          vpn_step (VRun t) s = Some (vgo t (VReturned VpnDisconnected) (s\<lparr>n_mu := None\<rparr>)))"
proof -
  have d: "n_proc s = None" "\<not> vpublished (n_pc s t)" for t
    using vpn_down.holds [OF assms(1)] assms(2,3) by (auto simp: vdown_inv_def)
  have "hand (n_pc s t) = None" for t using d(2) [of t] by (cases "n_pc s t") auto
  then have "exited s p" if "p < n_next s" for p
    using live_invD [OF vpn_live.holds [OF assms(1)] that] d(1) by auto
  with d assms(2) show ?thesis by (simp add: vpn_run_defs)
qed

lemma vpn_Down_is_final_witness:
  "\<exists>s. run_events vpn_step (sample_vpn_up @ [VDown 2, VRun 2, VRun 2, VRun 2, VRun 2, VRun 2, ProcExits 0,
       WaiterReads 0, WaiterPublishes 0, WaiterCloses 0, VRun 2, VRun 2]) vpn_init = Some s \<and> exited s 0"
proof -
  let ?es = "sample_vpn_up @ [VDown 2, VRun 2, VRun 2, VRun 2, VRun 2, VRun 2, ProcExits 0,
       WaiterReads 0, WaiterPublishes 0, WaiterCloses 0, VRun 2, VRun 2]"
  have "map_option (\<lambda>s. (n_held s, n_next s, n_pc s 1, n_pc s 2)) (run_events vpn_step ?es vpn_init)
      = Some (True, 1, VReturned (GotAddr 0), VReturnedUnit)"
    by code_simp
  then obtain s where r: "run_events vpn_step ?es vpn_init = Some s" and h: "n_held s" "n_next s = 1"
    and p: "n_pc s 1 = VReturned (GotAddr 0)" "n_pc s 2 = VReturnedUnit"
    by auto
  have "n_pc s d = VIdle" if "d \<noteq> 1" "d \<noteq> 2" for d
    using vpn_run_others [OF r, of d] that by (simp add: sample_vpn_up_def vpn_init_def)
  then have "\<not> vdowning (n_pc s d)" for d using p by (cases "d = 1 \<or> d = 2") auto
  from vpn_Down_is_final [OF run_reachable [OF r] h(1) this] r h(2) show ?thesis by auto
qed



text \<open>The state can stay wrong after a drop: the waiting goroutine publishes \<open>disconnected\<close> before it
  closes \<open>done\<close>, so a \<open>get\<close> in between still takes the process for running and publishes \<open>connected\<close>,
  and nothing corrects it when \<open>done\<close> is closed and the drop is reported.\<close>

theorem stale_connected_after_drop:
  "map_option (\<lambda>s. (n_pc s 2, exited s 0, n_drops s, n_state s))
     (run_events vpn_step (sample_vpn_up @ [ProcExits 0, WaiterReads 0, WaiterPublishes 0,
        VGet 2, VRun 2, VRun 2, VRun 2, WaiterCloses 0]) vpn_init)
   = Some (VReturned (GotAddr 0), True, [0], ConnConnected)"
  by code_simp

end
