(* ===== verification/SshClient.thy ===== *)
theory SshClient
  imports SshConn Machine
begin

text \<open>
  \<open>pkg/sshclient/client.go\<close>: the client that shares one ssh connection between all callers, as a
  machine whose steps are the accesses of concurrent goroutines to the shared variables. What the
  mutex \<open>mu\<close> protects changes in one step while it is held; \<open>held\<close>, \<open>manualOnly\<close>, \<open>abort\<close> and \<open>state\<close>,
  which are accessed without it, change in steps of their own. Dialling, the network and the
  clock are events; what one dial does is in the theory SshConn.
\<close>

section \<open>The client: state and steps\<close>

type_synonym tid = nat
type_synonym conn_id = nat

datatype get_result = GotConn conn_id | Disconnected | DialError string

text \<open>What a \<open>get\<close> returns to: the caller of \<open>Get\<close> or \<open>Up\<close>, or \<open>DialContext\<close> (retrying or not).\<close>

datatype kont = KGet | KDial bool

text \<open>
  Where a goroutine is. \<open>GetWait\<close> waits for \<open>mu\<close> (with the time it queued); from \<open>GetLocked\<close> to
  \<open>Releasing\<close> it holds \<open>mu\<close>; between \<open>GetConnecting\<close> and \<open>Releasing\<close> its cancel function is published.
\<close>

datatype pc =
    Idle
  | UpStart
  | GetWait kont bool nat
  | GetLocked kont bool nat
  | GetCheck kont bool nat
  | GetPublish kont
  | GetConnecting kont
  | Dialing kont
  | DialOk kont conn_id
  | Releasing kont get_result
  | Opening bool conn_id
  | ForgetClose conn_id
  | ForgetWait conn_id
  | DownStart
  | DownAbort
  | DownWait
  | CloseWait
  | MarkHeld
  | MarkManual
  | MarkSet
  | Returned get_result
  | ReturnedUnit

record ssh_st =
  k_now :: nat
  k_mu :: "tid option"
  k_cli :: "conn_id option"
  k_lastErr :: "(string \<times> nat) option"
  k_state :: conn_state
  k_held :: bool
  k_manualOnly :: bool
  k_abort :: "tid option"
  k_cancelled :: "tid \<Rightarrow> bool"
  k_pc :: "tid \<Rightarrow> pc"
  k_open :: "conn_id list"
  k_next :: conn_id

definition ssh_init :: ssh_st where
  "ssh_init = \<lparr>k_now = 0, k_mu = None, k_cli = None, k_lastErr = None, k_state = ConnUnknown,
     k_held = False, k_manualOnly = False, k_abort = None, k_cancelled = (\<lambda>_. False),
     k_pc = (\<lambda>_. Idle), k_open = [], k_next = 0\<rparr>"

definition goto :: "tid \<Rightarrow> pc \<Rightarrow> ssh_st \<Rightarrow> ssh_st" where
  "goto t p s = s\<lparr>k_pc := (k_pc s)(t := p)\<rparr>"

definition close_conn_id :: "conn_id \<Rightarrow> ssh_st \<Rightarrow> ssh_st" where
  "close_conn_id c s = s\<lparr>k_open := removeAll c (k_open s)\<rparr>"

text \<open>\<open>get\<close> returns: to its caller, or to \<open>DialContext\<close>, which then opens a channel.\<close>

fun after_get :: "kont \<Rightarrow> get_result \<Rightarrow> pc" where
  "after_get (KDial retry) (GotConn c) = Opening retry c"
| "after_get k r = Returned r"

definition return_get :: "tid \<Rightarrow> kont \<Rightarrow> get_result \<Rightarrow> ssh_st \<Rightarrow> ssh_st" where
  "return_get t k r s = goto t (after_get k r) s"

definition unlock :: "ssh_st \<Rightarrow> ssh_st" where
  "unlock s = s\<lparr>k_mu := None\<rparr>"

text \<open>
  The deferred part under \<open>mu\<close> of \<open>Down\<close>, \<open>Close\<close> and \<open>forget\<close>; \<open>drop_cli\<close> closes the current
  connection and clears the field.
\<close>

definition drop_cli :: "ssh_st \<Rightarrow> ssh_st" where
  "drop_cli s = (case k_cli s of None \<Rightarrow> s | Some c \<Rightarrow> (close_conn_id c s)\<lparr>k_cli := None\<rparr>)"

definition forget_cli :: "conn_id \<Rightarrow> ssh_st \<Rightarrow> ssh_st" where
  "forget_cli c s = (if k_cli s = Some c then s\<lparr>k_cli := None, k_state := ConnDisconnected\<rparr> else s)"

text \<open>
  \<open>setAbort\<close>: with a cancel function it fails when \<open>held\<close> is set; the goroutine stands for its cancel
  function. With nil it clears the field.
\<close>

definition setAbort :: "tid option \<Rightarrow> ssh_st \<Rightarrow> bool \<times> ssh_st" where
  "setAbort cancel s =
     (if cancel \<noteq> None \<and> k_held s then (False, s) else (True, s\<lparr>k_abort := cancel\<rparr>))"

definition cancel_dial :: "tid \<Rightarrow> bool \<Rightarrow> ssh_st \<Rightarrow> ssh_st" where
  "cancel_dial t b s = s\<lparr>k_cancelled := (k_cancelled s)(t := b)\<rparr>"

text \<open>
  The next step of goroutine \<open>t\<close> in each function, where it does not wait for an event outside.
  \<open>GetPublish\<close> derives the context of the dial and publishes its cancel function.
\<close>

definition get_step :: "tid \<Rightarrow> ssh_st \<Rightarrow> ssh_st option" where
  "get_step t s =
     (case k_pc s t of
        GetWait k e q \<Rightarrow>
          if k_mu s = None then Some (goto t (GetLocked k e q) (s\<lparr>k_mu := Some t\<rparr>)) else None
      | GetLocked k e q \<Rightarrow>
          if k_held s then Some (return_get t k Disconnected (unlock s)) else Some (goto t (GetCheck k e q) s)
      | GetCheck k e q \<Rightarrow>
          (case k_cli s of
             Some c \<Rightarrow> Some (return_get t k (GotConn c) (unlock (s\<lparr>k_state := ConnConnected\<rparr>)))
           | None \<Rightarrow>
               if \<not> e \<and> k_manualOnly s then Some (return_get t k Disconnected (unlock s))
               else (case k_lastErr s of
                       Some (err, at) \<Rightarrow>
                         if at > q then Some (return_get t k (DialError err) (unlock s))
                         else Some (goto t (GetPublish k) s)
                     | None \<Rightarrow> Some (goto t (GetPublish k) s)))
      | GetPublish k \<Rightarrow>
          (case setAbort (Some t) (cancel_dial t False s) of
             (False, _) \<Rightarrow> Some (return_get t k Disconnected (unlock s))
           | (True, s) \<Rightarrow> Some (goto t (GetConnecting k) s))
      | GetConnecting k \<Rightarrow> Some (goto t (Dialing k) (s\<lparr>k_state := ConnConnecting\<rparr>))
      | DialOk k c \<Rightarrow>
          Some (goto t (Releasing k (GotConn c)) (s\<lparr>k_cli := Some c, k_lastErr := None, k_state := ConnConnected\<rparr>))
      | Releasing k r \<Rightarrow> Some (return_get t k r (unlock (snd (setAbort None s))))
      | _ \<Rightarrow> None)"

definition Up_step :: "tid \<Rightarrow> ssh_st \<Rightarrow> ssh_st option" where
  "Up_step t s =
     (case k_pc s t of
        UpStart \<Rightarrow> Some (goto t (GetWait KGet True (k_now s)) (s\<lparr>k_held := False\<rparr>))
      | _ \<Rightarrow> None)"

definition Down_step :: "tid \<Rightarrow> ssh_st \<Rightarrow> ssh_st option" where
  "Down_step t s =
     (case k_pc s t of
        DownStart \<Rightarrow> Some (goto t DownAbort (s\<lparr>k_held := True\<rparr>))
      | DownAbort \<Rightarrow>
          Some (goto t DownWait (case k_abort s of None \<Rightarrow> s | Some u \<Rightarrow> cancel_dial u True s))
      | DownWait \<Rightarrow>
          if k_mu s = None
          then Some (goto t ReturnedUnit ((drop_cli s)\<lparr>k_lastErr := None, k_state := ConnUnknown\<rparr>)) else None
      | _ \<Rightarrow> None)"

definition Close_step :: "tid \<Rightarrow> ssh_st \<Rightarrow> ssh_st option" where
  "Close_step t s =
     (case k_pc s t of
        CloseWait \<Rightarrow>
          if k_mu s = None then Some (goto t ReturnedUnit (drop_cli (s\<lparr>k_state := ConnDisconnected\<rparr>))) else None
      | _ \<Rightarrow> None)"

text \<open>\<open>forget\<close>, called by \<open>DialContext\<close>, which then tries again.\<close>

definition forget_step :: "tid \<Rightarrow> ssh_st \<Rightarrow> ssh_st option" where
  "forget_step t s =
     (case k_pc s t of
        ForgetClose c \<Rightarrow> Some (goto t (ForgetWait c) (close_conn_id c s))
      | ForgetWait c \<Rightarrow>
          if k_mu s = None then Some (goto t (GetWait (KDial True) False (k_now s)) (forget_cli c s)) else None
      | _ \<Rightarrow> None)"

definition MarkConnecting_step :: "tid \<Rightarrow> ssh_st \<Rightarrow> ssh_st option" where
  "MarkConnecting_step t s =
     (case k_pc s t of
        MarkHeld \<Rightarrow> Some (goto t (if k_held s then ReturnedUnit else MarkManual) s)
      | MarkManual \<Rightarrow> Some (goto t (if k_manualOnly s then ReturnedUnit else MarkSet) s)
      | MarkSet \<Rightarrow> Some (goto t ReturnedUnit (s\<lparr>k_state := ConnConnecting\<rparr>))
      | _ \<Rightarrow> None)"

definition ssh_run :: "tid \<Rightarrow> ssh_st \<Rightarrow> ssh_st option" where
  "ssh_run t s = first_some
     [get_step t s, Up_step t s, Down_step t s, Close_step t s, forget_step t s, MarkConnecting_step t s]"

text \<open>The same as one case distinction, for the proofs.\<close>

lemma ssh_run_eq:
  "ssh_run t s =
     (case k_pc s t of
        UpStart \<Rightarrow> Some (goto t (GetWait KGet True (k_now s)) (s\<lparr>k_held := False\<rparr>))
      | GetWait k e q \<Rightarrow>
          if k_mu s = None then Some (goto t (GetLocked k e q) (s\<lparr>k_mu := Some t\<rparr>)) else None
      | GetLocked k e q \<Rightarrow>
          if k_held s then Some (return_get t k Disconnected (unlock s)) else Some (goto t (GetCheck k e q) s)
      | GetCheck k e q \<Rightarrow>
          (case k_cli s of
             Some c \<Rightarrow> Some (return_get t k (GotConn c) (unlock (s\<lparr>k_state := ConnConnected\<rparr>)))
           | None \<Rightarrow>
               if \<not> e \<and> k_manualOnly s then Some (return_get t k Disconnected (unlock s))
               else (case k_lastErr s of
                       Some (err, at) \<Rightarrow>
                         if at > q then Some (return_get t k (DialError err) (unlock s))
                         else Some (goto t (GetPublish k) s)
                     | None \<Rightarrow> Some (goto t (GetPublish k) s)))
      | GetPublish k \<Rightarrow>
          if k_held s then Some (return_get t k Disconnected (unlock s))
          else Some (goto t (GetConnecting k) (s\<lparr>k_abort := Some t, k_cancelled := (k_cancelled s)(t := False)\<rparr>))
      | GetConnecting k \<Rightarrow> Some (goto t (Dialing k) (s\<lparr>k_state := ConnConnecting\<rparr>))
      | DialOk k c \<Rightarrow>
          Some (goto t (Releasing k (GotConn c)) (s\<lparr>k_cli := Some c, k_lastErr := None, k_state := ConnConnected\<rparr>))
      | Releasing k r \<Rightarrow> Some (return_get t k r (unlock (s\<lparr>k_abort := None\<rparr>)))
      | ForgetClose c \<Rightarrow> Some (goto t (ForgetWait c) (close_conn_id c s))
      | ForgetWait c \<Rightarrow>
          if k_mu s = None then Some (goto t (GetWait (KDial True) False (k_now s)) (forget_cli c s)) else None
      | DownStart \<Rightarrow> Some (goto t DownAbort (s\<lparr>k_held := True\<rparr>))
      | DownAbort \<Rightarrow>
          Some (goto t DownWait (case k_abort s of
                  None \<Rightarrow> s | Some u \<Rightarrow> s\<lparr>k_cancelled := (k_cancelled s)(u := True)\<rparr>))
      | DownWait \<Rightarrow>
          if k_mu s = None
          then Some (goto t ReturnedUnit ((drop_cli s)\<lparr>k_lastErr := None, k_state := ConnUnknown\<rparr>)) else None
      | CloseWait \<Rightarrow>
          if k_mu s = None then Some (goto t ReturnedUnit (drop_cli (s\<lparr>k_state := ConnDisconnected\<rparr>))) else None
      | MarkHeld \<Rightarrow> Some (goto t (if k_held s then ReturnedUnit else MarkManual) s)
      | MarkManual \<Rightarrow> Some (goto t (if k_manualOnly s then ReturnedUnit else MarkSet) s)
      | MarkSet \<Rightarrow> Some (goto t ReturnedUnit (s\<lparr>k_state := ConnConnecting\<rparr>))
      | _ \<Rightarrow> None)"
  by (cases "k_pc s t")
    (simp_all add: ssh_run_def get_step_def Up_step_def Down_step_def Close_step_def forget_step_def
      MarkConnecting_step_def setAbort_def cancel_dial_def split: option.splits, cases s, simp add: goto_def)

text \<open>
  Events: calls, the progress of a goroutine, the outcome of a dial and of a channel open, the
  agent's sign requests, a cancelled caller, a connection that closes (the peer, or the watcher
  after a failed probe), the watcher's clean-up after that, and the clock.
\<close>

datatype chan_outcome = ChanOk | ChanRefused | ChanLost | ChanCancelled

datatype ssh_event =
    CallGet tid
  | CallUp tid
  | CallDown tid
  | CallClose tid
  | CallMark tid
  | CallDial tid
  | SetAutoconnect bool
  | Run tid
  | DialSuccess tid
  | DialFail tid string
  | SignStart tid
  | SignDone tid
  | CtxCancel tid
  | Channel tid chan_outcome
  | ConnCloses conn_id
  | Watched conn_id
  | Tick

definition idle :: "ssh_st \<Rightarrow> tid \<Rightarrow> bool" where
  "idle s t \<longleftrightarrow> (case k_pc s t of Idle \<Rightarrow> True | Returned _ \<Rightarrow> True | ReturnedUnit \<Rightarrow> True | _ \<Rightarrow> False)"

definition call :: "tid \<Rightarrow> pc \<Rightarrow> ssh_st \<Rightarrow> ssh_st option" where
  "call t p s = (if idle s t then Some (goto t p s) else None)"

fun ssh_step :: "ssh_event \<Rightarrow> ssh_st \<Rightarrow> ssh_st option" where
  "ssh_step (CallGet t) s = call t (GetWait KGet False (k_now s)) s"
| "ssh_step (CallUp t) s = call t UpStart s"
| "ssh_step (CallDown t) s = call t DownStart s"
| "ssh_step (CallClose t) s = call t CloseWait s"
| "ssh_step (CallMark t) s = call t MarkHeld s"
| "ssh_step (CallDial t) s = call t (GetWait (KDial False) False (k_now s)) s"
| "ssh_step (SetAutoconnect on) s = Some (s\<lparr>k_manualOnly := \<not> on\<rparr>)"
| "ssh_step (Run t) s = ssh_run t s"
| "ssh_step (DialSuccess t) s =
     (case k_pc s t of
        Dialing k \<Rightarrow>
          if k_cancelled s t then None
          else Some (goto t (DialOk k (k_next s)) (s\<lparr>k_open := k_next s # k_open s, k_next := Suc (k_next s)\<rparr>))
      | _ \<Rightarrow> None)"
| "ssh_step (DialFail t err) s =
     (case k_pc s t of
        Dialing k \<Rightarrow>
          Some (goto t (Releasing k (DialError err))
            (s\<lparr>k_state := ConnDisconnected,
               k_lastErr := (if k_cancelled s t then k_lastErr s else Some (err, k_now s))\<rparr>))
      | _ \<Rightarrow> None)"
| "ssh_step (SignStart t) s =
     (case k_pc s t of Dialing _ \<Rightarrow> Some (s\<lparr>k_state := ConnAwaitingApproval\<rparr>) | _ \<Rightarrow> None)"
| "ssh_step (SignDone t) s =
     (case k_pc s t of Dialing _ \<Rightarrow> Some (s\<lparr>k_state := ConnConnecting\<rparr>) | _ \<Rightarrow> None)"
| "ssh_step (CtxCancel t) s = Some (s\<lparr>k_cancelled := (k_cancelled s)(t := True)\<rparr>)"
| "ssh_step (Channel t out) s =
     (case k_pc s t of
        Opening retry c \<Rightarrow>
          (case out of
             ChanOk \<Rightarrow> if c \<in> set (k_open s) then Some (goto t (Returned (GotConn c)) s) else None
           | ChanRefused \<Rightarrow> Some (goto t (Returned (DialError ''refused'')) s)
           | ChanCancelled \<Rightarrow> Some (goto t (Returned (DialError ''cancelled'')) s)
           | ChanLost \<Rightarrow> Some (goto t (if retry then Returned (DialError ''lost'') else ForgetClose c) s))
      | _ \<Rightarrow> None)"
| "ssh_step (ConnCloses c) s = Some (close_conn_id c s)"
| "ssh_step (Watched c) s =
     (if c < k_next s \<and> c \<notin> set (k_open s) \<and> k_mu s = None then Some (forget_cli c s) else None)"
| "ssh_step Tick s = Some (s\<lparr>k_now := Suc (k_now s)\<rparr>)"

abbreviation ssh_reach :: "ssh_st \<Rightarrow> bool" where
  "ssh_reach \<equiv> reachable ssh_step ssh_init"

section \<open>Invariants\<close>

fun holds_mu :: "pc \<Rightarrow> bool" where
  "holds_mu (GetLocked _ _ _) = True"
| "holds_mu (GetCheck _ _ _) = True"
| "holds_mu (GetPublish _) = True"
| "holds_mu (GetConnecting _) = True"
| "holds_mu (Dialing _) = True"
| "holds_mu (DialOk _ _) = True"
| "holds_mu (Releasing _ _) = True"
| "holds_mu _ = False"

fun published :: "pc \<Rightarrow> bool" where
  "published (GetConnecting _) = True"
| "published (Dialing _) = True"
| "published (DialOk _ _) = True"
| "published (Releasing _ _) = True"
| "published _ = False"

text \<open>Between \<open>get\<close>'s look at the current connection and the end of its dial.\<close>

fun past_check :: "pc \<Rightarrow> bool" where
  "past_check (GetPublish _) = True"
| "past_check (GetConnecting _) = True"
| "past_check (Dialing _) = True"
| "past_check (DialOk _ _) = True"
| "past_check _ = False"

fun downing :: "pc \<Rightarrow> bool" where
  "downing DownAbort = True"
| "downing DownWait = True"
| "downing _ = False"

text \<open>The connection a goroutine has in hand.\<close>

fun known_conn :: "pc \<Rightarrow> conn_id option" where
  "known_conn (DialOk _ c) = Some c"
| "known_conn (Releasing _ (GotConn c)) = Some c"
| "known_conn (Opening _ c) = Some c"
| "known_conn (ForgetClose c) = Some c"
| "known_conn (ForgetWait c) = Some c"
| "known_conn _ = None"

text \<open>\<open>mu\<close> and \<open>abort\<close> belong to the goroutine whose position says so.\<close>

definition mu_inv :: "ssh_st \<Rightarrow> bool" where
  "mu_inv s \<longleftrightarrow> (\<forall>t. k_mu s = Some t \<longleftrightarrow> holds_mu (k_pc s t))
     \<and> (\<forall>t. k_abort s = Some t \<longleftrightarrow> published (k_pc s t))"

lemma published_holds: "published p \<Longrightarrow> holds_mu p"
  by (cases p) auto

lemma after_get_simps [simp]:
  "holds_mu (after_get k r) = False" "published (after_get k r) = False" "downing (after_get k r) = False" "past_check (after_get k r) = False"
  "after_get k r \<noteq> DownAbort"
  by (cases "(k, r)" rule: after_get.cases; simp)+

text \<open>Which fields an invariant reads, and what a step of each kind does to it.\<close>

lemma mu_inv_fields [simp]:
  "mu_inv (s\<lparr>k_now := x1\<rparr>) = mu_inv s" "mu_inv (s\<lparr>k_cli := x2\<rparr>) = mu_inv s"
  "mu_inv (s\<lparr>k_lastErr := x3\<rparr>) = mu_inv s" "mu_inv (s\<lparr>k_state := x4\<rparr>) = mu_inv s"
  "mu_inv (s\<lparr>k_held := x5\<rparr>) = mu_inv s" "mu_inv (s\<lparr>k_manualOnly := x6\<rparr>) = mu_inv s"
  "mu_inv (s\<lparr>k_cancelled := x7\<rparr>) = mu_inv s" "mu_inv (s\<lparr>k_open := x8\<rparr>) = mu_inv s"
  "mu_inv (s\<lparr>k_next := x9\<rparr>) = mu_inv s"
  by (simp_all add: mu_inv_def)

lemma mu_inv_unique: "mu_inv s \<Longrightarrow> holds_mu (k_pc s t) \<Longrightarrow> holds_mu (k_pc s u) \<Longrightarrow> u = t"
  unfolding mu_inv_def by (metis option.inject)

lemma mu_inv_goto:
  "mu_inv s \<Longrightarrow> holds_mu p = holds_mu (k_pc s t) \<Longrightarrow> published p = published (k_pc s t) \<Longrightarrow> mu_inv (goto t p s)"
  by (simp add: mu_inv_def goto_def)

lemma mu_inv_lock:
  "mu_inv s \<Longrightarrow> k_mu s = None \<Longrightarrow> holds_mu p \<Longrightarrow> \<not> published p \<Longrightarrow> mu_inv (goto t p (s\<lparr>k_mu := Some t\<rparr>))"
  using published_holds by (auto simp: mu_inv_def goto_def)

lemma mu_inv_unlock:
  assumes "mu_inv s" "holds_mu (k_pc s t)" "\<not> published (k_pc s t)" "\<not> holds_mu p" "\<not> published p"
  shows "mu_inv (goto t p (unlock s))"
proof -
  have u: "\<not> holds_mu (k_pc s u)" if "u \<noteq> t" for u
    using mu_inv_unique [OF assms(1,2)] that by blast
  show ?thesis
    using assms u by (auto simp: mu_inv_def goto_def unlock_def)
qed

lemma mu_inv_release:
  assumes "mu_inv s" "published (k_pc s t)" "\<not> holds_mu p" "\<not> published p"
  shows "mu_inv (goto t p (unlock (s\<lparr>k_abort := None\<rparr>)))"
proof -
  have u: "\<not> holds_mu (k_pc s u) \<and> \<not> published (k_pc s u)" if "u \<noteq> t" for u
    using mu_inv_unique [OF assms(1) published_holds [OF assms(2)]] published_holds that by blast
  show ?thesis
    using assms(3,4) u by (auto simp: mu_inv_def goto_def unlock_def)
qed

lemma mu_inv_publish:
  assumes "mu_inv s" "holds_mu (k_pc s t)" "holds_mu p" "published p"
  shows "mu_inv (goto t p (s\<lparr>k_abort := Some t, k_cancelled := f\<rparr>))"
proof -
  have u: "\<not> published (k_pc s u)" if "u \<noteq> t" for u
    using mu_inv_unique [OF assms(1,2)] published_holds that by blast
  show ?thesis
    using assms u by (auto simp: mu_inv_def goto_def)
qed

lemma k_pc_simps [simp]:
  "k_pc (goto t p s) = (k_pc s)(t := p)" "k_pc (unlock s) = k_pc s" "k_pc (drop_cli s) = k_pc s"
  "k_pc (forget_cli c s) = k_pc s" "k_pc (close_conn_id c s) = k_pc s"
  by (simp_all add: goto_def unlock_def drop_cli_def forget_cli_def close_conn_id_def split: option.splits)

lemma goto_simps [simp]:
  "k_held (goto t p s) = k_held s" "k_cli (goto t p s) = k_cli s" "k_open (goto t p s) = k_open s"
  "k_cancelled (goto t p s) = k_cancelled s" "k_abort (goto t p s) = k_abort s" "k_mu (goto t p s) = k_mu s"
  "k_next (goto t p s) = k_next s" "k_held (unlock s) = k_held s" "k_cli (unlock s) = k_cli s"
  "k_open (unlock s) = k_open s" "k_next (unlock s) = k_next s"
  by (simp_all add: goto_def unlock_def)

lemma mu_inv_conn [simp]:
  "mu_inv (drop_cli s) = mu_inv s" "mu_inv (forget_cli c s) = mu_inv s" "mu_inv (close_conn_id c s) = mu_inv s"
  by (simp_all add: drop_cli_def forget_cli_def close_conn_id_def split: option.splits)

lemmas mu_inv_intros = mu_inv_goto mu_inv_lock mu_inv_unlock mu_inv_release mu_inv_publish

lemma mu_inv_run:
  assumes "mu_inv s" "ssh_run t s = Some s'"
  shows "mu_inv s'"
proof (cases "k_pc s t")
  case (GetCheck k e q)
  with assms show ?thesis
    by (auto simp: ssh_run_eq return_get_def split: if_splits option.splits)
      ((rule mu_inv_unlock | rule mu_inv_goto); simp)+
qed (use assms in \<open>auto simp: ssh_run_eq return_get_def split: if_splits option.splits intro: mu_inv_intros\<close>)

lemma idle_simps: "idle s t \<Longrightarrow> \<not> holds_mu (k_pc s t) \<and> \<not> published (k_pc s t) \<and> \<not> downing (k_pc s t)
    \<and> \<not> past_check (k_pc s t) \<and> known_conn (k_pc s t) = None"
  by (cases "k_pc s t") (auto simp: idle_def)

lemma mu_inv_step: "mu_inv s \<Longrightarrow> ssh_step e s = Some s' \<Longrightarrow> mu_inv s'"
  by (cases e) (auto simp: mu_inv_run call_def idle_simps split: if_splits pc.splits chan_outcome.splits
      intro: mu_inv_intros)

interpretation ssh_mu: machine_invariant ssh_step ssh_init mu_inv
proof
  show "mu_inv ssh_init" by (simp add: mu_inv_def ssh_init_def)
  show "mu_inv s'" if "ssh_reach s" "mu_inv s" "ssh_step e s = Some s'" for s e s'
    using that mu_inv_step  by blast
qed

text \<open>While the client is held down and no \<open>Down\<close> is under way, there is no connection and no dial.\<close>

definition down_inv :: "ssh_st \<Rightarrow> bool" where
  "down_inv s \<longleftrightarrow> (k_held s \<longrightarrow>
     (\<exists>d. downing (k_pc s d)) \<or> (k_cli s = None \<and> (\<forall>t. \<not> published (k_pc s t))))"

lemma down_inv_fields [simp]:
  "down_inv (s\<lparr>k_now := x1\<rparr>) = down_inv s" "down_inv (s\<lparr>k_mu := x2\<rparr>) = down_inv s"
  "down_inv (s\<lparr>k_lastErr := x3\<rparr>) = down_inv s" "down_inv (s\<lparr>k_state := x4\<rparr>) = down_inv s"
  "down_inv (s\<lparr>k_abort := x5\<rparr>) = down_inv s" "down_inv (s\<lparr>k_manualOnly := x6\<rparr>) = down_inv s"
  "down_inv (s\<lparr>k_cancelled := x7\<rparr>) = down_inv s" "down_inv (s\<lparr>k_open := x8\<rparr>) = down_inv s"
  "down_inv (s\<lparr>k_next := x9\<rparr>) = down_inv s" "down_inv (unlock s) = down_inv s"
  "down_inv (close_conn_id c s) = down_inv s"
  by (simp_all add: down_inv_def unlock_def close_conn_id_def)

lemma down_inv_forget: "down_inv s \<Longrightarrow> down_inv (forget_cli c s)"
  by (auto simp: down_inv_def forget_cli_def)

lemma down_inv_drop: "down_inv s \<Longrightarrow> down_inv (drop_cli s)"
  by (auto simp: down_inv_def drop_cli_def close_conn_id_def split: option.splits)

lemma down_inv_not_held: "\<not> k_held s \<Longrightarrow> down_inv s"
  by (simp add: down_inv_def)

lemma down_inv_goto:
  assumes "down_inv s" "downing (k_pc s t) \<Longrightarrow> downing p" "published p \<Longrightarrow> published (k_pc s t)"
  shows "down_inv (goto t p s)"
  using assms by (fastforce simp: down_inv_def goto_def)

lemma down_inv_down: "downing p \<Longrightarrow> down_inv (goto t p s)"
  by (auto simp: down_inv_def goto_def)

lemma down_inv_store:
  assumes "down_inv s" "published (k_pc s t)" "\<not> downing (k_pc s t)"
  shows "down_inv (goto t p (s\<lparr>k_cli := c\<rparr>))"
  using assms by (fastforce simp: down_inv_def goto_def)

lemma drop_cli_None [simp]: "k_cli (drop_cli s) = None"
  by (auto simp: drop_cli_def close_conn_id_def split: option.splits)

lemma down_inv_done:
  assumes "mu_inv s" "k_mu s = None" "\<not> published p"
  shows "down_inv (goto t p (drop_cli s))"
proof -
  have "\<not> published (k_pc s u)" for u
    using assms(1,2) published_holds by (auto simp: mu_inv_def)
  then show ?thesis using assms(3) by (auto simp: down_inv_def goto_def)
qed

lemma down_inv_run:
  assumes "mu_inv s" "down_inv s" "ssh_run t s = Some s'"
  shows "down_inv s'"
proof (cases "k_pc s t")
  case DownWait
  with assms show ?thesis
    using down_inv_done [of s ReturnedUnit t]
    by (auto simp: ssh_run_eq goto_def down_inv_def split: if_splits)
next
  case (DialOk k c)
  then have "down_inv (goto t (Releasing k (GotConn c)) (s\<lparr>k_cli := Some c\<rparr>))"
    using assms(2) by (intro down_inv_store) simp_all
  with DialOk assms(3) show ?thesis by (auto simp: ssh_run_eq goto_def down_inv_def)
next
  case (GetCheck k e q)
  with assms show ?thesis
    by (auto simp: ssh_run_eq return_get_def split: if_splits option.splits)
      (rule down_inv_goto; simp)+
next
  case CloseWait
  with assms show ?thesis
    by (auto simp: ssh_run_eq down_inv_drop intro!: down_inv_goto split: if_splits)
qed (use assms in \<open>auto simp: ssh_run_eq return_get_def split: if_splits option.splits
    intro: down_inv_goto down_inv_forget down_inv_not_held down_inv_down\<close>)

lemma down_inv_step: "mu_inv s \<Longrightarrow> down_inv s \<Longrightarrow> ssh_step e s = Some s' \<Longrightarrow> down_inv s'"
  by (cases e) (auto simp: down_inv_run call_def idle_simps down_inv_forget
      split: if_splits pc.splits chan_outcome.splits intro: down_inv_goto)

interpretation ssh_down: machine_invariant ssh_step ssh_init down_inv
proof
  show "down_inv ssh_init" by (simp add: down_inv_def ssh_init_def)
  show "down_inv s'" if "ssh_reach s" "down_inv s" "ssh_step e s = Some s'" for s e s'
    using that down_inv_step ssh_mu.holds by blast
qed

text \<open>A \<open>Down\<close> either sees the cancel function of a dial in flight or is seen by it.\<close>

definition abort_inv :: "ssh_st \<Rightarrow> bool" where
  "abort_inv s \<longleftrightarrow> (k_held s \<longrightarrow>
     (\<exists>d. k_pc s d = DownAbort) \<or> (\<forall>t. published (k_pc s t) \<longrightarrow> k_cancelled s t))"

lemma abort_inv_fields [simp]:
  "abort_inv (s\<lparr>k_now := x1\<rparr>) = abort_inv s" "abort_inv (s\<lparr>k_mu := x2\<rparr>) = abort_inv s"
  "abort_inv (s\<lparr>k_lastErr := x3\<rparr>) = abort_inv s" "abort_inv (s\<lparr>k_state := x4\<rparr>) = abort_inv s"
  "abort_inv (s\<lparr>k_abort := x5\<rparr>) = abort_inv s" "abort_inv (s\<lparr>k_manualOnly := x6\<rparr>) = abort_inv s"
  "abort_inv (s\<lparr>k_cli := x7\<rparr>) = abort_inv s" "abort_inv (s\<lparr>k_open := x8\<rparr>) = abort_inv s"
  "abort_inv (s\<lparr>k_next := x9\<rparr>) = abort_inv s" "abort_inv (unlock s) = abort_inv s"
  "abort_inv (close_conn_id c s) = abort_inv s" "abort_inv (forget_cli c s) = abort_inv s"
  "abort_inv (drop_cli s) = abort_inv s"
  by (simp_all add: abort_inv_def unlock_def close_conn_id_def forget_cli_def drop_cli_def split: option.splits)

lemma abort_inv_not_held: "\<not> k_held s \<Longrightarrow> abort_inv s"
  by (simp add: abort_inv_def)

lemma abort_inv_goto:
  assumes "abort_inv s" "k_pc s t \<noteq> DownAbort" "published p \<Longrightarrow> published (k_pc s t)"
  shows "abort_inv (goto t p s)"
  using assms by (fastforce simp: abort_inv_def goto_def)

lemma abort_inv_cancel: "abort_inv s \<Longrightarrow> abort_inv (s\<lparr>k_cancelled := (k_cancelled s)(t := True)\<rparr>)"
  by (auto simp: abort_inv_def)

lemma abort_inv_run:
  assumes "mu_inv s" "abort_inv s" "ssh_run t s = Some s'"
  shows "abort_inv s'"
proof (cases "k_pc s t")
  case DownAbort
  have u: "published (k_pc s u) \<Longrightarrow> k_abort s = Some u" for u using assms(1) by (simp add: mu_inv_def)
  from DownAbort assms(3) show ?thesis
    by (cases "k_abort s") (auto simp: ssh_run_eq goto_def abort_inv_def dest!: u split: if_splits)
next
  case DownStart
  with assms(3) show ?thesis by (auto simp: ssh_run_eq goto_def abort_inv_def)
next
  case (GetCheck k e q)
  with assms show ?thesis
    by (auto simp: ssh_run_eq return_get_def split: if_splits option.splits)
      (rule abort_inv_goto; simp)+
qed (use assms in \<open>auto simp: ssh_run_eq return_get_def split: if_splits option.splits
    intro: abort_inv_goto abort_inv_not_held\<close>)

lemma abort_inv_step: "mu_inv s \<Longrightarrow> abort_inv s \<Longrightarrow> ssh_step e s = Some s' \<Longrightarrow> abort_inv s'"
  by (cases e) (auto simp: abort_inv_run call_def idle_def abort_inv_cancel
      split: if_splits pc.splits chan_outcome.splits intro: abort_inv_goto)

interpretation ssh_abort: machine_invariant ssh_step ssh_init abort_inv
proof
  show "abort_inv ssh_init" by (simp add: abort_inv_def ssh_init_def)
  show "abort_inv s'" if "ssh_reach s" "abort_inv s" "ssh_step e s = Some s'" for s e s'
    using that abort_inv_step ssh_mu.holds by blast
qed

text \<open>Every open connection is the current one or in the hands of the goroutine that dialled it.\<close>

definition open_inv :: "ssh_st \<Rightarrow> bool" where
  "open_inv s \<longleftrightarrow>
     (\<forall>c \<in> set (k_open s). c < k_next s \<and> (k_cli s = Some c \<or> (\<exists>t k. k_pc s t = DialOk k c)))
     \<and> (\<forall>t c. known_conn (k_pc s t) = Some c \<longrightarrow> c < k_next s)
     \<and> (\<forall>c. k_cli s = Some c \<longrightarrow> c < k_next s)
     \<and> (\<forall>t c. k_pc s t = ForgetWait c \<longrightarrow> c \<notin> set (k_open s))"

lemma open_inv_fields [simp]:
  "open_inv (s\<lparr>k_now := x1\<rparr>) = open_inv s" "open_inv (s\<lparr>k_mu := x2\<rparr>) = open_inv s"
  "open_inv (s\<lparr>k_lastErr := x3\<rparr>) = open_inv s" "open_inv (s\<lparr>k_state := x4\<rparr>) = open_inv s"
  "open_inv (s\<lparr>k_abort := x5\<rparr>) = open_inv s" "open_inv (s\<lparr>k_manualOnly := x6\<rparr>) = open_inv s"
  "open_inv (s\<lparr>k_cancelled := x7\<rparr>) = open_inv s" "open_inv (s\<lparr>k_held := x8\<rparr>) = open_inv s"
  "open_inv (unlock s) = open_inv s"
  by (simp_all add: open_inv_def unlock_def)

lemma open_inv_goto:
  assumes "open_inv s" "\<nexists>k c. k_pc s t = DialOk k c" "\<And>c. known_conn p = Some c \<Longrightarrow> known_conn (k_pc s t) = Some c \<or> k_cli s = Some c"
    and "\<nexists>c. p = ForgetWait c"
  shows "open_inv (goto t p s)"
  using assms unfolding open_inv_def goto_def by simp (metis (no_types, lifting))

lemma open_inv_close: "open_inv s \<Longrightarrow> open_inv (close_conn_id c s)"
  unfolding open_inv_def close_conn_id_def by simp

lemma open_inv_forget: "open_inv s \<Longrightarrow> c \<notin> set (k_open s) \<Longrightarrow> open_inv (forget_cli c s)"
  unfolding open_inv_def forget_cli_def by auto

lemma open_inv_drop: "open_inv s \<Longrightarrow> open_inv (drop_cli s)"
  by (cases "k_cli s") (auto simp: open_inv_def drop_cli_def close_conn_id_def)

lemma open_invD:
  assumes "open_inv s"
  shows "c \<in> set (k_open s) \<Longrightarrow> c < k_next s"
    and "c \<in> set (k_open s) \<Longrightarrow> k_cli s = Some c \<or> (\<exists>t k. k_pc s t = DialOk k c)"
    and "known_conn (k_pc s t) = Some c \<Longrightarrow> c < k_next s"
    and "k_cli s = Some c \<Longrightarrow> c < k_next s"
    and "k_pc s t = ForgetWait c \<Longrightarrow> c \<notin> set (k_open s)"
  using assms by (simp_all add: open_inv_def)

lemma open_invI:
  assumes "\<And>c. c \<in> set (k_open s) \<Longrightarrow> c < k_next s"
    and "\<And>c. c \<in> set (k_open s) \<Longrightarrow> k_cli s \<noteq> Some c \<Longrightarrow> \<exists>t k. k_pc s t = DialOk k c"
    and "\<And>t c. known_conn (k_pc s t) = Some c \<Longrightarrow> c < k_next s"
    and "\<And>c. k_cli s = Some c \<Longrightarrow> c < k_next s"
    and "\<And>t c. k_pc s t = ForgetWait c \<Longrightarrow> c \<notin> set (k_open s)"
  shows "open_inv s"
  using assms unfolding open_inv_def by blast

lemma open_inv_connect:
  assumes I: "open_inv s" and t: "\<nexists>k c. k_pc s t = DialOk k c"
  shows "open_inv (goto t (DialOk k (k_next s)) (s\<lparr>k_open := k_next s # k_open s, k_next := Suc (k_next s)\<rparr>))"
    (is "open_inv ?s")
proof (rule open_invI)
  fix c assume c: "c \<in> set (k_open ?s)"
  then show "c < k_next ?s" using open_invD(1) [OF I] by (auto simp: less_Suc_eq)
  assume n: "k_cli ?s \<noteq> Some c"
  show "\<exists>t k. k_pc ?s t = DialOk k c"
  proof (cases "c = k_next s")
    case True
    then have "k_pc ?s t = DialOk k c" by simp
    then show ?thesis by blast
  next
    case False
    then obtain u k' where u: "k_pc s u = DialOk k' c"
      using c n open_invD(2) [OF I, of c] by auto
    with t have "k_pc ?s u = DialOk k' c" by auto
    then show ?thesis by blast
  qed
next
  fix u c assume "known_conn (k_pc ?s u) = Some c"
  then show "c < k_next ?s" using open_invD(3) [OF I, of u c] by (auto split: if_splits)
next
  fix c assume "k_cli ?s = Some c"
  then show "c < k_next ?s" using open_invD(4) [OF I, of c] by simp
next
  fix u c assume u: "k_pc ?s u = ForgetWait c"
  then have "k_pc s u = ForgetWait c" by (auto split: if_splits)
  then show "c \<notin> set (k_open ?s)" using open_invD(3,5) [OF I, of u c] by auto
qed

lemma open_inv_store:
  assumes I: "open_inv s" and t: "k_pc s t = DialOk k c" and u: "\<And>u k' c'. k_pc s u = DialOk k' c' \<Longrightarrow> u = t"
    and n: "k_cli s = None" and p: "known_conn p = Some c" "\<nexists>c. p = ForgetWait c"
  shows "open_inv (goto t p (s\<lparr>k_cli := Some c\<rparr>))"
proof (rule open_invI)
  fix d assume "d \<in> set (k_open (goto t p (s\<lparr>k_cli := Some c\<rparr>)))"
  then have d: "d \<in> set (k_open s)" by simp
  then show "d < k_next (goto t p (s\<lparr>k_cli := Some c\<rparr>))" using open_invD(1) [OF I] by simp
  have "d = c" using open_invD(2) [OF I d] n u t by fastforce
  then show "k_cli (goto t p (s\<lparr>k_cli := Some c\<rparr>)) \<noteq> Some d \<Longrightarrow>
      \<exists>ta k. k_pc (goto t p (s\<lparr>k_cli := Some c\<rparr>)) ta = DialOk k d" by simp
next
  have "c < k_next s" using open_invD(3) [OF I, of t c] t by simp
  then show "known_conn (k_pc (goto t p (s\<lparr>k_cli := Some c\<rparr>)) u) = Some d \<Longrightarrow>
      d < k_next (goto t p (s\<lparr>k_cli := Some c\<rparr>))"
    and "k_cli (goto t p (s\<lparr>k_cli := Some c\<rparr>)) = Some d \<Longrightarrow> d < k_next (goto t p (s\<lparr>k_cli := Some c\<rparr>))" for u d
    using open_invD(3) [OF I, of u d] p(1) by (auto split: if_splits)
next
  fix u d assume "k_pc (goto t p (s\<lparr>k_cli := Some c\<rparr>)) u = ForgetWait d"
  then show "d \<notin> set (k_open (goto t p (s\<lparr>k_cli := Some c\<rparr>)))"
    using open_invD(5) [OF I, of u d] p(2) by (auto split: if_splits)
qed

lemma close_conn_simps [simp]:
  "k_open (close_conn_id c s) = removeAll c (k_open s)" "k_cli (close_conn_id c s) = k_cli s"
  "k_next (close_conn_id c s) = k_next s"
  by (simp_all add: close_conn_id_def)

lemma open_inv_forgetting:
  assumes I: "open_inv s" and t: "k_pc s t = ForgetClose c"
  shows "open_inv (goto t (ForgetWait c) (close_conn_id c s))" (is "open_inv ?s")
proof (rule open_invI)
  fix d
  assume "d \<in> set (k_open ?s)"
  then have d: "d \<in> set (k_open s)" by simp
  show "d < k_next ?s" using open_invD(1) [OF I d] by simp
  assume "k_cli ?s \<noteq> Some d"
  then obtain u k where u: "k_pc s u = DialOk k d" using open_invD(2) [OF I d] by auto
  with t have "k_pc ?s u = DialOk k d" by auto
  then show "\<exists>t k. k_pc ?s t = DialOk k d" by blast
next
  fix u d
  show "known_conn (k_pc ?s u) = Some d \<Longrightarrow> d < k_next ?s"
    using open_invD(3) [OF I, of u d] open_invD(3) [OF I, of t d] t by (auto split: if_splits)
  show "k_pc ?s u = ForgetWait d \<Longrightarrow> d \<notin> set (k_open ?s)"
    using open_invD(5) [OF I, of u d] by (auto split: if_splits)
  show "k_cli ?s = Some d \<Longrightarrow> d < k_next ?s"
    using open_invD(4) [OF I, of d] by simp
qed

text \<open>A dial only runs without a current connection, which nobody else can set meanwhile.\<close>

definition cli_inv :: "ssh_st \<Rightarrow> bool" where
  "cli_inv s \<longleftrightarrow> (\<forall>t. past_check (k_pc s t) \<longrightarrow> k_cli s = None)"

lemma past_check_holds: "past_check p \<Longrightarrow> holds_mu p"
  by (cases p) auto

lemma cli_inv_fields [simp]:
  "cli_inv (s\<lparr>k_now := x1\<rparr>) = cli_inv s" "cli_inv (s\<lparr>k_mu := x2\<rparr>) = cli_inv s"
  "cli_inv (s\<lparr>k_lastErr := x3\<rparr>) = cli_inv s" "cli_inv (s\<lparr>k_state := x4\<rparr>) = cli_inv s"
  "cli_inv (s\<lparr>k_abort := x5\<rparr>) = cli_inv s" "cli_inv (s\<lparr>k_manualOnly := x6\<rparr>) = cli_inv s"
  "cli_inv (s\<lparr>k_cancelled := x7\<rparr>) = cli_inv s" "cli_inv (s\<lparr>k_open := x8\<rparr>) = cli_inv s"
  "cli_inv (s\<lparr>k_next := x9\<rparr>) = cli_inv s" "cli_inv (s\<lparr>k_held := x10\<rparr>) = cli_inv s"
  "cli_inv (unlock s) = cli_inv s" "cli_inv (close_conn_id c s) = cli_inv s"
  by (simp_all add: cli_inv_def unlock_def close_conn_id_def)

lemma cli_inv_drop: "cli_inv s \<Longrightarrow> cli_inv (drop_cli s)" "cli_inv s \<Longrightarrow> cli_inv (forget_cli c s)"
  by (auto simp: cli_inv_def forget_cli_def)

lemma cli_inv_goto: "cli_inv s \<Longrightarrow> past_check p \<longrightarrow> k_cli s = None \<Longrightarrow> cli_inv (goto t p s)"
  by (auto simp: cli_inv_def goto_def)

lemma cli_inv_run:
  assumes "mu_inv s" "cli_inv s" "ssh_run t s = Some s'"
  shows "cli_inv s'"
proof (cases "k_pc s t")
  case (DialOk k c)
  have u: "past_check (k_pc s u) \<Longrightarrow> u = t" for u
    using mu_inv_unique [OF assms(1), of t u] DialOk past_check_holds by simp
  with DialOk assms(3) show ?thesis by (auto simp: ssh_run_eq goto_def cli_inv_def dest: u split: if_splits)
next
  case (GetPublish k)
  with assms show ?thesis
    by (auto simp: ssh_run_eq return_get_def cli_inv_def goto_def split: if_splits)
next
  case (GetConnecting k)
  then have "past_check (k_pc s t)" by simp
  then have "k_cli s = None" using assms(2) by (auto simp: cli_inv_def)
  with GetConnecting assms show ?thesis by (auto simp: ssh_run_eq intro!: cli_inv_goto)
qed (use assms in \<open>auto simp: ssh_run_eq return_get_def split: if_splits option.splits
    intro!: cli_inv_goto cli_inv_drop\<close>)

lemma cli_inv_step: "mu_inv s \<Longrightarrow> cli_inv s \<Longrightarrow> ssh_step e s = Some s' \<Longrightarrow> cli_inv s'"
proof (cases e)
  case (DialSuccess t)
  assume "cli_inv s" "ssh_step e s = Some s'"
  moreover have "past_check (k_pc s t)" if "k_pc s t = Dialing k" for k using that by simp
  ultimately show ?thesis
    using DialSuccess by (auto simp: cli_inv_def goto_def split: if_splits pc.splits)
qed (auto simp: cli_inv_run call_def cli_inv_drop split: if_splits pc.splits chan_outcome.splits
    intro!: cli_inv_goto)

interpretation ssh_cli: machine_invariant ssh_step ssh_init cli_inv
proof
  show "cli_inv ssh_init" by (simp add: cli_inv_def ssh_init_def)
  show "cli_inv s'" if "ssh_reach s" "cli_inv s" "ssh_step e s = Some s'" for s e s'
    using that cli_inv_step ssh_mu.holds by blast
qed

lemma known_conn_after: "known_conn (after_get k r) = Some c \<Longrightarrow> r = GotConn c"
  by (cases "(k, r)" rule: after_get.cases) auto

lemma after_get_neq [simp]: "after_get k r \<noteq> ForgetWait c" "after_get k r \<noteq> DialOk k' c"
  by (cases "(k, r)" rule: after_get.cases; simp)+

lemma open_inv_return:
  assumes "open_inv s" "\<nexists>k c. k_pc s t = DialOk k c"
    and "\<And>c. r = GotConn c \<Longrightarrow> known_conn (k_pc s t) = Some c \<or> k_cli s = Some c"
  shows "open_inv (goto t (after_get k r) s)"
  using assms by (intro open_inv_goto) (auto dest: known_conn_after)

lemma open_inv_run:
  assumes "mu_inv s" "cli_inv s" "open_inv s" "ssh_run t s = Some s'"
  shows "open_inv s'"
proof (cases "k_pc s t")
  case (DialOk k c)
  have u: "k_pc s u = DialOk k' c' \<Longrightarrow> u = t" for u k' c'
    using mu_inv_unique [OF assms(1), of t u] DialOk by simp
  have "past_check (k_pc s t)" using DialOk by simp
  then have n: "k_cli s = None" using assms(2) by (auto simp: cli_inv_def)
  have "open_inv (goto t (Releasing k (GotConn c)) (s\<lparr>k_cli := Some c\<rparr>))"
    by (rule open_inv_store [OF assms(3) DialOk _ n]; (erule u | simp))
  moreover have "open_inv (goto t (Releasing k (GotConn c)) (s\<lparr>k_cli := Some c, k_lastErr := None, k_state := ConnConnected\<rparr>))
      = open_inv (goto t (Releasing k (GotConn c)) (s\<lparr>k_cli := Some c\<rparr>))"
    by (simp add: open_inv_def goto_def)
  ultimately show ?thesis using DialOk assms(4) by (simp add: ssh_run_eq)
next
  case (ForgetWait c)
  with assms(3) have "open_inv (forget_cli c s)" by (intro open_inv_forget) (auto simp: open_inv_def)
  with ForgetWait assms(4) show ?thesis
    by (auto simp: ssh_run_eq intro!: open_inv_goto split: if_splits)
next
  case (ForgetClose c)
  show ?thesis
    using ForgetClose assms(4) open_inv_forgetting [OF assms(3) ForgetClose] by (auto simp: ssh_run_eq)
next
  case (GetCheck k e q)
  with assms(3,4) show ?thesis
    by (auto simp: ssh_run_eq return_get_def split: if_splits option.splits)
      ((rule open_inv_return | rule open_inv_goto); simp)+
next
  case (Releasing k r)
  with assms(4) have "s' = goto t (after_get k r) (unlock (s\<lparr>k_abort := None\<rparr>))"
    by (simp add: ssh_run_eq return_get_def)
  with Releasing assms(3) show ?thesis by (auto intro!: open_inv_return)
next
 case UpStart
  with assms(3,4) show ?thesis by (auto simp: ssh_run_eq return_get_def split: if_splits option.splits
    intro!: open_inv_goto open_inv_drop open_inv_return)
next
 case (GetWait k e q)
  with assms(3,4) show ?thesis by (auto simp: ssh_run_eq return_get_def split: if_splits option.splits
    intro!: open_inv_goto open_inv_drop open_inv_return)
next
 case (GetLocked k e q)
  with assms(3,4) show ?thesis by (auto simp: ssh_run_eq return_get_def split: if_splits option.splits
    intro!: open_inv_goto open_inv_drop open_inv_return)
next
 case (GetPublish k)
  with assms(3,4) show ?thesis by (auto simp: ssh_run_eq return_get_def split: if_splits option.splits
    intro!: open_inv_goto open_inv_drop open_inv_return)
next
 case (GetConnecting k)
  with assms(3,4) show ?thesis by (auto simp: ssh_run_eq return_get_def split: if_splits option.splits
    intro!: open_inv_goto open_inv_drop open_inv_return)
next
 case DownStart
  with assms(3,4) show ?thesis by (auto simp: ssh_run_eq return_get_def split: if_splits option.splits
    intro!: open_inv_goto open_inv_drop open_inv_return)
next
 case DownAbort
  with assms(3,4) show ?thesis by (auto simp: ssh_run_eq return_get_def split: if_splits option.splits
    intro!: open_inv_goto open_inv_drop open_inv_return)
next
 case DownWait
  with assms(3,4) show ?thesis by (auto simp: ssh_run_eq return_get_def split: if_splits option.splits
    intro!: open_inv_goto open_inv_drop open_inv_return)
next
 case CloseWait
  with assms(3,4) show ?thesis by (auto simp: ssh_run_eq return_get_def split: if_splits option.splits
    intro!: open_inv_goto open_inv_drop open_inv_return)
next
 case MarkHeld
  with assms(3,4) show ?thesis by (auto simp: ssh_run_eq return_get_def split: if_splits option.splits
    intro!: open_inv_goto open_inv_drop open_inv_return)
next
 case MarkManual
  with assms(3,4) show ?thesis by (auto simp: ssh_run_eq return_get_def split: if_splits option.splits
    intro!: open_inv_goto open_inv_drop open_inv_return)
next
 case MarkSet
  with assms(3,4) show ?thesis by (auto simp: ssh_run_eq return_get_def split: if_splits option.splits
    intro!: open_inv_goto open_inv_drop open_inv_return)
qed (use assms(4) in \<open>auto simp: ssh_run_eq\<close>)

lemma open_inv_step: "mu_inv s \<Longrightarrow> cli_inv s \<Longrightarrow> open_inv s \<Longrightarrow> ssh_step e s = Some s' \<Longrightarrow> open_inv s'"
proof (cases e)
  case (DialSuccess t)
  assume I: "open_inv s" "ssh_step e s = Some s'"
  show ?thesis
    using I DialSuccess open_inv_connect [OF I(1), of t] by (auto split: if_splits pc.splits)
next
  case (Watched c)
  assume "open_inv s" "ssh_step e s = Some s'"
  then show ?thesis using Watched by (auto simp: open_inv_forget split: if_splits)
next
  case (ConnCloses c)
  assume "open_inv s" "ssh_step e s = Some s'"
  then show ?thesis using ConnCloses by (auto simp: open_inv_close)
next
  case (Run t)
  assume "mu_inv s" "cli_inv s" "open_inv s" "ssh_step e s = Some s'"
  then show ?thesis using Run by (auto intro: open_inv_run)
next
  case (Channel t out)
  assume "mu_inv s" "cli_inv s" "open_inv s" "ssh_step e s = Some s'"
  then show ?thesis using Channel by (cases out) (auto split: if_splits pc.splits intro!: open_inv_goto)
next
  case (DialFail t err)
  assume "mu_inv s" "cli_inv s" "open_inv s" "ssh_step e s = Some s'"
  then show ?thesis using DialFail by (auto split: if_splits pc.splits intro!: open_inv_goto)
next
  case (SignStart t)
  assume "mu_inv s" "cli_inv s" "open_inv s" "ssh_step e s = Some s'"
  then show ?thesis using SignStart by (auto split: pc.splits)
next
  case (SignDone t)
  assume "mu_inv s" "cli_inv s" "open_inv s" "ssh_step e s = Some s'"
  then show ?thesis using SignDone by (auto split: pc.splits)
qed (auto simp: call_def idle_def split: if_splits pc.splits intro!: open_inv_goto)

interpretation ssh_open: machine_invariant ssh_step ssh_init open_inv
proof
  show "open_inv ssh_init" by (simp add: open_inv_def ssh_init_def)
  show "open_inv s'" if "ssh_reach s" "open_inv s" "ssh_step e s = Some s'" for s e s'
    using that open_inv_step ssh_mu.holds ssh_cli.holds by blast
qed

text \<open>A step moves one goroutine at most; \<open>pos_of\<close> lists the others as where they started.\<close>

fun ev_tid :: "ssh_event \<Rightarrow> tid option" where
  "ev_tid (CallGet t) = Some t"
| "ev_tid (CallUp t) = Some t"
| "ev_tid (CallDown t) = Some t"
| "ev_tid (CallClose t) = Some t"
| "ev_tid (CallMark t) = Some t"
| "ev_tid (CallDial t) = Some t"
| "ev_tid (Run t) = Some t"
| "ev_tid (DialSuccess t) = Some t"
| "ev_tid (DialFail t _) = Some t"
| "ev_tid (Channel t _) = Some t"
| "ev_tid _ = None"

lemma ssh_run_other: "ssh_run t s = Some s' \<Longrightarrow> u \<noteq> t \<Longrightarrow> k_pc s' u = k_pc s u"
  by (auto simp: ssh_run_eq return_get_def split: pc.splits if_splits option.splits)

lemma ssh_step_other: "ssh_step e s = Some s' \<Longrightarrow> ev_tid e \<noteq> Some u \<Longrightarrow> k_pc s' u = k_pc s u"
  by (cases e) (auto simp: ssh_run_other call_def split: pc.splits if_splits chan_outcome.splits)

lemma ssh_run_others:
  "run_events ssh_step es s = Some s' \<Longrightarrow> Some u \<notin> ev_tid ` set es \<Longrightarrow> k_pc s' u = k_pc s u"
proof (induction es arbitrary: s)
  case (Cons e es)
  then obtain s1 where s1: "ssh_step e s = Some s1" "run_events ssh_step es s1 = Some s'"
    by (auto split: option.splits)
  with Cons show ?case using ssh_step_other [OF s1(1), of u] by auto
qed simp

section \<open>Properties of the client\<close>

text \<open>C16. A connection the user closed stays closed: once a \<open>Down\<close> has run through and no \<open>Up\<close> has
  undone it, there is no current connection, no connection is open at all and nobody is dialling;
  and a \<open>get\<close> that reaches the mutex then is refused without dialling.\<close>

theorem Down_is_final:
  assumes "ssh_reach s" "k_held s" "\<And>d. \<not> downing (k_pc s d)"
  shows "k_cli s = None \<and> k_open s = [] \<and> (\<forall>t. \<not> published (k_pc s t))
     \<and> (\<forall>t k e q. k_pc s t = GetLocked k e q \<longrightarrow>
          ssh_step (Run t) s = Some (goto t (after_get k Disconnected) (unlock s)))"
proof -
  have d: "k_cli s = None" "\<not> published (k_pc s t)" for t
    using ssh_down.holds [OF assms(1)] assms(2,3) by (auto simp: down_inv_def)
  have "k_pc s t \<noteq> DialOk k c" for t k c using d(2) [of t] by auto
  then have "c \<notin> set (k_open s)" for c
    using open_invD(2) [OF ssh_open.holds [OF assms(1)], of c] d(1) by auto
  then have "set (k_open s) = {}" by (simp add: set_eq_iff)
  then have "k_open s = []" by simp
  with d assms(2) show ?thesis by (simp add: ssh_run_eq return_get_def)
qed

text \<open>A dial is under way when the user closes the connection; the peer sees it cancelled.\<close>

definition sample_down :: "ssh_event list" where
  "sample_down = [CallDial 1, Run 1, Run 1, Run 1, Run 1, Run 1, CallDown 2, Run 2, Run 2,
     DialFail 1 ''cancelled'', Run 1, Run 2, CallGet 3, Run 3]"

lemma sample_down_run:
  "map_option (\<lambda>s. (k_held s, k_pc s 1, k_pc s 2, k_pc s 3)) (run_events ssh_step sample_down ssh_init)
   = Some (True, Returned (DialError ''cancelled''), ReturnedUnit, GetLocked KGet False 0)"
  by code_simp

lemma Down_is_final_witness:
  "\<exists>s. run_events ssh_step sample_down ssh_init = Some s \<and> k_open s = []
     \<and> ssh_step (Run 3) s = Some (goto 3 (Returned Disconnected) (unlock s))"
proof -
  obtain s where r: "run_events ssh_step sample_down ssh_init = Some s" and h: "k_held s"
    and p: "k_pc s 1 = Returned (DialError ''cancelled'')" "k_pc s 2 = ReturnedUnit"
      "k_pc s 3 = GetLocked KGet False 0"
    using sample_down_run by auto
  have "k_pc s d = Idle" if "d \<noteq> 1" "d \<noteq> 2" "d \<noteq> 3" for d
    using ssh_run_others [OF r, of d] that by (simp add: sample_down_def ssh_init_def)
  then have "\<not> downing (k_pc s d)" for d using p by (cases "d = 1 \<or> d = 2 \<or> d = 3") auto
  from Down_is_final [OF run_reachable [OF r] h this]
  have "k_open s = []" "ssh_step (Run 3) s = Some (goto 3 (after_get KGet Disconnected) (unlock s))"
    using p(3) by blast+
  with r show ?thesis by simp
qed

text \<open>C17. Dials are exclusive and obey \<open>Down\<close>: at most one goroutine is between publishing its cancel
  function and clearing it, it is the one \<open>Down\<close> would cancel, and once the client is held and no
  \<open>Down\<close> has its cancelling still ahead the dial is cancelled and can no longer yield a connection.\<close>

theorem dial_exclusive_and_cancelled:
  assumes "ssh_reach s" "published (k_pc s t)"
  shows "(\<forall>u. published (k_pc s u) \<longrightarrow> u = t) \<and> k_abort s = Some t \<and> k_mu s = Some t
     \<and> (k_held s \<longrightarrow> (\<forall>d. k_pc s d \<noteq> DownAbort) \<longrightarrow> k_cancelled s t \<and> ssh_step (DialSuccess t) s = None)"
proof (intro conjI allI impI)
  have m: "k_abort s = Some u \<longleftrightarrow> published (k_pc s u)" "k_mu s = Some u \<longleftrightarrow> holds_mu (k_pc s u)" for u
    using ssh_mu.holds [OF assms(1)] by (auto simp: mu_inv_def)
  show "k_abort s = Some t" "k_mu s = Some t" using m assms(2) published_holds by auto
  then show "u = t" if "published (k_pc s u)" for u using m(1) [of u] that by simp
  assume "k_held s" "\<forall>d. k_pc s d \<noteq> DownAbort"
  then show c: "k_cancelled s t"
    using ssh_abort.holds [OF assms(1)] assms(2) by (auto simp: abort_inv_def)
  then show "ssh_step (DialSuccess t) s = None" by (simp split: pc.splits)
qed

definition sample_abort :: "ssh_event list" where
  "sample_abort = [CallUp 1, Run 1, Run 1, Run 1, Run 1, Run 1, Run 1, SignStart 1, CallDown 2, Run 2, Run 2]"

lemma dial_exclusive_and_cancelled_witness:
  "\<exists>s. run_events ssh_step sample_abort ssh_init = Some s \<and> k_held s \<and> k_state s = ConnAwaitingApproval
     \<and> k_abort s = Some 1 \<and> k_cancelled s 1 \<and> ssh_step (DialSuccess 1) s = None"
proof -
  have "map_option (\<lambda>s. (k_held s, k_state s, k_pc s 1, k_pc s 2)) (run_events ssh_step sample_abort ssh_init)
      = Some (True, ConnAwaitingApproval, Dialing KGet, DownWait)"
    by code_simp
  then obtain s where r: "run_events ssh_step sample_abort ssh_init = Some s" and h: "k_held s"
    and st: "k_state s = ConnAwaitingApproval" and p: "k_pc s 1 = Dialing KGet" "k_pc s 2 = DownWait"
    by auto
  have "k_pc s d = Idle" if "d \<noteq> 1" "d \<noteq> 2" for d
    using ssh_run_others [OF r, of d] that by (simp add: sample_abort_def ssh_init_def)
  then have d: "k_pc s d \<noteq> DownAbort" for d using p by (cases "d = 1 \<or> d = 2") auto
  have "published (k_pc s 1)" by (simp only: p published.simps)
  from dial_exclusive_and_cancelled [OF run_reachable [OF r] this] r h st d show ?thesis by auto
qed

text \<open>C8. No ssh connection is leaked: whatever calls, dials, failures and closes happen in whatever order,
  an open connection is the client's current one, or there is none and the goroutine that holds the
  mutex has just opened it and stores it with its next step.\<close>

theorem no_connection_leaks:
  assumes "ssh_reach s" "c \<in> set (k_open s)"
  shows "k_cli s = Some c \<or> (\<exists>t k. k_mu s = Some t \<and> k_pc s t = DialOk k c \<and> k_cli s = None
     \<and> (\<exists>s'. ssh_step (Run t) s = Some s' \<and> k_cli s' = Some c))"
proof (cases "k_cli s = Some c")
  case False
  then obtain t k where t: "k_pc s t = DialOk k c"
    using open_invD(2) [OF ssh_open.holds [OF assms(1)] assms(2)] by blast
  then have "past_check (k_pc s t)" "holds_mu (k_pc s t)" by simp_all
  then have "k_mu s = Some t" "k_cli s = None"
    using ssh_mu.holds [OF assms(1)] ssh_cli.holds [OF assms(1)] by (auto simp: mu_inv_def cli_inv_def)
  with t show ?thesis by (simp add: ssh_run_eq goto_def)
qed simp

lemma no_connection_leaks_witness:
  "\<exists>s. run_events ssh_step [CallGet 1, Run 1, Run 1, Run 1, Run 1, Run 1, DialSuccess 1] ssh_init = Some s
     \<and> k_cli s = None \<and> k_open s = [0] \<and> (\<exists>t s'. ssh_step (Run t) s = Some s' \<and> k_cli s' = Some 0)"
proof -
  have "map_option (\<lambda>s. (k_cli s, k_open s))
      (run_events ssh_step [CallGet 1, Run 1, Run 1, Run 1, Run 1, Run 1, DialSuccess 1] ssh_init) = Some (None, [0])"
    by code_simp
  then obtain s where r: "run_events ssh_step [CallGet 1, Run 1, Run 1, Run 1, Run 1, Run 1, DialSuccess 1] ssh_init = Some s"
    and s: "k_cli s = None" "k_open s = [0]" by auto
  from no_connection_leaks [OF run_reachable [OF r], of 0] r s show ?thesis by auto
qed


text \<open>How many of its own steps the holder of the mutex is from releasing it, at most.\<close>

fun hold_rank :: "pc \<Rightarrow> nat" where
  "hold_rank (GetLocked _ _ _) = 6"
| "hold_rank (GetCheck _ _ _) = 5"
| "hold_rank (GetPublish _) = 4"
| "hold_rank (GetConnecting _) = 3"
| "hold_rank (Dialing _) = 2"
| "hold_rank (DialOk _ _) = 2"
| "hold_rank (Releasing _ _) = 1"
| "hold_rank _ = 0"

lemma hold_rank_after [simp]: "hold_rank (after_get k r) = 0"
  by (cases "(k, r)" rule: after_get.cases) auto

lemma hold_rank_zero: "(hold_rank p = 0) = (\<not> holds_mu p)"
  by (cases p) auto

lemma hold_rank_step:
  assumes "holds_mu (k_pc s t)"
  shows "\<exists>e s'. ssh_step e s = Some s' \<and> ev_tid e = Some t \<and> hold_rank (k_pc s' t) < hold_rank (k_pc s t)"
proof (cases "k_pc s t")
  case (Dialing k)
  then show ?thesis by (intro exI [of _ "DialFail t []"]) simp
next
  case (GetCheck k e q)
  then show ?thesis
    by (intro exI [of _ "Run t"]) (auto simp: ssh_run_eq return_get_def split: option.splits)
qed (use assms in \<open>auto intro!: exI [of _ "Run t"] simp: ssh_run_eq return_get_def\<close>)

lemma hold_rank_run:
  "ssh_reach s \<Longrightarrow> k_mu s = Some t \<Longrightarrow>
     \<exists>es s'. length es \<le> hold_rank (k_pc s t) \<and> (\<forall>e \<in> set es. ev_tid e = Some t)
       \<and> run_events ssh_step es s = Some s' \<and> k_mu s' \<noteq> Some t"
proof (induction "hold_rank (k_pc s t)" arbitrary: s rule: less_induct)
  case less
  then have "holds_mu (k_pc s t)" using ssh_mu.holds by (auto simp: mu_inv_def)
  from hold_rank_step [OF this] obtain e s1 where e: "ssh_step e s = Some s1" "ev_tid e = Some t"
    and r: "hold_rank (k_pc s1 t) < hold_rank (k_pc s t)" by blast
  show ?case
  proof (cases "k_mu s1 = Some t")
    case True
    from less.hyps [OF r reach_step [OF less.prems(1) e(1)] True] obtain es s'
      where "length es \<le> hold_rank (k_pc s1 t)" "\<forall>e \<in> set es. ev_tid e = Some t"
        "run_events ssh_step es s1 = Some s'" "k_mu s' \<noteq> Some t" by blast
    with e r show ?thesis by (intro exI [of _ "e # es"]) auto
  next
    case False
    with e r show ?thesis by (intro exI [of _ "[e]"]) auto
  qed
qed

lemma hold_rank_le: "hold_rank p \<le> 6"
  by (cases p) auto

text \<open>C32. The mutex is never stuck: from any reachable state in which a goroutine holds it, at most six
  events of that goroutine alone (its own steps and the end of its dial) release it.\<close>

theorem mutex_is_released:
  assumes "ssh_reach s" "k_mu s = Some t"
  shows "\<exists>es s'. length es \<le> 6 \<and> (\<forall>e \<in> set es. ev_tid e = Some t) \<and> run_events ssh_step es s = Some s'
     \<and> k_mu s' \<noteq> Some t"
  using hold_rank_run [OF assms] hold_rank_le le_trans by meson

lemma mutex_is_released_witness:
  "\<exists>s. run_events ssh_step [CallGet 1, Run 1, CallGet 2] ssh_init = Some s \<and> ssh_step (Run 2) s = None
     \<and> (\<exists>es s'. length es \<le> 6 \<and> run_events ssh_step es s = Some s' \<and> k_mu s' \<noteq> Some 1)"
proof -
  have "map_option (\<lambda>s. (k_mu s, ssh_step (Run 2) s = None)) (run_events ssh_step [CallGet 1, Run 1, CallGet 2] ssh_init)
      = Some (Some 1, True)"
    by (simp add: ssh_init_def ssh_run_eq call_def idle_def goto_def)
  then obtain s where r: "run_events ssh_step [CallGet 1, Run 1, CallGet 2] ssh_init = Some s"
    and s: "k_mu s = Some 1" "ssh_step (Run 2) s = None" by auto
  from mutex_is_released [OF run_reachable [OF r] s(1)] r s(2) show ?thesis by blast
qed

text \<open>\<open>MarkConnecting\<close> looks at \<open>held\<close> and stores the state in separate steps, so a \<open>Down\<close> in between
  leaves the client shown as connecting for good: held down, with no connection and no dial, and any
  later \<open>get\<close> returns without correcting it.\<close>

theorem MarkConnecting_races_Down:
  "map_option (\<lambda>s. (k_held s, k_state s, k_cli s, k_mu s, k_pc s 1, k_pc s 2, k_pc s 3))
     (run_events ssh_step [CallMark 1, Run 1, Run 1, CallDown 2, Run 2, Run 2, Run 2, Run 1,
        CallGet 3, Run 3, Run 3] ssh_init)
   = Some (True, ConnConnecting, None, None, ReturnedUnit, ReturnedUnit, Returned Disconnected)"
  by code_simp

end
