(* ===== verification/Controller.thy ===== *)
theory Controller
  imports Serve VpnClient SshClient
begin

text \<open>
  \<open>internal/menubar/controller.go\<close>: the controller of the embedded proxy. Its methods are steps on the
  controller's fields, the addresses it has bound and the connections of its upstreams; what it
  runs on goroutines of its own (the servers, \<open>go c.syncTunnels\<close>, the background \<open>Up\<close>) are
  steps of their own that happen at any later time. A connection is what the ssh and VPN clients
  promise of theirs (theories SshClient and VpnClient): a state, and \<open>held\<close>, which \<open>Down\<close> sets and \<open>Up\<close>
  clears and under which it does not connect.
\<close>

section \<open>States and snapshots\<close>

datatype ctl_state = StateStopped | StateStarting | StateRunning | StateError

fun ctl_state_String :: "ctl_state \<Rightarrow> string" where
  "ctl_state_String StateStopped = ''stopped''"
| "ctl_state_String StateStarting = ''starting''"
| "ctl_state_String StateRunning = ''running''"
| "ctl_state_String StateError = ''error''"

datatype tunnel_state = TunnelListening | TunnelStopped

fun tunnel_state_String :: "tunnel_state \<Rightarrow> string" where
  "tunnel_state_String TunnelListening = ''listening''"
| "tunnel_state_String TunnelStopped = ''stopped''"

datatype ctl_err =
    LoadFailed load_err
  | RegistryFailed string reg_err
  | MatcherFailed match_err
  | ServerFailed serve_err
  | TunnelsFailed serve_err
  | ServeFailed string
  | ErrShutdownTimeout
  | NotRunning
  | TunnelUnknown string
  | UpstreamUnknown string
  | TunnelErr string serve_err

record forward_status =
  fs_Name :: string
  fs_Addr :: string

record upstream_status =
  us_Name :: string
  us_Type :: string
  us_ConnState :: conn_state

record tunnel_status =
  ts_Name :: string
  ts_Upstream :: string
  ts_Target :: string
  ts_Addr :: string
  ts_State :: tunnel_state

record status =
  st_State :: ctl_state
  st_ListenAddr :: string
  st_ConfigPath :: string
  st_LastError :: "ctl_err option"
  st_Tunnels :: "tunnel_status list"
  st_Forwards :: "forward_status list"
  st_Upstreams :: "upstream_status list"
  st_Chrome :: "chrome option"

section \<open>State\<close>

text \<open>
  \<open>srv\<close>, \<open>ctx\<close>, \<open>cancel\<close> and \<open>done\<close> of a tunnel are set and cleared together: \<open>Bound\<close> while it serves,
  \<open>Closing\<close> from its \<open>cancel\<close> until \<open>Serve\<close> has returned.
\<close>

datatype tunnel_run = Bound server | Closing server

record tunnel_handle =
  h_name :: string
  h_upstream :: string
  h_dialer :: "dialer option"
  h_listener :: listener
  h_reg :: registry
  h_matcher :: matcher
  h_stopped :: bool
  h_run :: "tunnel_run option"

record conn_dialer =
  cd_state :: conn_state
  cd_held :: bool
  cd_manual :: bool
  cd_pending :: bool

text \<open>A background \<open>Up\<close> of a run's upstream: for a tunnel or not, and how far it is.\<close>

record up_task =
  up_run :: nat
  up_name :: string
  up_tunnel :: bool
  up_stage :: nat

text \<open>
  The runs of \<open>Start\<close> are numbered; \<open>q_run\<close> is the one \<open>baseCtx\<close>, \<open>reg\<close> and \<open>cfg\<close> belong to, \<open>q_cancel\<close>
  the one of \<open>cancel\<close> and \<open>done\<close>, which \<open>Stop\<close> does not clear. \<open>q_serving\<close> are the proxy servers whose
  \<open>Serve\<close> has not returned, \<open>q_orphans\<close> tunnel servers whose \<open>Serve\<close> failed, which nobody closes until
  their context ends. \<open>q_syncs\<close> are the pending \<open>syncTunnels\<close>, \<open>q_queue\<close> the rest of the one that holds
  \<open>syncMu\<close>. A subscriber is the list of the snapshots it was given.
\<close>

record ctl =
  q_cfgPath :: string
  q_state :: ctl_state
  q_listen :: string
  q_tunnels :: "(string \<times> tunnel_handle) list"
  q_run :: "nat option"
  q_reg :: "registry option"
  q_cfg :: "config option"
  q_cancel :: "nat option"
  q_lastErr :: "ctl_err option"
  q_subs :: "status list option list"
  q_manualOnly :: bool
  q_ports :: net_ports
  q_conns :: "nat \<Rightarrow> string \<Rightarrow> conn_dialer"
  q_next :: nat
  q_cancelled :: "nat \<Rightarrow> bool"
  q_serving :: "(nat \<times> server) list"
  q_orphans :: "(nat \<times> server) list"
  q_syncs :: "nat list"
  q_queue :: "(nat \<times> bool \<times> string) list"
  q_ups :: "up_task list"
  q_approvals :: "bool list"

definition ctl_New :: "string \<Rightarrow> net_ports \<Rightarrow> ctl" where
  "ctl_New path ports = \<lparr>q_cfgPath = path, q_state = StateStopped, q_listen = [], q_tunnels = [],
     q_run = None, q_reg = None, q_cfg = None, q_cancel = None, q_lastErr = None, q_subs = [],
     q_manualOnly = False, q_ports = ports,
     q_conns = (\<lambda>_ _. \<lparr>cd_state = ConnUnknown, cd_held = False, cd_manual = False, cd_pending = False\<rparr>),
     q_next = 0, q_cancelled = (\<lambda>_. False), q_serving = [], q_orphans = [], q_syncs = [], q_queue = [],
     q_ups = [], q_approvals = []\<rparr>"

section \<open>Snapshots and subscribers\<close>

definition connNames :: "config \<Rightarrow> string list" where
  "connNames cfg = filter (\<lambda>n. case map_of (c_Upstreams cfg) n of
       Some u \<Rightarrow> u_Type u = UpstreamSSH \<or> u_Type u = UpstreamOpenConnect | None \<Rightarrow> False)
     (sorted_keys (c_Upstreams cfg))"

text \<open>\<open>closes\<close> is true of the ssh and openconnect dialers, which are the ones with the interface.\<close>

definition reg_connDialer :: "registry option \<Rightarrow> string \<Rightarrow> dialer option" where
  "reg_connDialer reg name =
     (case reg of
        None \<Rightarrow> None
      | Some r \<Rightarrow> (case Get r name of Some d \<Rightarrow> if closes d then Some d else None | None \<Rightarrow> None))"

definition forwardStatus :: "config \<Rightarrow> forward_status list" where
  "forwardStatus cfg =
     List.map_filter (\<lambda>n. case map_of (c_Upstreams cfg) n of
         Some u \<Rightarrow> if u_Type u = UpstreamForward then Some \<lparr>fs_Name = n, fs_Addr = u_Addr u\<rparr> else None
       | None \<Rightarrow> None)
     (sorted_keys (c_Upstreams cfg))"

definition conn_state_of :: "ctl \<Rightarrow> string \<Rightarrow> conn_state" where
  "conn_state_of s name = (case q_run s of None \<Rightarrow> ConnUnknown | Some r \<Rightarrow> cd_state (q_conns s r name))"

definition upstreamStatus :: "ctl \<Rightarrow> config \<Rightarrow> upstream_status list" where
  "upstreamStatus s cfg =
     map (\<lambda>n. \<lparr>us_Name = n,
            us_Type = (case map_of (c_Upstreams cfg) n of Some u \<Rightarrow> u_Type u | None \<Rightarrow> []),
            us_ConnState = (if reg_connDialer (q_reg s) n \<noteq> None then conn_state_of s n else ConnUnknown)\<rparr>)
       (connNames cfg)"

fun run_server :: "tunnel_run \<Rightarrow> server" where
  "run_server (Bound srv) = srv"
| "run_server (Closing srv) = srv"

definition tunnelStatus :: "ctl \<Rightarrow> tunnel_status list" where
  "tunnelStatus s =
     List.map_filter (\<lambda>n. map_option (\<lambda>h.
         \<lparr>ts_Name = n, ts_Upstream = h_upstream h, ts_Target = l_Target (h_listener h),
          ts_Addr = (case h_run h of None \<Rightarrow> [] | Some k \<Rightarrow> srv_addr (run_server k)),
          ts_State = (if h_run h = None then TunnelStopped else TunnelListening)\<rparr>)
       (map_of (q_tunnels s) n))
     (sorted_keys (q_tunnels s))"

definition Snapshot :: "ctl \<Rightarrow> status" where
  "Snapshot s = \<lparr>st_State = q_state s, st_ListenAddr = q_listen s, st_ConfigPath = q_cfgPath s,
     st_LastError = q_lastErr s, st_Tunnels = tunnelStatus s,
     st_Forwards = (case q_cfg s of None \<Rightarrow> [] | Some cfg \<Rightarrow> forwardStatus cfg),
     st_Upstreams = (case q_cfg s of None \<Rightarrow> [] | Some cfg \<Rightarrow> upstreamStatus s cfg),
     st_Chrome = (case q_cfg s of None \<Rightarrow> None | Some cfg \<Rightarrow> c_Chrome cfg)\<rparr>"

definition notify :: "ctl \<Rightarrow> ctl" where
  "notify s = s\<lparr>q_subs := map (map_option (\<lambda>l. l @ [Snapshot s])) (q_subs s)\<rparr>"

definition Subscribe :: "ctl \<Rightarrow> ctl \<times> nat" where
  "Subscribe s = (s\<lparr>q_subs := q_subs s @ [Some []]\<rparr>, length (q_subs s))"

definition Unsubscribe :: "nat \<Rightarrow> ctl \<Rightarrow> ctl" where
  "Unsubscribe idx s = (if idx < length (q_subs s) then s\<lparr>q_subs := (q_subs s)[idx := None]\<rparr> else s)"

definition fail :: "ctl_err \<Rightarrow> ctl \<Rightarrow> ctl" where
  "fail err s = notify (s\<lparr>q_state := StateError, q_lastErr := Some err, q_listen := [], q_tunnels := [],
     q_reg := None, q_cfg := None, q_run := None\<rparr>)"

section \<open>Connections\<close>

definition upd_conn :: "nat \<Rightarrow> string \<Rightarrow> (conn_dialer \<Rightarrow> conn_dialer) \<Rightarrow> ctl \<Rightarrow> ctl" where
  "upd_conn r n f s = s\<lparr>q_conns := (q_conns s)(r := (q_conns s r)(n := f (q_conns s r n)))\<rparr>"

text \<open>
  \<open>setState\<close> of the clients with the hooks that \<open>Start\<close> registers: an ssh upstream reports entering and
  leaving the approval wait, each repaints, and a \<open>syncTunnels\<close> is started.
\<close>

definition sshStateChanged :: "nat \<Rightarrow> string \<Rightarrow> ctl \<Rightarrow> ctl" where
  "sshStateChanged r n s =
     (let c = q_conns s r n; p = (cd_state c = ConnAwaitingApproval)
      in notify (if cd_pending c \<noteq> p
         then (upd_conn r n (\<lambda>c. c\<lparr>cd_pending := p\<rparr>) s)\<lparr>q_approvals := q_approvals s @ [p]\<rparr> else s))"

definition set_conn_state :: "bool \<Rightarrow> nat \<Rightarrow> string \<Rightarrow> conn_state \<Rightarrow> ctl \<Rightarrow> ctl" where
  "set_conn_state ssh r n st s =
     (if cd_state (q_conns s r n) = st then s
      else let s = upd_conn r n (\<lambda>c. c\<lparr>cd_state := st\<rparr>) s;
               s = (if ssh then sshStateChanged r n s else notify s)
           in s\<lparr>q_syncs := q_syncs s @ [r]\<rparr>)"

fun is_ssh :: "dialer \<Rightarrow> bool" where
  "is_ssh (SSHDialer _ _ _) = True"
| "is_ssh _ = False"

definition conn_Down :: "nat \<Rightarrow> string \<Rightarrow> dialer \<Rightarrow> ctl \<Rightarrow> ctl" where
  "conn_Down r n d s = set_conn_state (is_ssh d) r n ConnUnknown (upd_conn r n (\<lambda>c. c\<lparr>cd_held := True\<rparr>) s)"

definition applyAutoconnect :: "nat \<Rightarrow> registry \<Rightarrow> config \<Rightarrow> ctl \<Rightarrow> ctl" where
  "applyAutoconnect r reg cfg s =
     fold (\<lambda>n s. if reg_connDialer (Some reg) n \<noteq> None
                 then upd_conn r n (\<lambda>c. c\<lparr>cd_manual := q_manualOnly s\<rparr>) s else s) (connNames cfg) s"

definition ctl_SetAutoconnect :: "bool \<Rightarrow> ctl \<Rightarrow> ctl" where
  "ctl_SetAutoconnect on s =
     (let s = s\<lparr>q_manualOnly := \<not> on\<rparr>
      in notify (case (q_cfg s, q_reg s, q_run s) of
           (Some cfg, Some reg, Some r) \<Rightarrow> applyAutoconnect r reg cfg s
         | _ \<Rightarrow> s))"

definition ctl_conn :: "string \<Rightarrow> ctl \<Rightarrow> ctl_err + dialer" where
  "ctl_conn name s =
     (if q_state s \<noteq> StateRunning then Inl NotRunning
      else case reg_connDialer (q_reg s) name of None \<Rightarrow> Inl (UpstreamUnknown name) | Some d \<Rightarrow> Inr d)"

definition spawn_up :: "string \<Rightarrow> bool \<Rightarrow> ctl \<Rightarrow> ctl" where
  "spawn_up name tunnel s =
     (case q_run s of None \<Rightarrow> s
      | Some r \<Rightarrow> s\<lparr>q_ups := q_ups s @ [\<lparr>up_run = r, up_name = name, up_tunnel = tunnel, up_stage = 0\<rparr>]\<rparr>)"

definition ConnectUpstream :: "string \<Rightarrow> ctl \<Rightarrow> (ctl_err + unit) \<times> ctl" where
  "ConnectUpstream name s =
     (case ctl_conn name s of Inl e \<Rightarrow> (Inl e, s) | Inr _ \<Rightarrow> (Inr (), spawn_up name False s))"

definition downDependents :: "nat \<Rightarrow> string \<Rightarrow> ctl \<Rightarrow> ctl" where
  "downDependents r name s =
     (case q_cfg s of
        None \<Rightarrow> s
      | Some cfg \<Rightarrow>
          if q_run s \<noteq> Some r then s
          else notify (fold (\<lambda>n s. case reg_connDialer (q_reg s) n of None \<Rightarrow> s | Some d \<Rightarrow> conn_Down r n d s)
            (filter (\<lambda>n. case map_of (c_Upstreams cfg) n of Some u \<Rightarrow> u_Via u = name | None \<Rightarrow> False) (connNames cfg))
            s))"

definition DisconnectUpstream :: "string \<Rightarrow> ctl \<Rightarrow> (ctl_err + unit) \<times> ctl" where
  "DisconnectUpstream name s =
     (case ctl_conn name s of
        Inl e \<Rightarrow> (Inl e, s)
      | Inr d \<Rightarrow>
          (case q_run s of None \<Rightarrow> (Inr (), s)
           | Some r \<Rightarrow> (Inr (), downDependents r name (conn_Down r name d s))))"

definition upstreamDropped :: "nat \<Rightarrow> string \<Rightarrow> ctl \<Rightarrow> ctl" where
  "upstreamDropped r name s =
     (if q_state s = StateRunning \<and> q_run s = Some r then downDependents r name s else s)"

section \<open>Tunnels\<close>

definition upd_tunnel :: "string \<Rightarrow> (tunnel_handle \<Rightarrow> tunnel_handle) \<Rightarrow> ctl \<Rightarrow> ctl" where
  "upd_tunnel n f s =
     (case map_of (q_tunnels s) n of None \<Rightarrow> s | Some h \<Rightarrow> s\<lparr>q_tunnels := put (q_tunnels s) n (f h)\<rparr>)"

definition pinned_conn :: "tunnel_handle \<Rightarrow> dialer option" where
  "pinned_conn h = (case h_dialer h of Some d \<Rightarrow> if closes d then Some d else None | None \<Rightarrow> None)"

definition close_ports :: "server list \<Rightarrow> net_ports \<Rightarrow> net_ports" where
  "close_ports srvs np = fold server_Close srvs np"

text \<open>\<open>buildTunnels\<close>: on an error what was bound is closed again.\<close>

definition new_handle :: "registry \<Rightarrow> matcher \<Rightarrow> listener \<Rightarrow> tunnel_handle" where
  "new_handle reg m l = \<lparr>h_name = l_Listen l, h_upstream = l_Upstream l, h_dialer = Get reg (l_Upstream l),
     h_listener = l, h_reg = reg, h_matcher = m, h_stopped = False, h_run = None\<rparr>"

definition handle_servers :: "(string \<times> tunnel_handle) list \<Rightarrow> server list" where
  "handle_servers ts = List.map_filter (\<lambda>(_, h). map_option run_server (h_run h)) ts"

fun buildTunnels ::
  "registry \<Rightarrow> matcher \<Rightarrow> listener list \<Rightarrow> (string \<times> tunnel_handle) list \<Rightarrow> net_ports
     \<Rightarrow> (serve_err + (string \<times> tunnel_handle) list) \<times> net_ports"
where
  "buildTunnels reg m [] ts np = (Inr ts, np)"
| "buildTunnels reg m (l # ls) ts np =
     (let h = new_handle reg m l; ts = put ts (l_Listen l) h
      in if pinned_conn h \<noteq> None then buildTunnels reg m ls ts np
         else (case listener_New l reg m np of
                 (Inl e, np) \<Rightarrow> (Inl (ListenerErr (l_Listen l) e), close_ports (handle_servers ts) np)
               | (Inr srv, np) \<Rightarrow>
                   buildTunnels reg m ls (put ts (l_Listen l) (h\<lparr>h_run := Some (Bound srv)\<rparr>)) np))"

text \<open>\<open>cancel\<close> of one tunnel: its server closes.\<close>

definition tunnel_cancel :: "string \<Rightarrow> ctl \<Rightarrow> ctl" where
  "tunnel_cancel name s =
     (case map_of (q_tunnels s) name of
        Some h \<Rightarrow>
          (case h_run h of
             Some (Bound srv) \<Rightarrow>
               upd_tunnel name (\<lambda>h. h\<lparr>h_run := Some (Closing srv)\<rparr>) (s\<lparr>q_ports := server_Close srv (q_ports s)\<rparr>)
           | _ \<Rightarrow> s)
      | None \<Rightarrow> s)"

text \<open>
  \<open>bindTunnel\<close> with \<open>serveTunnel\<close>: a tunnel bound after the context of its run has ended closes at once.
\<close>

definition run_ended :: "ctl \<Rightarrow> bool" where
  "run_ended s = (case q_run s of None \<Rightarrow> False | Some r \<Rightarrow> q_cancelled s r)"

definition bindTunnel :: "string \<Rightarrow> ctl \<Rightarrow> (ctl_err + unit) \<times> ctl" where
  "bindTunnel name s =
     (case map_of (q_tunnels s) name of
        None \<Rightarrow> (Inr (), s)
      | Some h \<Rightarrow>
          if h_run h \<noteq> None then (Inr (), s)
          else (case listener_New (h_listener h) (h_reg h) (h_matcher h) (q_ports s) of
                  (Inl e, np) \<Rightarrow> (Inl (TunnelErr name e), s\<lparr>q_ports := np\<rparr>)
                | (Inr srv, np) \<Rightarrow>
                    (let s = notify (upd_tunnel name (\<lambda>h. h\<lparr>h_run := Some (Bound srv)\<rparr>) (s\<lparr>q_ports := np\<rparr>))
                     in (Inr (), if run_ended s then tunnel_cancel name s else s))))"

text \<open>
  \<open>Serve\<close> of a tunnel has returned (the end of \<open>serveTunnel\<close>): after its context ended, which closed
  the listener, or with an accept error, which leaves it open.
\<close>

definition tunnel_end :: "string \<Rightarrow> ctl \<Rightarrow> ctl" where
  "tunnel_end name s =
     (case map_of (q_tunnels s) name of
        None \<Rightarrow> s
      | Some h \<Rightarrow>
          let s' = upd_tunnel name (\<lambda>h. h\<lparr>h_run := None\<rparr>) s
          in (case (h_run h, q_run s) of
                (None, _) \<Rightarrow> s
              | (Some (Bound srv), Some r) \<Rightarrow> notify (s'\<lparr>q_orphans := q_orphans s @ [(r, srv)]\<rparr>)
              | _ \<Rightarrow> notify s'))"

text \<open>\<open>wedged\<close>: \<open>Serve\<close> does not return within the timeout.\<close>

definition unbindTunnel :: "bool \<Rightarrow> string \<Rightarrow> ctl \<Rightarrow> (ctl_err + unit) \<times> ctl" where
  "unbindTunnel wedged name s =
     (case map_of (q_tunnels s) name of
        None \<Rightarrow> (Inr (), s)
      | Some h \<Rightarrow>
          if h_run h = None then (Inr (), s)
          else if wedged then (Inl ErrShutdownTimeout, tunnel_cancel name s)
          else (Inr (), tunnel_end name (tunnel_cancel name s)))"

definition StopTunnel :: "bool \<Rightarrow> string \<Rightarrow> ctl \<Rightarrow> (ctl_err + unit) \<times> ctl" where
  "StopTunnel wedged name s =
     (if map_of (q_tunnels s) name = None then (Inl (TunnelUnknown name), s)
      else unbindTunnel wedged name (upd_tunnel name (\<lambda>h. h\<lparr>h_stopped := True\<rparr>) s))"

definition StartTunnel :: "string \<Rightarrow> ctl \<Rightarrow> (ctl_err + unit) \<times> ctl" where
  "StartTunnel name s =
     (if q_state s \<noteq> StateRunning then (Inl NotRunning, s)
      else case map_of (q_tunnels s) name of
             None \<Rightarrow> (Inl (TunnelUnknown name), s)
           | Some h \<Rightarrow>
               let s = upd_tunnel name (\<lambda>h. h\<lparr>h_stopped := False\<rparr>) s
               in if pinned_conn h \<noteq> None then (Inr (), spawn_up (h_upstream h) True s)
                  else bindTunnel name s)"

section \<open>syncTunnels\<close>

text \<open>What it decides while it holds \<open>mu\<close>: the tunnels to unbind and to bind.\<close>

definition sync_unbind :: "ctl \<Rightarrow> tunnel_handle \<Rightarrow> bool" where
  "sync_unbind s h \<longleftrightarrow> pinned_conn h \<noteq> None \<and> h_run h \<noteq> None
     \<and> (conn_state_of s (h_upstream h) \<noteq> ConnConnected \<or> h_stopped h)"

definition sync_bind :: "ctl \<Rightarrow> tunnel_handle \<Rightarrow> bool" where
  "sync_bind s h \<longleftrightarrow> pinned_conn h \<noteq> None \<and> h_run h = None
     \<and> conn_state_of s (h_upstream h) = ConnConnected \<and> \<not> h_stopped h"

definition tunnel_sat :: "ctl \<Rightarrow> (tunnel_handle \<Rightarrow> bool) \<Rightarrow> string \<Rightarrow> bool" where
  "tunnel_sat s P n \<longleftrightarrow> (case map_of (q_tunnels s) n of Some h \<Rightarrow> P h | None \<Rightarrow> False)"

definition sync_decide :: "nat \<Rightarrow> ctl \<Rightarrow> (nat \<times> bool \<times> string) list" where
  "sync_decide r s =
     (if q_state s = StateRunning \<and> q_run s = Some r
      then let names = sorted_keys (q_tunnels s)
           in map (\<lambda>n. (r, False, n)) (filter (tunnel_sat s (sync_unbind s)) names)
              @ map (\<lambda>n. (r, True, n)) (filter (tunnel_sat s (sync_bind s)) names)
      else [])"

text \<open>One of its actions; those on the handles of an earlier run no longer concern the controller.\<close>

definition sync_act :: "bool \<Rightarrow> nat \<times> bool \<times> string \<Rightarrow> ctl \<Rightarrow> ctl" where
  "sync_act wedged a s =
     (case a of (r, bind, name) \<Rightarrow>
        if q_run s \<noteq> Some r then s
        else if bind then snd (bindTunnel name s) else snd (unbindTunnel wedged name s))"

definition syncTunnels :: "nat \<Rightarrow> ctl \<Rightarrow> ctl" where
  "syncTunnels r s = fold (sync_act False) (sync_decide r s) s"

section \<open>Start and Stop\<close>

text \<open>
  \<open>waitDone\<close>: for each channel \<open>None\<close> if it is nil, else when it closes, if ever. The result and the time
  waited.
\<close>

fun waitDone :: "nat \<Rightarrow> nat \<Rightarrow> nat option option list \<Rightarrow> bool \<times> nat" where
  "waitDone now deadline [] = (True, now)"
| "waitDone now deadline (None # ds) = waitDone now deadline ds"
| "waitDone now deadline (Some None # ds) = (False, deadline)"
| "waitDone now deadline (Some (Some t) # ds) =
     (if t \<le> deadline then waitDone (max now t) deadline ds else (False, deadline))"

text \<open>One deadline for all: however many do not close, no more than the timeout passes.\<close>

lemma waitDone_bounded:
  "fst (waitDone now deadline ds) \<longleftrightarrow> (\<forall>d. Some d \<in> set ds \<longrightarrow> (\<exists>t \<le> deadline. d = Some t))"
  "now \<le> deadline \<Longrightarrow> snd (waitDone now deadline ds) \<le> deadline"
  by (induction now deadline ds rule: waitDone.induct) auto


text \<open>What \<open>Start\<close> meets: the configuration file, building the dialers, and the order of the second pass.\<close>

record start_env =
  se_load :: "string \<Rightarrow> load_err + config"
  se_build :: build_env
  se_order :: "(string \<times> upstream) list"
  se_secrets :: resolver

text \<open>\<open>Start\<close> up to the first \<open>notify\<close>; \<open>None\<close> when it is already running.\<close>

definition Start_begin :: "ctl \<Rightarrow> ctl option" where
  "Start_begin s =
     (if q_state s = StateRunning \<or> q_state s = StateStarting then None
      else Some (notify (s\<lparr>q_state := StateStarting, q_lastErr := None\<rparr>)))"

definition Start_run :: "config \<Rightarrow> registry \<Rightarrow> server \<Rightarrow> (string \<times> tunnel_handle) list \<Rightarrow> net_ports \<Rightarrow> ctl \<Rightarrow> ctl" where
  "Start_run cfg reg srv tunnels np s =
     (let r = q_next s;
          s = notify (s\<lparr>q_next := Suc r, q_cancel := Some r, q_listen := srv_addr srv, q_tunnels := tunnels,
                        q_run := Some r, q_reg := Some reg, q_cfg := Some cfg, q_state := StateRunning,
                        q_ports := np\<rparr>);
          s = applyAutoconnect r reg cfg s
      in s\<lparr>q_serving := q_serving s @ [(r, srv)]\<rparr>)"

definition Start_finish :: "start_env \<Rightarrow> ctl \<Rightarrow> (ctl_err + unit) \<times> ctl" where
  "Start_finish env s =
     (let failed = \<lambda>e np. (Inl e, fail e (s\<lparr>q_ports := np\<rparr>))
      in case se_load env (q_cfgPath s) of
           Inl e \<Rightarrow> failed (LoadFailed e) (q_ports s)
         | Inr cfg \<Rightarrow>
      (case fst (NewRegistry (se_build env) (c_Upstreams cfg) (se_order env) (se_secrets env)) of
           Inl (name, e, _) \<Rightarrow> failed (RegistryFailed name e) (q_ports s)
         | Inr reg \<Rightarrow>
      (case match_new (match_rules cfg) (known_upstreams cfg) of
           Inl e \<Rightarrow> failed (MatcherFailed e) (q_ports s)
         | Inr m \<Rightarrow>
      (case proxy_NewServer \<lparr>o_Listen = c_Listen cfg, o_Target = [], o_Dialer = None, o_Matcher = Some m,
              o_Registry = Some reg\<rparr> (q_ports s) of
           (Inl e, np) \<Rightarrow> failed (ServerFailed e) np
         | (Inr srv, np) \<Rightarrow>
      (case buildTunnels reg m (c_Listeners cfg) [] np of
           (Inl e, np) \<Rightarrow> failed (TunnelsFailed e) np
         | (Inr tunnels, np) \<Rightarrow> (Inr (), Start_run cfg reg srv tunnels np s))))))"

definition Start :: "start_env \<Rightarrow> ctl \<Rightarrow> (ctl_err + unit) \<times> ctl" where
  "Start env s = (case Start_begin s of None \<Rightarrow> (Inr (), s) | Some s \<Rightarrow> Start_finish env s)"

text \<open>
  The end of a run's context: the proxy's listener, those of the run's tunnels and the orphans close.
\<close>

definition cancel_run :: "nat \<Rightarrow> ctl \<Rightarrow> ctl" where
  "cancel_run r s =
     (if q_cancelled s r then s
      else let s = (if q_run s = Some r then fold tunnel_cancel (keys (q_tunnels s)) s else s);
               mine = \<lambda>xs. map snd (filter (\<lambda>x. fst x = r) xs)
           in s\<lparr>q_cancelled := (q_cancelled s)(r := True), q_orphans := filter (\<lambda>x. fst x \<noteq> r) (q_orphans s),
                q_ports := close_ports (mine (q_serving s) @ mine (q_orphans s)) (q_ports s)\<rparr>)"

text \<open>The registry's \<open>Close\<close> disconnects what holds a connection.\<close>

definition close_registry :: "nat \<Rightarrow> registry \<Rightarrow> ctl \<Rightarrow> ctl" where
  "close_registry r reg s =
     fold (\<lambda>(n, d) s. if closes d then set_conn_state (is_ssh d) r n ConnDisconnected s else s) (rg_byName reg) s"

text \<open>\<open>Serve\<close> of the proxy has returned; \<open>reg\<close> is the registry of its run.\<close>

definition proxy_end :: "nat \<Rightarrow> registry \<Rightarrow> string option \<Rightarrow> ctl \<Rightarrow> ctl" where
  "proxy_end r reg err s =
     (let unexpected = (err \<noteq> None \<and> \<not> q_cancelled s r);
          s = (if unexpected then cancel_run r s else s);
          s = (if q_state s = StateRunning
               then (if unexpected
                     then s\<lparr>q_state := StateError, q_lastErr := map_option ServeFailed err, q_listen := []\<rparr>
                     else s\<lparr>q_state := StateStopped, q_listen := []\<rparr>)
               else s);
          s = close_registry r reg (notify s)
      in s\<lparr>q_serving := filter (\<lambda>x. fst x \<noteq> r) (q_serving s)\<rparr>)"

definition serving :: "nat \<Rightarrow> ctl \<Rightarrow> server option" where
  "serving r s = map_of (q_serving s) r"

definition server_registry :: "server \<Rightarrow> registry" where
  "server_registry srv = (case o_Registry (srv_opts srv) of Some reg \<Rightarrow> reg
     | None \<Rightarrow> \<lparr>rg_byName = [], rg_direct = DirectDialer []\<rparr>)"

text \<open>
  \<open>Stop\<close>: \<open>wedged\<close> are the servers whose \<open>Serve\<close> does not return in time, the proxy's as \<open>None\<close>.
\<close>

definition Stop :: "string option list \<Rightarrow> ctl \<Rightarrow> (ctl_err + unit) \<times> ctl" where
  "Stop wedged s =
     (if q_state s \<noteq> StateRunning \<and> q_state s \<noteq> StateStarting then (Inr (), s)
      else
        let names = filter (\<lambda>n. tunnel_sat s (\<lambda>h. h_run h \<noteq> None) n) (keys (q_tunnels s));
            srv = Option.bind (q_cancel s) (\<lambda>r. map_option (Pair r) (serving r s));
            s = (case q_cancel s of None \<Rightarrow> s | Some r \<Rightarrow> cancel_run r s);
            s = fold tunnel_end (filter (\<lambda>n. Some n \<notin> set wedged) names) s;
            s = (case srv of Some (r, p) \<Rightarrow> if None \<in> set wedged then s else proxy_end r (server_registry p) None s
                 | None \<Rightarrow> s);
            timedOut = (srv \<noteq> None \<and> None \<in> set wedged \<or> (\<exists>n \<in> set names. Some n \<in> set wedged))
        in (if timedOut then Inl ErrShutdownTimeout else Inr (),
            s\<lparr>q_tunnels := [], q_reg := None, q_cfg := None, q_run := None\<rparr>))"

definition Restart :: "string option list \<Rightarrow> start_env \<Rightarrow> ctl \<Rightarrow> (ctl_err + unit) \<times> ctl" where
  "Restart wedged env s =
     (case Stop wedged s of
        (Inl e, s) \<Rightarrow> if e = ErrShutdownTimeout then Start env s else (Inl e, s)
      | (Inr _, s) \<Rightarrow> Start env s)"

section \<open>The background Up\<close>

text \<open>
  \<open>Up\<close> of an ssh upstream through a connection clears the hold of that one first, then its own;
  the last stage is its return, with \<open>syncTunnels\<close> and a repaint for a tunnel, a repaint otherwise.
\<close>

definition via_of :: "ctl \<Rightarrow> string \<Rightarrow> string option" where
  "via_of s n =
     (case reg_connDialer (q_reg s) n of
        Some (SSHDialer _ _ (Some v)) \<Rightarrow>
          (if closes v then Option.bind (q_cfg s) (\<lambda>cfg. map_option u_Via (map_of (c_Upstreams cfg) n)) else None)
      | _ \<Rightarrow> None)"

definition up_next :: "ctl \<Rightarrow> up_task \<Rightarrow> ctl" where
  "up_next s u =
     (let r = up_run u; n = up_name u;
          unhold = \<lambda>n s. upd_conn r n (\<lambda>c. c\<lparr>cd_held := False\<rparr>) s
      in if up_stage u = 0 then (case via_of s n of Some v \<Rightarrow> unhold v s | None \<Rightarrow> s) else unhold n s)"

definition up_return :: "ctl \<Rightarrow> up_task \<Rightarrow> ctl" where
  "up_return s u = notify (if up_tunnel u then s\<lparr>q_syncs := q_syncs s @ [up_run u]\<rparr> else s)"

section \<open>Steps\<close>

text \<open>
  Calls of the menu, the goroutines, and what the network does: \<open>ConnChange\<close> is a state change of a
  connection (it cannot connect while held), \<open>Dropped\<close> the VPN's drop hook, \<open>TunnelServeEnds\<close> and
  \<open>ProxyServeEnds\<close> the return of \<open>Serve\<close>.
\<close>

datatype ctl_event =
    EvStartBegin
  | EvStartFinish start_env
  | EvStop "string option list"
  | EvStopTunnel bool string
  | EvStartTunnel string
  | EvConnect string
  | EvDisconnect string
  | EvAutoconnect bool
  | EvSubscribe
  | EvUnsubscribe nat
  | EvUpNext nat
  | EvUpReturn nat
  | ConnChange nat string bool conn_state
  | Dropped nat string
  | TunnelServeEnds string
  | ProxyServeEnds nat "string option"
  | SyncDecide
  | SyncAct bool

fun ctl_step :: "ctl_event \<Rightarrow> ctl \<Rightarrow> ctl option" where
  "ctl_step EvStartBegin s = Start_begin s"
| "ctl_step (EvStartFinish env) s = (if q_state s = StateStarting then Some (snd (Start_finish env s)) else None)"
| "ctl_step (EvStop wedged) s = Some (snd (Stop wedged s))"
| "ctl_step (EvStopTunnel wedged n) s = Some (snd (StopTunnel wedged n s))"
| "ctl_step (EvStartTunnel n) s = Some (snd (StartTunnel n s))"
| "ctl_step (EvConnect n) s = Some (snd (ConnectUpstream n s))"
| "ctl_step (EvDisconnect n) s = Some (snd (DisconnectUpstream n s))"
| "ctl_step (EvAutoconnect on) s = Some (ctl_SetAutoconnect on s)"
| "ctl_step EvSubscribe s = Some (fst (Subscribe s))"
| "ctl_step (EvUnsubscribe i) s = Some (Unsubscribe i s)"
| "ctl_step (EvUpNext i) s =
     (if i < length (q_ups s) \<and> up_stage (q_ups s ! i) < 2
      then Some ((up_next s (q_ups s ! i))\<lparr>q_ups := (q_ups s)[i := (q_ups s ! i)\<lparr>up_stage := Suc (up_stage (q_ups s ! i))\<rparr>]\<rparr>)
      else None)"
| "ctl_step (EvUpReturn i) s =
     (if i < length (q_ups s) \<and> 0 < up_stage (q_ups s ! i)
      then Some (up_return (s\<lparr>q_ups := take i (q_ups s) @ drop (Suc i) (q_ups s)\<rparr>) (q_ups s ! i))
      else None)"
| "ctl_step (ConnChange r n ssh st) s =
     (if r < q_next s \<and> (st = ConnConnected \<longrightarrow> \<not> cd_held (q_conns s r n))
      then Some (set_conn_state ssh r n st s) else None)"
| "ctl_step (Dropped r n) s = Some (upstreamDropped r n s)"
| "ctl_step (TunnelServeEnds n) s = Some (tunnel_end n s)"
| "ctl_step (ProxyServeEnds r err) s =
     (case serving r s of
        Some srv \<Rightarrow> if err = None \<and> \<not> q_cancelled s r then None else Some (proxy_end r (server_registry srv) err s)
      | None \<Rightarrow> None)"
| "ctl_step SyncDecide s =
     (case q_syncs s of
        r # rs \<Rightarrow> if q_queue s = [] then Some (s\<lparr>q_syncs := rs, q_queue := sync_decide r s\<rparr>) else None
      | [] \<Rightarrow> None)"
| "ctl_step (SyncAct wedged) s =
     (case q_queue s of a # as \<Rightarrow> Some ((sync_act wedged a s)\<lparr>q_queue := as\<rparr>) | [] \<Rightarrow> None)"

abbreviation ctl_reach :: "string \<Rightarrow> net_ports \<Rightarrow> ctl \<Rightarrow> bool" where
  "ctl_reach path np \<equiv> reachable ctl_step (ctl_New path np)"

end
