(* ===== verification/ControllerInv.thy ===== *)
theory ControllerInv
  imports Controller
begin

text \<open>
  What the controller guarantees: the tunnels of an upstream with a connection follow it up and down
  (an invariant over all interleavings of the menu's calls, the connections and the pending
  \<open>syncTunnels\<close>), with the frame lemmas of its operations.
\<close>

section \<open>Frames\<close>

text \<open>What the operations on connections leave alone.\<close>

definition core :: "ctl \<Rightarrow> ctl" where
  "core s = s\<lparr>q_conns := (\<lambda>_ _. \<lparr>cd_state = ConnUnknown, cd_held = False, cd_manual = False, cd_pending = False\<rparr>),
     q_syncs := [], q_subs := [], q_approvals := []\<rparr>"

lemma core_fields:
  assumes "core s' = core s"
  shows "q_state s' = q_state s" "q_run s' = q_run s" "q_tunnels s' = q_tunnels s" "q_queue s' = q_queue s"
    "q_next s' = q_next s" "q_reg s' = q_reg s" "q_cfg s' = q_cfg s" "q_ports s' = q_ports s"
    "q_serving s' = q_serving s" "q_cancelled s' = q_cancelled s" "q_manualOnly s' = q_manualOnly s"
    "q_cancel s' = q_cancel s" "q_ups s' = q_ups s" "q_orphans s' = q_orphans s" "q_listen s' = q_listen s"
  using assms by (cases s; cases s'; simp add: core_def)+

lemma core_base [simp]:
  "core (notify s) = core s" "core (upd_conn r n f s) = core s"
  "core (s\<lparr>q_syncs := x1\<rparr>) = core s" "core (s\<lparr>q_approvals := x2\<rparr>) = core s"
  by (simp_all add: core_def notify_def upd_conn_def)

lemma core_conn [simp]:
  "core (sshStateChanged r n s) = core s" "core (set_conn_state b r n st s) = core s" "core (conn_Down r n d s) = core s"
  by (simp_all add: sshStateChanged_def set_conn_state_def conn_Down_def Let_def)

lemma fold_same: "(\<And>x s. x \<in> set xs \<Longrightarrow> g (f x s) = g s) \<Longrightarrow> g (fold f xs s) = g s"
  by (induction xs arbitrary: s) auto

lemma core_folds [simp]:
  "core (applyAutoconnect r reg cfg s) = core s" "core (close_registry r reg s) = core s"
  "core (downDependents r n s) = core s"
  unfolding applyAutoconnect_def close_registry_def downDependents_def
  by (auto intro!: fold_same split: option.splits prod.splits)

lemma notify_simps [simp]:
  "q_state (notify s) = q_state s" "q_run (notify s) = q_run s" "q_tunnels (notify s) = q_tunnels s"
  "q_queue (notify s) = q_queue s" "q_next (notify s) = q_next s" "q_conns (notify s) = q_conns s"
  "q_syncs (notify s) = q_syncs s" "q_reg (notify s) = q_reg s" "q_cfg (notify s) = q_cfg s"
  "q_ports (notify s) = q_ports s" "q_serving (notify s) = q_serving s" "q_cancelled (notify s) = q_cancelled s"
  "q_cancel (notify s) = q_cancel s" "q_ups (notify s) = q_ups s" "q_orphans (notify s) = q_orphans s"
  "q_listen (notify s) = q_listen s" "q_manualOnly (notify s) = q_manualOnly s" "q_lastErr (notify s) = q_lastErr s"
  by (simp_all add: notify_def)

lemma upd_conn_simps [simp]:
  "q_conns (upd_conn r n f s) r' n' = (if r' = r \<and> n' = n then f (q_conns s r n) else q_conns s r' n')"
  "q_syncs (upd_conn r n f s) = q_syncs s" "q_subs (upd_conn r n f s) = q_subs s"
  by (simp_all add: upd_conn_def)

text \<open>What \<open>setState\<close> does to the connections and the pending syncs.\<close>

lemma set_conn_state_conn:
  "cd_state (q_conns (set_conn_state b r n st s) r' n') =
     (if r' = r \<and> n' = n then st else cd_state (q_conns s r' n'))"
  "cd_held (q_conns (set_conn_state b r n st s) r' n') = cd_held (q_conns s r' n')"
  "r' \<noteq> r \<or> n' \<noteq> n \<Longrightarrow> q_conns (set_conn_state b r n st s) r' n' = q_conns s r' n'"
  by (auto simp: set_conn_state_def sshStateChanged_def Let_def)

lemma set_conn_state_syncs:
  "q_syncs (set_conn_state b r n st s) = (if cd_state (q_conns s r n) = st then q_syncs s else q_syncs s @ [r])"
  by (simp add: set_conn_state_def sshStateChanged_def Let_def)

lemma pinned_conn_fields [simp]:
  "pinned_conn (h\<lparr>h_run := k\<rparr>) = pinned_conn h" "pinned_conn (h\<lparr>h_stopped := b\<rparr>) = pinned_conn h"
  by (simp_all add: pinned_conn_def)

section \<open>Tunnels follow their upstream\<close>

text \<open>
  Unless a \<open>syncTunnels\<close> is still to come: a pinned tunnel that serves has its upstream connected or is
  about to be unbound, and one about to be bound has its upstream connected.
\<close>

definition follows :: "(string \<Rightarrow> conn_state) \<Rightarrow> bool \<Rightarrow> bool \<Rightarrow> tunnel_handle \<Rightarrow> bool" where
  "follows st unbinding binding h \<longleftrightarrow> (pinned_conn h \<noteq> None \<longrightarrow>
     ((\<exists>srv. h_run h = Some (Bound srv)) \<longrightarrow> st (h_upstream h) = ConnConnected \<or> unbinding)
     \<and> (binding \<longrightarrow> st (h_upstream h) = ConnConnected))"

definition follow_inv :: "ctl \<Rightarrow> bool" where
  "follow_inv s \<longleftrightarrow> (\<forall>r. q_state s = StateRunning \<longrightarrow> q_run s = Some r \<longrightarrow> r \<notin> set (q_syncs s) \<longrightarrow>
     (\<forall>n h. map_of (q_tunnels s) n = Some h \<longrightarrow>
        follows (\<lambda>u. cd_state (q_conns s r u)) ((r, False, n) \<in> set (q_queue s)) ((r, True, n) \<in> set (q_queue s)) h))"

definition runs_inv :: "ctl \<Rightarrow> bool" where
  "runs_inv s \<longleftrightarrow> (\<forall>r. q_run s = Some r \<longrightarrow> r < q_next s) \<and> (\<forall>x \<in> set (q_queue s). fst x < q_next s)"

lemma follow_inv_cong:
  assumes "follow_inv s" "q_state s' = q_state s" "q_run s' = q_run s" "q_tunnels s' = q_tunnels s"
    and "set (q_syncs s) \<subseteq> set (q_syncs s')" "q_queue s' = q_queue s"
    and "\<And>r n. q_run s = Some r \<Longrightarrow> r \<notin> set (q_syncs s') \<Longrightarrow> cd_state (q_conns s' r n) = cd_state (q_conns s r n)"
  shows "follow_inv s'"
  using assms unfolding follow_inv_def by auto

lemma follow_inv_notify [simp]: "follow_inv (notify s) = follow_inv s"
  by (simp add: follow_inv_def)

lemma follow_inv_set_conn: "follow_inv s \<Longrightarrow> follow_inv (set_conn_state b r n st s)"
  using core_fields [OF core_conn(2) [of b r n st s]]
  by (elim follow_inv_cong) (auto simp: set_conn_state_conn set_conn_state_syncs split: if_splits)

lemma follow_inv_upd_conn: "follow_inv s \<Longrightarrow> (\<And>c. cd_state (f c) = cd_state c) \<Longrightarrow> follow_inv (upd_conn r n f s)"
  using core_fields [OF core_base(2) [of r n f s]] by (elim follow_inv_cong) auto

lemma follow_inv_down: "follow_inv s \<Longrightarrow> follow_inv (conn_Down r n d s)"
  unfolding conn_Down_def by (intro follow_inv_set_conn follow_inv_upd_conn) auto

lemma fold_inv: "I s \<Longrightarrow> (\<And>x s. x \<in> set xs \<Longrightarrow> I s \<Longrightarrow> I (f x s)) \<Longrightarrow> I (fold f xs s)"
  by (induction xs arbitrary: s) auto

lemma follow_inv_folds:
  "follow_inv s \<Longrightarrow> follow_inv (applyAutoconnect r reg cfg s)"
  "follow_inv s \<Longrightarrow> follow_inv (close_registry r reg s)"
  "follow_inv s \<Longrightarrow> follow_inv (downDependents r n s)"
  unfolding applyAutoconnect_def close_registry_def downDependents_def
  by (auto intro!: fold_inv [where I = follow_inv] follow_inv_set_conn follow_inv_upd_conn follow_inv_down
      split: option.splits)

lemma follow_inv_not_running: "q_state s \<noteq> StateRunning \<or> q_run s = None \<Longrightarrow> follow_inv s"
  by (auto simp: follow_inv_def)

text \<open>Changing one tunnel.\<close>

lemma upd_tunnel_simps [simp]:
  "q_state (upd_tunnel n f s) = q_state s" "q_run (upd_tunnel n f s) = q_run s" "q_conns (upd_tunnel n f s) = q_conns s"
  "q_syncs (upd_tunnel n f s) = q_syncs s" "q_queue (upd_tunnel n f s) = q_queue s" "q_next (upd_tunnel n f s) = q_next s"
  "q_ports (upd_tunnel n f s) = q_ports s" "q_cfg (upd_tunnel n f s) = q_cfg s" "q_reg (upd_tunnel n f s) = q_reg s"
  "map_of (q_tunnels (upd_tunnel n f s)) = (map_of (q_tunnels s))(n := map_option f (map_of (q_tunnels s) n))"
  by (auto simp: upd_tunnel_def fun_eq_iff split: option.splits)

lemma follow_inv_tunnel:
  assumes "follow_inv s" "q_state s' = q_state s" "q_run s' = q_run s" "q_conns s' = q_conns s"
    "q_syncs s' = q_syncs s" "q_queue s' = q_queue s"
    and "map_of (q_tunnels s') = (map_of (q_tunnels s))(n := map_option f (map_of (q_tunnels s) n))"
    and "\<And>h st u b. map_of (q_tunnels s) n = Some h \<Longrightarrow> follows st u b h \<Longrightarrow> follows st u b (f h)"
  shows "follow_inv s'"
  using assms unfolding follow_inv_def by (auto split: if_splits)

lemma follows_unbound: "follows st u b h \<Longrightarrow> \<nexists>srv. k = Some (Bound srv) \<Longrightarrow> follows st u b (h\<lparr>h_run := k\<rparr>)"
  by (auto simp: follows_def pinned_conn_def)

lemma follows_stopped [simp]: "follows st u b (h\<lparr>h_stopped := x\<rparr>) = follows st u b h"
  by (simp add: follows_def pinned_conn_def)

lemma follow_inv_upd_stopped [simp]: "follow_inv s \<Longrightarrow> follow_inv (upd_tunnel n (h_stopped_update f) s)"
  by (erule follow_inv_tunnel [where n = n and f = "h_stopped_update f"]) (auto simp: follows_def pinned_conn_def)

lemma follow_inv_tunnel_end: "follow_inv s \<Longrightarrow> follow_inv (tunnel_end n s)"
  unfolding tunnel_end_def
  by (auto simp: Let_def split: option.splits tunnel_run.splits
      intro!: follow_inv_tunnel [where s = s and n = n and f = "\<lambda>h. h\<lparr>h_run := None\<rparr>"] follows_unbound)

lemma follow_inv_tunnel_cancel: "follow_inv s \<Longrightarrow> follow_inv (tunnel_cancel n s)"
  unfolding tunnel_cancel_def
  by (auto split: option.splits tunnel_run.splits
      intro!: follow_inv_tunnel [where s = s and n = n and f = "\<lambda>h. h\<lparr>h_run := Some (Closing srv)\<rparr>" for srv]
        follows_unbound)

lemma follow_inv_unbind: "follow_inv s \<Longrightarrow> follow_inv (snd (unbindTunnel w n s))"
  by (auto simp: unbindTunnel_def follow_inv_tunnel_end follow_inv_tunnel_cancel split: option.splits)

lemma follow_inv_ports [simp]: "follow_inv (s\<lparr>q_ports := np\<rparr>) = follow_inv s"
  "follow_inv (s\<lparr>q_ups := us\<rparr>) = follow_inv s" "follow_inv (s\<lparr>q_subs := ss\<rparr>) = follow_inv s"
  "follow_inv (s\<lparr>q_manualOnly := b\<rparr>) = follow_inv s"
  by (simp_all add: follow_inv_def)

text \<open>\<open>bindTunnel\<close> leaves the state alone or binds one server.\<close>

definition bound_state :: "string \<Rightarrow> server \<Rightarrow> net_ports \<Rightarrow> ctl \<Rightarrow> ctl" where
  "bound_state n srv np s =
     (let s1 = notify (upd_tunnel n (\<lambda>h. h\<lparr>h_run := Some (Bound srv)\<rparr>) (s\<lparr>q_ports := np\<rparr>))
      in if run_ended s then tunnel_cancel n s1 else s1)"

lemma bindTunnel_cases:
  obtains "snd (bindTunnel n s) = s" "\<And>h. map_of (q_tunnels s) n = Some h \<Longrightarrow> h_run h = None \<Longrightarrow>
      \<not> ok (fst (listener_New (h_listener h) (h_reg h) (h_matcher h) (q_ports s)))"
  | h srv np where "map_of (q_tunnels s) n = Some h" "h_run h = None"
      "listener_New (h_listener h) (h_reg h) (h_matcher h) (q_ports s) = (Inr srv, np)"
      "snd (bindTunnel n s) = bound_state n srv np s"
proof (cases "map_of (q_tunnels s) n")
  case (Some h)
  show thesis
  proof (cases "h_run h")
    case None
    obtain res np where l: "listener_New (h_listener h) (h_reg h) (h_matcher h) (q_ports s) = (res, np)" by force
    show thesis
    proof (cases res)
      case (Inl e)
      with l listener_New_Inl have "np = q_ports s" by blast
      with that(1) Some None l Inl show thesis by (simp add: bindTunnel_def ok_def)
    next
      case (Inr srv)
      have "run_ended (notify (upd_tunnel n f (s\<lparr>q_ports := np\<rparr>))) = run_ended s" for f
        by (simp add: run_ended_def notify_def upd_tunnel_def split: option.splits)
      with that(2) Some None l Inr show thesis by (simp add: bindTunnel_def bound_state_def Let_def)
    qed
  qed (use that(1) Some in \<open>simp add: bindTunnel_def\<close>)
qed (use that(1) in \<open>simp add: bindTunnel_def\<close>)

lemma follow_inv_bind:
  assumes "follow_inv s"
    and up: "\<And>h r. map_of (q_tunnels s) n = Some h \<Longrightarrow> pinned_conn h \<noteq> None \<Longrightarrow> q_run s = Some r \<Longrightarrow>
      r \<notin> set (q_syncs s) \<Longrightarrow> q_state s = StateRunning \<Longrightarrow> cd_state (q_conns s r (h_upstream h)) = ConnConnected"
  shows "follow_inv (snd (bindTunnel n s))"
proof (cases rule: bindTunnel_cases [of n s])
  case (2 h srv np)
  have "follow_inv (upd_tunnel n (\<lambda>h. h\<lparr>h_run := Some (Bound srv)\<rparr>) s)"
    using assms(1) up [OF 2(1)] 2(1)
    unfolding follow_inv_def by (auto simp: follows_def pinned_conn_def)
  moreover have "upd_tunnel n f (s\<lparr>q_ports := np\<rparr>) = (upd_tunnel n f s)\<lparr>q_ports := np\<rparr>" for f
    by (simp add: upd_tunnel_def split: option.splits)
  ultimately show ?thesis
    unfolding 2(4) bound_state_def Let_def by (simp add: follow_inv_tunnel_cancel)
qed (use assms(1) in simp)

text \<open>What \<open>syncTunnels\<close> decides.\<close>

lemma tunnel_sat_keys: "tunnel_sat s P n \<Longrightarrow> n \<in> set (keys (q_tunnels s))"
  using map_of_Some_keys [of "q_tunnels s" n] by (auto simp: tunnel_sat_def split: option.splits)

lemma sync_decide_iff:
  "(r', b, n) \<in> set (sync_decide r s) \<longleftrightarrow> r' = r \<and> q_state s = StateRunning \<and> q_run s = Some r
     \<and> tunnel_sat s (if b then sync_bind s else sync_unbind s) n"
  using tunnel_sat_keys [of s _ n] by (auto simp: sync_decide_def Let_def)

lemma follow_inv_decide:
  assumes "follow_inv s" "q_syncs s = r # rs" "q_queue s = []"
  shows "follow_inv (s\<lparr>q_syncs := rs, q_queue := sync_decide r s\<rparr>)"
proof -
  have "follows (\<lambda>u. cd_state (q_conns s r' u)) ((r', False, n) \<in> set (sync_decide r s))
      ((r', True, n) \<in> set (sync_decide r s)) h"
    if "q_state s = StateRunning" "q_run s = Some r'" "r' \<notin> set rs" "map_of (q_tunnels s) n = Some h" for r' n h
  proof (cases "r' = r")
    case True
    then show ?thesis
      using that by (auto simp: follows_def sync_decide_iff tunnel_sat_def sync_unbind_def sync_bind_def conn_state_of_def)
  next
    case False
    with assms that have "follows (\<lambda>u. cd_state (q_conns s r' u)) False False h"
      unfolding follow_inv_def by fastforce
    with False show ?thesis by (auto simp: follows_def sync_decide_iff)
  qed
  then show ?thesis by (simp add: follow_inv_def)
qed

lemma tunnel_ops_state [simp]:
  "q_state (tunnel_end n s) = q_state s" "q_run (tunnel_end n s) = q_run s" "q_conns (tunnel_end n s) = q_conns s"
  "q_syncs (tunnel_end n s) = q_syncs s" "q_queue (tunnel_end n s) = q_queue s" "q_next (tunnel_end n s) = q_next s"
  "q_state (tunnel_cancel n s) = q_state s" "q_run (tunnel_cancel n s) = q_run s" "q_conns (tunnel_cancel n s) = q_conns s"
  "q_syncs (tunnel_cancel n s) = q_syncs s" "q_queue (tunnel_cancel n s) = q_queue s" "q_next (tunnel_cancel n s) = q_next s"
  by (auto simp: tunnel_end_def tunnel_cancel_def Let_def split: option.splits tunnel_run.splits)

lemma bind_ops_state [simp]:
  "q_state (snd (unbindTunnel w n s)) = q_state s" "q_run (snd (unbindTunnel w n s)) = q_run s"
  "q_conns (snd (unbindTunnel w n s)) = q_conns s" "q_syncs (snd (unbindTunnel w n s)) = q_syncs s"
  "q_queue (snd (unbindTunnel w n s)) = q_queue s" "q_next (snd (unbindTunnel w n s)) = q_next s"
  "q_state (snd (bindTunnel n s)) = q_state s" "q_run (snd (bindTunnel n s)) = q_run s"
  "q_conns (snd (bindTunnel n s)) = q_conns s" "q_syncs (snd (bindTunnel n s)) = q_syncs s"
  "q_queue (snd (bindTunnel n s)) = q_queue s" "q_next (snd (bindTunnel n s)) = q_next s"
  by (auto simp: unbindTunnel_def bindTunnel_def Let_def split: option.splits prod.splits sum.splits)

lemma unbound_follows:
  "map_of (q_tunnels (tunnel_end n (tunnel_cancel n s))) n = Some h \<Longrightarrow> h_run h = None"
  by (auto simp: tunnel_end_def tunnel_cancel_def Let_def split: option.splits tunnel_run.splits)

lemma unbind_not_bound:
  "map_of (q_tunnels (snd (unbindTunnel w n s))) n = Some h \<Longrightarrow> h_run h \<noteq> Some (Bound srv)"
  using unbound_follows [of n s h]
  by (auto simp: unbindTunnel_def tunnel_cancel_def split: option.splits if_splits tunnel_run.splits)

lemma follow_inv_drop_queue:
  assumes I: "follow_inv s" and q: "q_queue s = (r, b, n) # as"
    and d: "\<And>h srv. q_run s = Some r \<Longrightarrow> \<not> b \<Longrightarrow> map_of (q_tunnels s) n = Some h \<Longrightarrow> h_run h \<noteq> Some (Bound srv)"
  shows "follow_inv (s\<lparr>q_queue := as\<rparr>)"
  unfolding follow_inv_def
proof (intro allI impI)
  fix r' n' h
  assume s: "q_state (s\<lparr>q_queue := as\<rparr>) = StateRunning" "q_run (s\<lparr>q_queue := as\<rparr>) = Some r'"
    "r' \<notin> set (q_syncs (s\<lparr>q_queue := as\<rparr>))" "map_of (q_tunnels (s\<lparr>q_queue := as\<rparr>)) n' = Some h"
  then have f: "follows (\<lambda>u. cd_state (q_conns s r' u)) ((r', False, n') \<in> set (q_queue s))
      ((r', True, n') \<in> set (q_queue s)) h"
    using I unfolding follow_inv_def by simp
  have "h_run h \<noteq> Some (Bound srv)" if "r' = r" "\<not> b" "n' = n" for srv
    using d [of h srv] s that by simp
  with f q show "follows (\<lambda>u. cd_state (q_conns (s\<lparr>q_queue := as\<rparr>) r' u)) ((r', False, n') \<in> set (q_queue (s\<lparr>q_queue := as\<rparr>)))
      ((r', True, n') \<in> set (q_queue (s\<lparr>q_queue := as\<rparr>))) h"
    by (auto simp: follows_def)
qed

lemma follow_inv_act:
  assumes I: "follow_inv s" and q: "q_queue s = a # as"
  shows "follow_inv ((sync_act w a s)\<lparr>q_queue := as\<rparr>)"
proof -
  obtain r b n where a: "a = (r, b, n)" by (cases a)
  show ?thesis
  proof (cases "q_run s = Some r")
    case False
    with I q a show ?thesis
      by (auto simp: sync_act_def intro!: follow_inv_drop_queue [where s = s and r = r and b = b and n = n])
  next
    case run: True
    show ?thesis
    proof (cases b)
      case True
      have "follow_inv (snd (bindTunnel n s))"
      proof (rule follow_inv_bind [OF I])
        fix h r'
        assume h: "map_of (q_tunnels s) n = Some h" "pinned_conn h \<noteq> None" and r': "q_run s = Some r'"
          "r' \<notin> set (q_syncs s)" "q_state s = StateRunning"
        then have "r' = r" using run by simp
        then show "cd_state (q_conns s r' (h_upstream h)) = ConnConnected"
          using I h r' q a True unfolding follow_inv_def follows_def by (metis list.set_intros(1))
      qed
      with run q a True show ?thesis
        by (auto simp: sync_act_def intro!: follow_inv_drop_queue [where r = r and b = b and n = n])
    next
      case False
      then show ?thesis
        using run q a follow_inv_unbind [OF I, of w n] unbind_not_bound [of w n s]
        by (auto simp: sync_act_def intro!: follow_inv_drop_queue [where r = r and b = b and n = n])
    qed
  qed
qed

text \<open>\<open>Start\<close> binds no pinned tunnel.\<close>

lemma buildTunnels_pinned:
  assumes "buildTunnels reg m ls ts np = (Inr ts', np')"
    and "\<And>n h. map_of ts n = Some h \<Longrightarrow> pinned_conn h \<noteq> None \<Longrightarrow> h_run h = None"
  shows "map_of ts' n = Some h \<Longrightarrow> pinned_conn h \<noteq> None \<Longrightarrow> h_run h = None"
  using assms
proof (induction ls arbitrary: ts np)
  case (Cons l ls)
  let ?h = "new_handle reg m l"
  have h: "h_run ?h = None" by (simp add: new_handle_def)
  show ?case
  proof (cases "pinned_conn ?h")
    case None
    then obtain srv np1 where "listener_New l reg m np = (Inr srv, np1)"
      "buildTunnels reg m ls (put (put ts (l_Listen l) ?h) (l_Listen l) (?h\<lparr>h_run := Some (Bound srv)\<rparr>)) np1 = (Inr ts', np')"
      using Cons.prems(3) by (auto simp: Let_def split: prod.splits sum.splits)
    then show ?thesis
      using Cons.prems(4) None by (intro Cons.IH [OF Cons.prems(1,2)]) (auto split: if_splits)
  next
    case (Some d)
    then have "buildTunnels reg m ls (put ts (l_Listen l) ?h) np = (Inr ts', np')"
      using Cons.prems(3) by (simp add: Let_def)
    then show ?thesis
      using Cons.prems(4) h by (intro Cons.IH [OF Cons.prems(1,2)]) (auto split: if_splits)
  qed
qed simp

lemma Start_run_fields [simp]:
  "q_state (Start_run cfg reg srv ts np s) = StateRunning" "q_run (Start_run cfg reg srv ts np s) = Some (q_next s)"
  "q_tunnels (Start_run cfg reg srv ts np s) = ts" "q_queue (Start_run cfg reg srv ts np s) = q_queue s"
  "q_next (Start_run cfg reg srv ts np s) = Suc (q_next s)"
  "q_ports (Start_run cfg reg srv ts np s) = np" "q_listen (Start_run cfg reg srv ts np s) = srv_addr srv"
  "q_serving (Start_run cfg reg srv ts np s) = q_serving s @ [(q_next s, srv)]"
  "q_cfg (Start_run cfg reg srv ts np s) = Some cfg" "q_reg (Start_run cfg reg srv ts np s) = Some reg"
  by (simp_all add: Start_run_def Let_def core_fields [OF core_folds(1)])

lemma fail_fields [simp]:
  "q_state (fail e s) = StateError" "q_run (fail e s) = None" "q_queue (fail e s) = q_queue s"
  "q_next (fail e s) = q_next s" "q_ports (fail e s) = q_ports s" "q_serving (fail e s) = q_serving s"
  "q_lastErr (fail e s) = Some e" "q_tunnels (fail e s) = []"
  by (simp_all add: fail_def)

lemma Start_finish_Inl:
  "Start_finish env s = (Inl e, s') \<Longrightarrow> q_state s' = StateError \<and> q_run s' = None \<and> q_queue s' = q_queue s
     \<and> q_next s' = q_next s \<and> q_lastErr s' = Some e \<and> q_serving s' = q_serving s"
  unfolding Start_finish_def Let_def by (auto split: sum.splits prod.splits)

lemma Start_finish_Inr:
  assumes "Start_finish env s = (Inr u, s')"
  obtains cfg reg m srv np ts np' where "se_load env (q_cfgPath s) = Inr cfg"
      "fst (NewRegistry (se_build env) (c_Upstreams cfg) (se_order env) (se_secrets env)) = Inr reg"
      "match_new (match_rules cfg) (known_upstreams cfg) = Inr m"
      "proxy_NewServer \<lparr>o_Listen = c_Listen cfg, o_Target = [], o_Dialer = None, o_Matcher = Some m,
         o_Registry = Some reg\<rparr> (q_ports s) = (Inr srv, np)"
      "buildTunnels reg m (c_Listeners cfg) [] np = (Inr ts, np')"
      "s' = Start_run cfg reg srv ts np' s"
  using assms unfolding Start_finish_def Let_def by (auto split: sum.splits prod.splits)

lemma follow_inv_start:
  assumes "runs_inv s"
  shows "follow_inv (snd (Start_finish env s))"
proof (cases "Start_finish env s")
  case (Pair res s')
  show ?thesis
  proof (cases res)
    case (Inl e)
    with Pair Start_finish_Inl [of env s e s'] show ?thesis by (auto simp: follow_inv_not_running)
  next
    case (Inr u)
    from Start_finish_Inr [OF Pair [unfolded Inr]] obtain cfg reg m srv np ts np' where
      b: "buildTunnels reg m (c_Listeners cfg) [] np = (Inr ts, np')" and s': "s' = Start_run cfg reg srv ts np' s"
      by metis
    have "(q_next s, b, n) \<notin> set (q_queue s)" for b n using assms by (force simp: runs_inv_def)
    moreover have "h_run h = None" if "map_of ts n = Some h" "pinned_conn h \<noteq> None" for n h
      using buildTunnels_pinned [OF b _ that] by simp
    ultimately show ?thesis
      unfolding Pair snd_conv s' follow_inv_def by (auto simp: follows_def)
  qed
qed

lemma proxy_end_stops: "q_state (proxy_end r reg err s) \<noteq> StateRunning"
  unfolding proxy_end_def Let_def by (simp add: core_fields [OF core_folds(2)])

lemma Start_begin_state: "Start_begin s = Some s' \<Longrightarrow> q_state s' = StateStarting"
  by (auto simp: Start_begin_def split: if_splits)

lemma follow_inv_Stop: "follow_inv s \<Longrightarrow> follow_inv (snd (Stop w s))"
  by (simp add: Stop_def Let_def follow_inv_not_running)

lemma follow_inv_up: "follow_inv s \<Longrightarrow> follow_inv (up_next s u)" "follow_inv s \<Longrightarrow> follow_inv (up_return s u)"
proof -
  assume I: "follow_inv s"
  then show "follow_inv (up_next s u)"
    by (auto simp: up_next_def Let_def intro!: follow_inv_upd_conn split: option.splits)
  show "follow_inv (up_return s u)"
    using I by (auto simp: up_return_def intro: follow_inv_cong)
qed

lemma follow_inv_StartTunnel:
  assumes "follow_inv s"
  shows "follow_inv (snd (StartTunnel n s))"
proof (cases "map_of (q_tunnels s) n")
  case (Some h)
  have "follow_inv (snd (bindTunnel n (upd_tunnel n (h_stopped_update (\<lambda>_. False)) s)))" if "pinned_conn h = None"
    using assms Some that by (intro follow_inv_bind) auto
  then show ?thesis
    using assms Some by (auto simp: StartTunnel_def Let_def spawn_up_def split: option.splits)
qed (use assms in \<open>simp add: StartTunnel_def\<close>)

lemma follow_inv_step:
  assumes R: "runs_inv s" and I: "follow_inv s" and e: "ctl_step e s = Some s'"
  shows "follow_inv s'"
proof (cases e)
  case EvStartBegin
  with e show ?thesis using Start_begin_state [of s s'] by (simp add: follow_inv_not_running)
next
  case (EvStartFinish env)
  with e follow_inv_start [OF R] show ?thesis by (auto split: if_splits)
next
  case (EvAutoconnect on)
  have "follow_inv (s\<lparr>q_manualOnly := \<not> on\<rparr>)" using I by simp
  with EvAutoconnect e show ?thesis
    by (auto simp: ctl_SetAutoconnect_def Let_def intro!: follow_inv_folds split: option.splits)
next
  case (EvUpNext i)
  with e I show ?thesis by (auto intro!: follow_inv_up split: if_splits)
next
  case (EvUpReturn i)
  with e I show ?thesis by (auto intro!: follow_inv_up split: if_splits)
next
  case SyncDecide
  with e show ?thesis
    using follow_inv_decide [OF I] by (auto split: if_splits list.splits)
next
  case (SyncAct w)
  with e show ?thesis
    using follow_inv_act [OF I] by (auto split: list.splits)
next
  case (ProxyServeEnds r err)
  with e show ?thesis
    using proxy_end_stops by (auto intro!: follow_inv_not_running split: option.splits if_splits)
qed (use e I in \<open>auto simp: StopTunnel_def ConnectUpstream_def DisconnectUpstream_def Subscribe_def Unsubscribe_def
      upstreamDropped_def spawn_up_def follow_inv_unbind follow_inv_StartTunnel follow_inv_set_conn follow_inv_Stop
      follow_inv_folds follow_inv_down follow_inv_tunnel_end split: if_splits sum.splits option.splits\<close>)

lemma core_runs: "core s' = core s \<Longrightarrow> runs_inv s' = runs_inv s"
  using core_fields [of s' s] by (simp add: runs_inv_def)

lemma runs_inv_same:
  "runs_inv s \<Longrightarrow> q_run s' = q_run s \<or> q_run s' = None \<Longrightarrow> q_next s' = q_next s \<Longrightarrow> set (q_queue s') \<subseteq> set (q_queue s)
     \<Longrightarrow> runs_inv s'"
  by (auto simp: runs_inv_def)

lemma cancel_run_fields [simp]:
  "q_run (cancel_run r s) = q_run s" "q_next (cancel_run r s) = q_next s" "q_queue (cancel_run r s) = q_queue s"
proof -
  have "q_run (fold tunnel_cancel ns s) = q_run s" "q_next (fold tunnel_cancel ns s) = q_next s"
    "q_queue (fold tunnel_cancel ns s) = q_queue s" for ns s
    by (auto intro: fold_same)
  then show "q_run (cancel_run r s) = q_run s" "q_next (cancel_run r s) = q_next s" "q_queue (cancel_run r s) = q_queue s"
    by (auto simp: cancel_run_def Let_def)
qed

lemma proxy_end_fields [simp]:
  "q_run (proxy_end r reg err s) = q_run s" "q_next (proxy_end r reg err s) = q_next s"
  "q_queue (proxy_end r reg err s) = q_queue s"
  unfolding proxy_end_def Let_def by (auto simp: core_fields [OF core_folds(2)])

lemma Stop_fields:
  "q_next (snd (Stop w s)) = q_next s" "q_queue (snd (Stop w s)) = q_queue s"
  "q_run (snd (Stop w s)) = q_run s \<or> q_run (snd (Stop w s)) = None"
proof -
  have "q_next (fold tunnel_end ns s) = q_next s" "q_queue (fold tunnel_end ns s) = q_queue s" for ns s
    by (auto intro: fold_same)
  then show "q_next (snd (Stop w s)) = q_next s" "q_queue (snd (Stop w s)) = q_queue s"
    by (auto simp: Stop_def Let_def split: option.splits)
qed (simp add: Stop_def Let_def)

lemma runs_inv_fields:
  "q_run s' = q_run s \<Longrightarrow> q_next s' = q_next s \<Longrightarrow> q_queue s' = q_queue s \<Longrightarrow> runs_inv s' = runs_inv s"
  by (simp add: runs_inv_def)

lemma tunnel_calls_fields:
  "q_run (snd (StopTunnel w n s)) = q_run s" "q_next (snd (StopTunnel w n s)) = q_next s"
  "q_queue (snd (StopTunnel w n s)) = q_queue s"
  "q_run (snd (StartTunnel n s)) = q_run s" "q_next (snd (StartTunnel n s)) = q_next s"
  "q_queue (snd (StartTunnel n s)) = q_queue s"
  by (simp_all add: StopTunnel_def StartTunnel_def Let_def spawn_up_def split: option.splits)

lemma autoconnect_fields:
  "q_run (ctl_SetAutoconnect on s) = q_run s" "q_next (ctl_SetAutoconnect on s) = q_next s"
  "q_queue (ctl_SetAutoconnect on s) = q_queue s"
  by (simp_all add: ctl_SetAutoconnect_def Let_def core_fields [OF core_folds(1)] split: option.splits)

lemma up_fields:
  "q_run (up_next s u) = q_run s" "q_next (up_next s u) = q_next s" "q_queue (up_next s u) = q_queue s"
  "q_run (up_return s u) = q_run s" "q_next (up_return s u) = q_next s" "q_queue (up_return s u) = q_queue s"
  by (simp_all add: up_next_def up_return_def Let_def core_fields [OF core_base(2)] split: option.splits)

lemma core_calls:
  "core (snd (DisconnectUpstream n s)) = core s" "core (upstreamDropped r n s) = core s"
  by (simp_all add: DisconnectUpstream_def upstreamDropped_def split: sum.splits option.splits)

lemma sync_act_fields:
  "q_run (sync_act w a s) = q_run s" "q_next (sync_act w a s) = q_next s"
  by (simp_all add: sync_act_def split: prod.splits)

lemma runs_inv_start:
  assumes "runs_inv s"
  shows "runs_inv (snd (Start_finish env s))"
proof (cases "Start_finish env s")
  case (Pair res s1)
  show ?thesis
  proof (cases res)
    case (Inl err)
    with Pair Start_finish_Inl [of env s err s1] assms show ?thesis by (auto simp: runs_inv_def)
  next
    case (Inr u)
    from Start_finish_Inr [OF Pair [unfolded Inr]] obtain cfg reg srv ts np' where
      "s1 = Start_run cfg reg srv ts np' s" by metis
    with Pair assms show ?thesis by (auto simp: runs_inv_def less_Suc_eq)
  qed
qed

lemma runs_inv_step:
  assumes R: "runs_inv s" and e: "ctl_step e s = Some s'"
  shows "runs_inv s'"
proof (cases e)
  case EvStartBegin
  with e R show ?thesis by (simp add: Start_begin_def runs_inv_def split: if_splits) (clarsimp simp: runs_inv_def)
next
  case (EvStartFinish env)
  with e runs_inv_start [OF R, of env] show ?thesis by (auto split: if_splits)
next
  case SyncDecide
  with e R show ?thesis
    by (auto simp: runs_inv_def sync_decide_iff split: list.splits if_splits)
next
  case (SyncAct w)
  with e obtain a as where "q_queue s = a # as" "s' = (sync_act w a s)\<lparr>q_queue := as\<rparr>"
    by (auto split: list.splits)
  with R show ?thesis by (intro runs_inv_same [OF R]) (auto simp: sync_act_fields)
next
  case (EvStop w)
  with e R Stop_fields [of w s] show ?thesis by (auto intro: runs_inv_same)
next
  case (EvStopTunnel w n)
  with e R runs_inv_fields [OF tunnel_calls_fields(1-3)] show ?thesis by auto
next
  case (EvStartTunnel n)
  with e R runs_inv_fields [OF tunnel_calls_fields(4-6)] show ?thesis by auto
next
  case (EvConnect n)
  with e obtain x where s': "s' = s\<lparr>q_ups := x\<rparr> \<or> s' = s"
    by (auto simp: ConnectUpstream_def spawn_up_def split: sum.splits option.splits)
  with R runs_inv_fields [of "s\<lparr>q_ups := x\<rparr>" s] show ?thesis by auto
next
  case (EvAutoconnect on)
  with e R runs_inv_fields [OF autoconnect_fields] show ?thesis by auto
next
  case EvSubscribe
  with e R runs_inv_fields [of s' s] show ?thesis by (auto simp: Subscribe_def)
next
  case (EvUnsubscribe i)
  with e R runs_inv_fields [of s' s] show ?thesis by (auto simp: Unsubscribe_def split: if_splits)
next
  case (EvUpNext i)
  with e obtain x u where s': "s' = (up_next s u)\<lparr>q_ups := x\<rparr>" by (auto split: if_splits)
  show ?thesis unfolding s' by (rule runs_inv_same [OF R]) (simp_all add: up_fields)
next
  case (EvUpReturn i)
  with e obtain x u where s': "s' = up_return (s\<lparr>q_ups := x\<rparr>) u" by (auto split: if_splits)
  show ?thesis unfolding s' by (rule runs_inv_same [OF R]) (simp_all add: up_fields)
next
  case (ProxyServeEnds r err)
  with e obtain reg where s': "s' = proxy_end r reg err s" by (auto split: option.splits if_splits)
  show ?thesis unfolding s' by (rule runs_inv_same [OF R]) simp_all
next
  case (TunnelServeEnds n)
  with e R runs_inv_fields [of "tunnel_end n s" s] show ?thesis by auto
next
  case (EvDisconnect n)
  with e have "core s' = core s" by (auto simp: core_calls)
  with R core_runs show ?thesis by blast
next
  case (ConnChange r n b st)
  with e have "core s' = core s" by (auto split: if_splits)
  with R core_runs show ?thesis by blast
next
  case (Dropped r n)
  with e have "core s' = core s" by (auto simp: core_calls)
  with R core_runs show ?thesis by blast
qed

interpretation ctl_runs: machine_invariant ctl_step "ctl_New path np" runs_inv for path np
proof
  show "runs_inv (ctl_New path np)" by (simp add: runs_inv_def ctl_New_def)
  show "runs_inv s'" if "ctl_reach path np s" "runs_inv s" "ctl_step e s = Some s'" for s e s'
    using that runs_inv_step by blast
qed

interpretation ctl_follow: machine_invariant ctl_step "ctl_New path np" follow_inv for path np
proof
  show "follow_inv (ctl_New path np)" by (simp add: follow_inv_def ctl_New_def)
  show "follow_inv s'" if "ctl_reach path np s" "follow_inv s" "ctl_step e s = Some s'" for s e s'
    using that follow_inv_step ctl_runs.holds by blast
qed

section \<open>Properties\<close>

text \<open>C3. Tunnels never outlive their connection: in any reachable state of a running controller with no
  \<open>syncTunnels\<close> of the current run pending or under way, every tunnel pinned to an ssh or VPN upstream
  that still accepts connections has that upstream connected, whatever was started, stopped,
  connected, disconnected or dropped in whatever order.\<close>

theorem tunnels_follow_upstream:
  assumes "ctl_reach path np s" "q_state s = StateRunning" "q_run s = Some r"
    and "r \<notin> set (q_syncs s)" "\<forall>a \<in> set (q_queue s). fst a \<noteq> r"
    and "map_of (q_tunnels s) n = Some h" "pinned_conn h \<noteq> None" "h_run h = Some (Bound srv)"
  shows "cd_state (q_conns s r (h_upstream h)) = ConnConnected"
proof -
  have "(r, False, n) \<notin> set (q_queue s)" using assms(5) by force
  then show ?thesis
    using ctl_follow.holds [OF assms(1)] assms(2-4,6-8) unfolding follow_inv_def follows_def by metis
qed

definition sample_start :: start_env where
  "sample_start = \<lparr>se_load = (\<lambda>_. Inr sample_config), se_build = sample_build,
     se_order = c_Upstreams sample_config, se_secrets = secret_new []\<rparr>"

definition sample_ctl :: ctl where
  "sample_ctl = ctl_New ''dockprox.yaml'' sample_ports"

abbreviation sample_tunnel :: string where "sample_tunnel \<equiv> ''127.0.0.1:5432''"

text \<open>A run whose ssh upstream has connected, before and after the tunnels followed it.\<close>

definition sample_connected :: "ctl_event list" where
  "sample_connected = [EvStartBegin, EvStartFinish sample_start, ConnChange 0 ''jump'' True ConnConnected, SyncDecide]"

lemma tunnels_follow_upstream_witness:
  "\<exists>s h srv. run_events ctl_step (sample_connected @ [SyncAct False]) sample_ctl = Some s
     \<and> map_of (q_tunnels s) sample_tunnel = Some h \<and> h_run h = Some (Bound srv)
     \<and> cd_state (q_conns s 0 ''jump'') = ConnConnected"
proof -
  have "map_option (\<lambda>s. (q_state s, q_run s, q_syncs s, q_queue s,
        map_option (\<lambda>h. (h_upstream h, pinned_conn h \<noteq> None, case h_run h of Some (Bound _) \<Rightarrow> True | _ \<Rightarrow> False))
          (map_of (q_tunnels s) sample_tunnel)))
      (run_events ctl_step (sample_connected @ [SyncAct False]) sample_ctl)
    = Some (StateRunning, Some 0, [], [], Some (''jump'', True, True))"
    by code_simp
  then obtain s h where r: "run_events ctl_step (sample_connected @ [SyncAct False]) sample_ctl = Some s"
    and s: "q_state s = StateRunning" "q_run s = Some 0" "q_syncs s = []" "q_queue s = []"
    and h: "map_of (q_tunnels s) sample_tunnel = Some h" "h_upstream h = ''jump''" "pinned_conn h \<noteq> None"
      "case h_run h of Some (Bound _) \<Rightarrow> True | _ \<Rightarrow> False"
    by auto
  then obtain srv where b: "h_run h = Some (Bound srv)" by (auto split: option.splits tunnel_run.splits)
  from tunnels_follow_upstream [OF run_reachable [OF r [unfolded sample_ctl_def]] s(1,2) _ _ h(1,3) b] s h b r
  show ?thesis by auto
qed

text \<open>\<open>StopTunnel\<close> can be undone by a \<open>syncTunnels\<close> under way: one that has decided to bind the tunnel
  before it was stopped binds it afterwards, and the tunnel then listens although it is stopped, with
  nothing pending that would correct it.\<close>

theorem StopTunnel_races_syncTunnels:
  "map_option (\<lambda>s. (q_state s, q_syncs s, q_queue s,
      map_option (\<lambda>h. (h_stopped h, h_run h \<noteq> None)) (map_of (q_tunnels s) sample_tunnel)))
     (run_events ctl_step (sample_connected @ [EvStopTunnel False sample_tunnel, SyncAct False]) sample_ctl)
   = Some (StateRunning, [], [], Some (True, True))"
  by code_simp

end
