(* ===== verification/ControllerCalls.thy ===== *)
theory ControllerCalls
  imports ControllerInv
begin

text \<open>
  The menu's calls on the controller, one by one: what disconnecting takes along, where
  \<open>syncTunnels\<close> settles, the autoconnect setting, and where starting, stopping and restarting fall
  short of what they promise.
\<close>

section \<open>Disconnecting\<close>

definition depends :: "config \<Rightarrow> registry option \<Rightarrow> string \<Rightarrow> string \<Rightarrow> bool" where
  "depends cfg reg name n \<longleftrightarrow> n \<in> set (connNames cfg) \<and> reg_connDialer reg n \<noteq> None
     \<and> (\<exists>u. map_of (c_Upstreams cfg) n = Some u \<and> u_Via u = name)"

definition held_down :: "conn_dialer \<Rightarrow> bool" where
  "held_down c \<longleftrightarrow> cd_held c \<and> cd_state c = ConnUnknown"

lemma notify_conns [simp]: "q_conns (notify s) = q_conns s"
  by (simp add: notify_def)

lemma set_conn_state_held:
  "cd_held (q_conns (set_conn_state b r n st s) r' n') = cd_held (q_conns s r' n')"
  by (simp add: set_conn_state_conn)

lemma conn_Down_conns:
  "held_down (q_conns (conn_Down r n d s) r n)"
  "r' \<noteq> r \<or> n' \<noteq> n \<Longrightarrow> q_conns (conn_Down r n d s) r' n' = q_conns s r' n'"
  by (auto simp: held_down_def conn_Down_def set_conn_state_conn)

definition down_one :: "nat \<Rightarrow> string \<Rightarrow> ctl \<Rightarrow> ctl" where
  "down_one r n s = (case reg_connDialer (q_reg s) n of None \<Rightarrow> s | Some d \<Rightarrow> conn_Down r n d s)"

lemma down_one_reg [simp]: "q_reg (down_one r n s) = q_reg s"
  using core_fields(6) [OF core_conn(3)] by (simp add: down_one_def split: option.splits)

lemma fold_down_reg [simp]: "q_reg (fold (down_one r) ns s) = q_reg s"
  by (rule fold_same) simp

lemma down_one_kept: "held_down (q_conns s r n) \<Longrightarrow> held_down (q_conns (down_one r n' s) r n)"
  using conn_Down_conns(1) [of r n' _ s] conn_Down_conns(2) [of r r n n' _ s]
  by (cases "n' = n") (auto simp: down_one_def split: option.splits)

lemma fold_down_kept: "held_down (q_conns s r n) \<Longrightarrow> held_down (q_conns (fold (down_one r) ns s) r n)"
  by (rule fold_inv [where I = "\<lambda>s. held_down (q_conns s r n)"]) (auto dest: down_one_kept)

lemma fold_down_held:
  assumes "n \<in> set ns" "reg_connDialer (q_reg s) n \<noteq> None"
  shows "held_down (q_conns (fold (down_one r) ns s) r n)"
proof -
  obtain xs ys where ns: "ns = xs @ n # ys" using assms(1) by (meson split_list)
  obtain d where "reg_connDialer (q_reg s) n = Some d" using assms(2) by auto
  then have "held_down (q_conns (down_one r n (fold (down_one r) xs s)) r n)"
    using conn_Down_conns(1) by (simp add: down_one_def)
  then show ?thesis by (simp add: ns fold_down_kept)
qed

lemma fold_down_others:
  assumes "r' \<noteq> r \<or> n \<notin> set ns \<or> reg_connDialer (q_reg s) n = None"
  shows "q_conns (fold (down_one r) ns s) r' n = q_conns s r' n"
proof -
  have "q_reg (fold (down_one r) ns s) = q_reg s \<and> q_conns (fold (down_one r) ns s) r' n = q_conns s r' n"
  proof (rule fold_inv [where I = "\<lambda>s'. q_reg s' = q_reg s \<and> q_conns s' r' n = q_conns s r' n"])
    fix n' and s' :: ctl assume n': "n' \<in> set ns" and I: "q_reg s' = q_reg s \<and> q_conns s' r' n = q_conns s r' n"
    show "q_reg (down_one r n' s') = q_reg s \<and> q_conns (down_one r n' s') r' n = q_conns s r' n"
      using I assms n' conn_Down_conns(2) [of r' r n n' _ s'] unfolding down_one_reg
      by (cases "r' = r \<and> n = n'") (auto simp: down_one_def split: option.splits)
  qed simp
  then show ?thesis ..
qed

lemma downDependents_eq:
  "q_cfg s = Some cfg \<Longrightarrow> q_run s = Some r \<Longrightarrow> downDependents r name s = notify (fold (down_one r)
     (filter (\<lambda>n. case map_of (c_Upstreams cfg) n of Some u \<Rightarrow> u_Via u = name | None \<Rightarrow> False) (connNames cfg)) s)"
  by (simp add: downDependents_def down_one_def [abs_def])

lemma downDependents_conns:
  assumes "q_cfg s = Some cfg" "q_run s = Some r"
  shows "depends cfg (q_reg s) name n \<Longrightarrow> held_down (q_conns (downDependents r name s) r n)"
    and "\<not> depends cfg (q_reg s) name n \<or> r' \<noteq> r \<Longrightarrow> q_conns (downDependents r name s) r' n = q_conns s r' n"
    and "held_down (q_conns s r n) \<Longrightarrow> held_down (q_conns (downDependents r name s) r n)"
  unfolding downDependents_eq [OF assms] notify_conns depends_def
  by (rule fold_down_held, force, force, rule fold_down_others, force split: option.splits, erule fold_down_kept)

text \<open>C19. Disconnecting takes the dependents along and nothing else: afterwards the upstream and every ssh
  upstream that goes through it are held and not connected, every other connection is untouched, and
  so are the tunnels, which only the \<open>syncTunnels\<close> that this starts unbinds.\<close>

theorem DisconnectUpstream_takes_dependents:
  assumes "ctl_conn name s = Inr d" "q_run s = Some r" "q_cfg s = Some cfg"
    and "DisconnectUpstream name s = (res, s')"
  shows "res = Inr () \<and> q_tunnels s' = q_tunnels s
    \<and> (\<forall>r' n. if r' = r \<and> (n = name \<or> depends cfg (q_reg s) name n)
              then held_down (q_conns s' r' n) else q_conns s' r' n = q_conns s r' n)"
proof -
  let ?s = "conn_Down r name d s"
  have s: "res = Inr ()" "s' = downDependents r name ?s"
    using assms by (auto simp: DisconnectUpstream_def)
  have c: "q_cfg ?s = Some cfg" "q_run ?s = Some r" "q_reg ?s = q_reg s" "q_tunnels ?s = q_tunnels s"
    using assms(2,3) core_fields [OF core_conn(3) [of r name d s]] by simp_all
  have t: "q_tunnels s' = q_tunnels s"
    using core_fields(3) [OF core_folds(3) [of r name ?s]] c(4) by (simp add: s(2))
  note D = downDependents_conns [OF c(1,2), where name = name] conn_Down_conns [where r = r and n = name and d = d and s = s]
  have "if r' = r \<and> (n = name \<or> depends cfg (q_reg s) name n)
      then held_down (q_conns s' r' n) else q_conns s' r' n = q_conns s r' n" for r' n
    using D(1) [of n] D(2) [of n r'] D(3) [of n] D(4) D(5) [of r' n] c(3) unfolding s(2) by (cases "n = name") auto
  with s(1) t show ?thesis by blast
qed

text \<open>An ssh upstream that goes through a VPN, and both connected.\<close>

definition sample_via_config :: config where
  "sample_via_config = sample_config\<lparr>c_Upstreams := put (put (c_Upstreams sample_config) ''vpn'' sample_vpn) ''jump''
     (zero_upstream\<lparr>u_Type := UpstreamSSH, u_Host := ''bastion.example'', u_KeyFile := ''/home/me/.ssh/id'', u_Via := ''vpn''\<rparr>)\<rparr>"

definition sample_via_start :: start_env where
  "sample_via_start = \<lparr>se_load = (\<lambda>_. Inr sample_via_config), se_build = sample_build,
     se_order = c_Upstreams sample_via_config, se_secrets = secret_new []\<rparr>"

definition sample_via_events :: "ctl_event list" where
  "sample_via_events = [EvStartBegin, EvStartFinish sample_via_start, ConnChange 0 ''vpn'' False ConnConnected,
     ConnChange 0 ''jump'' True ConnConnected]"

lemma DisconnectUpstream_takes_dependents_witness:
  "\<exists>s. run_events ctl_step sample_via_events sample_ctl = Some s
     \<and> cd_state (q_conns s 0 ''jump'') = ConnConnected
     \<and> held_down (q_conns (snd (DisconnectUpstream ''vpn'' s)) 0 ''jump'')"
proof -
  let ?run = "run_events ctl_step sample_via_events sample_ctl"
  have "map_option (\<lambda>s. (q_run s, cd_state (q_conns s 0 ''jump''), ok (ctl_conn ''vpn'' s),
      map_option (\<lambda>cfg. (reg_connDialer (q_reg s) ''jump'' \<noteq> None, ''jump'' \<in> set (connNames cfg),
        map_option u_Via (map_of (c_Upstreams cfg) ''jump''))) (q_cfg s))) ?run
      = Some (Some 0, ConnConnected, True, Some (True, True, Some ''vpn''))" by code_simp
  then obtain s d cfg where s: "?run = Some s" "q_run s = Some 0" "cd_state (q_conns s 0 ''jump'') = ConnConnected"
      "ctl_conn ''vpn'' s = Inr d" and cfg: "q_cfg s = Some cfg" and "depends cfg (q_reg s) ''vpn'' ''jump''"
    by (auto simp: ok_iff depends_def)
  moreover obtain res s' where "DisconnectUpstream ''vpn'' s = (res, s')" by force
  ultimately show ?thesis
    using DisconnectUpstream_takes_dependents [OF s(4,2) cfg] s(1,3) by (metis snd_conv)
qed

section \<open>Where syncTunnels settles\<close>

text \<open>The listener of a tunnel cannot be set up with the addresses bound as they are.\<close>

definition refused :: "net_ports \<Rightarrow> tunnel_handle \<Rightarrow> bool" where
  "refused np h \<longleftrightarrow> \<not> ok (fst (listener_New (h_listener h) (h_reg h) (h_matcher h) np))"

lemma net_listen_grows:
  "fst (net_listen np a) = Inl e \<Longrightarrow> fst (net_listen (np\<lparr>np_bound := xs @ np_bound np\<rparr>) a) = Inl e"
  by (auto simp: net_listen_def split: if_splits)

lemma bind_server_grows:
  "\<not> ok (fst (bind_server k o1 np)) \<Longrightarrow> \<not> ok (fst (bind_server k o1 (np\<lparr>np_bound := xs @ np_bound np\<rparr>)))"
  by (auto simp: bind_server_def net_listen_def split: if_splits)

lemma refused_grows: "refused np h \<Longrightarrow> refused (np\<lparr>np_bound := xs @ np_bound np\<rparr>) h"
  unfolding refused_def listener_New_def Let_def socks5_NewServer_def forward_NewServer_def
  using bind_server_grows by (auto split: sum.splits if_splits prod.splits)

lemma refused_h_run [simp]: "refused np (h\<lparr>h_run := k\<rparr>) = refused np h"
  by (simp add: refused_def)

text \<open>The first half of its actions.\<close>

lemma tunnel_end_tunnels:
  "map_of (q_tunnels (tunnel_end n s)) = (map_of (q_tunnels s))(n := map_option (h_run_update (\<lambda>_. None)) (map_of (q_tunnels s) n))"
  by (auto simp: tunnel_end_def Let_def fun_eq_iff split: option.splits tunnel_run.splits)

lemma tunnel_cancel_tunnels:
  "map_of (q_tunnels (tunnel_cancel n s)) m =
     (if m = n then map_option (\<lambda>h. h\<lparr>h_run := map_option (\<lambda>k. Closing (run_server k)) (h_run h)\<rparr>) (map_of (q_tunnels s) n)
      else map_of (q_tunnels s) m)"
  by (auto simp: tunnel_cancel_def fun_eq_iff split: option.splits tunnel_run.splits)

lemma unbind_tunnels:
  "map_of (q_tunnels (snd (unbindTunnel False n s))) =
     (map_of (q_tunnels s))(n := map_option (h_run_update (\<lambda>_. None)) (map_of (q_tunnels s) n))"
  by (auto simp: unbindTunnel_def tunnel_end_tunnels tunnel_cancel_tunnels fun_eq_iff split: option.splits)

lemma syncTunnels_phases:
  assumes "q_state s = StateRunning" "q_run s = Some r"
  shows "syncTunnels r s =
    fold (\<lambda>n s. snd (bindTunnel n s)) (filter (tunnel_sat s (sync_bind s)) (sorted_keys (q_tunnels s)))
      (fold (\<lambda>n s. snd (unbindTunnel False n s)) (filter (tunnel_sat s (sync_unbind s)) (sorted_keys (q_tunnels s))) s)"
proof -
  have u: "fold (sync_act False) (map (\<lambda>n. (r, False, n)) ns) s = fold (\<lambda>n s. snd (unbindTunnel False n s)) ns s
      \<and> q_run (fold (\<lambda>n s. snd (unbindTunnel False n s)) ns s) = q_run s" if "q_run s = Some r" for ns s
    using that by (induction ns arbitrary: s) (auto simp: sync_act_def)
  have b: "fold (sync_act False) (map (\<lambda>n. (r, True, n)) ns) s = fold (\<lambda>n s. snd (bindTunnel n s)) ns s"
    if "q_run s = Some r" for ns s
    using that by (induction ns arbitrary: s) (auto simp: sync_act_def)
  show ?thesis
    using assms u [OF assms(2)] b by (simp add: syncTunnels_def sync_decide_def Let_def)
qed

lemma fold_unbind_tunnels:
  "map_of (q_tunnels (fold (\<lambda>n s. snd (unbindTunnel False n s)) ns s)) m =
     (if m \<in> set ns then map_option (h_run_update (\<lambda>_. None)) (map_of (q_tunnels s) m) else map_of (q_tunnels s) m)"
  by (induction ns arbitrary: s) (auto simp: unbind_tunnels option.map_comp comp_def split: if_splits)

text \<open>The second half: a tunnel that could not be bound cannot be bound afterwards either.\<close>

lemma bind_tunnels:
  "map_of (q_tunnels (snd (bindTunnel n s))) m = map_of (q_tunnels s) m \<or>
     (\<exists>h k. m = n \<and> map_of (q_tunnels s) n = Some h \<and> h_run h = None
        \<and> map_of (q_tunnels (snd (bindTunnel n s))) n = Some (h\<lparr>h_run := Some k\<rparr>))"
proof (cases rule: bindTunnel_cases [of n s])
  case (2 h srv np)
  then show ?thesis
    by (cases "run_ended s") (auto simp: bound_state_def Let_def tunnel_cancel_tunnels)
qed simp

lemma bind_ports:
  "\<exists>xs. q_ports (snd (bindTunnel n s)) = q_ports s\<lparr>np_bound := xs @ np_bound (q_ports s)\<rparr>"
proof (cases rule: bindTunnel_cases [of n s])
  case 1
  then show ?thesis by (intro exI [of _ "[]"]) simp
next
  case (2 h srv np)
  from listener_New_Inr [OF 2(3)] have np: "np = (q_ports s)\<lparr>np_bound := l_Listen (h_listener h) # np_bound (q_ports s)\<rparr>"
    "server_Close srv np = q_ports s"
    by (simp_all add: server_Close_def net_close_def)
  with 2(1) show ?thesis
    unfolding 2(4) bound_state_def Let_def
    by (auto simp: tunnel_cancel_def intro: exI [of _ "[]"] exI [of _ "[l_Listen (h_listener h)]"])
qed

lemma bind_or_refused:
  assumes "map_of (q_tunnels s) n = Some h"
  shows "(\<exists>h'. map_of (q_tunnels (snd (bindTunnel n s))) n = Some h' \<and> h_run h' \<noteq> None) \<or> refused (q_ports (snd (bindTunnel n s))) h"
proof (cases rule: bindTunnel_cases [of n s])
  case 1
  with assms show ?thesis by (cases "h_run h") (auto simp: refused_def)
next
  case (2 h' srv np)
  with assms show ?thesis
    by (cases "run_ended s") (auto simp: bound_state_def Let_def tunnel_cancel_tunnels)
qed

definition bound_from :: "tunnel_handle \<Rightarrow> tunnel_handle \<Rightarrow> bool" where
  "bound_from h h' \<longleftrightarrow> h' = h \<or> (h_run h = None \<and> (\<exists>k. h' = h\<lparr>h_run := Some k\<rparr>))"

lemma bound_from_run: "bound_from h h' \<Longrightarrow> h' = h\<lparr>h_run := h_run h'\<rparr>" "bound_from h h' \<Longrightarrow> h_run h \<noteq> None \<Longrightarrow> h' = h"
  by (auto simp: bound_from_def)

lemma bind_from:
  assumes "map_of (q_tunnels s) m = Some h"
  shows "\<exists>h'. map_of (q_tunnels (snd (bindTunnel n s))) m = Some h' \<and> bound_from h h' \<and> (m \<noteq> n \<longrightarrow> h' = h)"
  using bind_tunnels [of n s m]
proof
  assume "map_of (q_tunnels (snd (bindTunnel n s))) m = map_of (q_tunnels s) m"
  with assms show ?thesis by (simp add: bound_from_def)
next
  assume "\<exists>h k. m = n \<and> map_of (q_tunnels s) n = Some h \<and> h_run h = None
        \<and> map_of (q_tunnels (snd (bindTunnel n s))) n = Some (h\<lparr>h_run := Some k\<rparr>)"
  then obtain k where "m = n" "h_run h = None"
      "map_of (q_tunnels (snd (bindTunnel n s))) n = Some (h\<lparr>h_run := Some k\<rparr>)"
    using assms by auto
  then show ?thesis unfolding bound_from_def by blast
qed

lemma fold_bind_tunnels:
  fixes ns :: "string list"
  assumes "map_of (q_tunnels s) m = Some h"
  defines "s' \<equiv> fold (\<lambda>n s. snd (bindTunnel n s)) ns s"
  shows "\<exists>h'. map_of (q_tunnels s') m = Some h' \<and> bound_from h h' \<and> (m \<notin> set ns \<longrightarrow> h' = h)
    \<and> (m \<in> set ns \<longrightarrow> h_run h' \<noteq> None \<or> refused (q_ports s') h)"
  using assms(1) unfolding s'_def
proof (induction ns arbitrary: s h)
  case (Cons n ns)
  let ?s = "snd (bindTunnel n s)"
  obtain h1 where h1: "map_of (q_tunnels ?s) m = Some h1" "bound_from h h1" "m \<noteq> n \<Longrightarrow> h1 = h"
    using bind_from [OF Cons.prems] by blast
  have grows: "refused (q_ports (fold (\<lambda>n s. snd (bindTunnel n s)) ns s)) h" if "refused (q_ports s) h" for ns s
    using that by (induction ns arbitrary: s) (auto, metis bind_ports refused_grows)
  have n: "m = n \<Longrightarrow> h_run h1 \<noteq> None \<or> refused (q_ports ?s) h"
    using bind_or_refused [of s n h] Cons.prems h1 by auto
  obtain h2 where h2: "map_of (q_tunnels (fold (\<lambda>n s. snd (bindTunnel n s)) ns ?s)) m = Some h2" "bound_from h1 h2"
    "m \<notin> set ns \<longrightarrow> h2 = h1"
    "m \<in> set ns \<longrightarrow> h_run h2 \<noteq> None \<or> refused (q_ports (fold (\<lambda>n s. snd (bindTunnel n s)) ns ?s)) h1"
    using Cons.IH [OF h1(1)] by blast
  have "refused np h1 = refused np h" for np using h1(2) by (auto simp: bound_from_def)
  note r = this
  have b: "bound_from h h2"
    using h1(2) h2(2) bound_from_run(2) [OF h2(2)] by (cases "h_run h1") (auto simp: bound_from_def)
  have "h2 = h1 \<or> h_run h2 \<noteq> None" using h2(2) by (auto simp: bound_from_def)
  then have "m = n \<Longrightarrow> h_run h2 \<noteq> None \<or> refused (q_ports (fold (\<lambda>n s. snd (bindTunnel n s)) ns ?s)) h"
    using n grows [of ?s ns] by auto
  then show ?case
    using h2(1,3,4) h1(3) b by (intro exI [of _ h2]) (auto simp: r)
qed (simp add: bound_from_def)



section \<open>Starting and stopping\<close>

text \<open>The servers of the tunnels built so far are what \<open>buildTunnels\<close> adds to the bound addresses.\<close>

lemma handle_servers_put_new:
  "n \<notin> set (keys ts) \<Longrightarrow> handle_servers (put ts n h) = handle_servers ts @ handle_servers [(n, h)]"
  by (induction ts) (auto simp: handle_servers_def List.map_filter_simps keys_def split: option.splits)

lemma put_put [simp]: "put (put ts n h) n h' = put ts n h'"
  by (induction ts) auto

lemma close_ports_bound:
  "mset (np_bound (close_ports srvs np)) = mset (np_bound np) - mset (map srv_addr srvs)"
  using close_all_bound [of np srvs] by (simp add: close_ports_def foldl_conv_fold)

lemma close_ports_other [simp]:
  "np_refuses (close_ports srvs np) = np_refuses np" "np_conflict (close_ports srvs np) = np_conflict np"
  unfolding close_ports_def by (auto intro!: fold_same simp: server_Close_def net_close_def)

lemma buildTunnels_bound:
  assumes "buildTunnels reg m ls ts np = (res, np')"
    and "distinct (map l_Listen ls)" "set (map l_Listen ls) \<inter> set (keys ts) = {}"
    and "mset (np_bound np) = B + mset (map srv_addr (handle_servers ts))"
  shows "np_refuses np' = np_refuses np \<and> np_conflict np' = np_conflict np
    \<and> (case res of Inl e \<Rightarrow> mset (np_bound np') = B
                  | Inr ts' \<Rightarrow> mset (np_bound np') = B + mset (map srv_addr (handle_servers ts')))"
  using assms
proof (induction ls arbitrary: ts np)
  case (Cons l ls)
  let ?h = "new_handle reg m l" and ?n = "l_Listen l"
  have new: "?n \<notin> set (keys ts)" "h_run ?h = None" using Cons.prems(3) by (auto simp: new_handle_def)
  have hs: "handle_servers (put ts ?n ?h) = handle_servers ts"
    "handle_servers (put ts ?n (?h\<lparr>h_run := Some (Bound srv)\<rparr>)) = handle_servers ts @ [srv]" for srv
    using new by (simp_all add: handle_servers_put_new) (simp_all add: handle_servers_def List.map_filter_simps)
  have ls: "distinct (map l_Listen ls)" "set (map l_Listen ls) \<inter> set (keys (put ts ?n h)) = {}" for h
    using Cons.prems(2,3) by auto
  show ?case
  proof (cases "pinned_conn ?h = None")
    case False
    then have "buildTunnels reg m ls (put ts ?n ?h) np = (res, np')" using Cons.prems(1) by (simp add: Let_def)
    from Cons.IH [OF this ls] Cons.prems(4) show ?thesis by (simp add: hs)
  next
    case True
    obtain r1 np1 where l: "listener_New l reg m np = (r1, np1)" by force
    show ?thesis
    proof (cases r1)
      case (Inl e)
      with l listener_New_Inl have "np1 = np" by blast
      with Inl l True Cons.prems show ?thesis by (auto simp: Let_def hs close_ports_bound)
    next
      case (Inr srv)
      from listener_New_Inr [OF l [unfolded Inr]] have srv: "np1 = np\<lparr>np_bound := ?n # np_bound np\<rparr>" "srv_addr srv = ?n"
        by (auto simp: srv_addr_def)
      have "buildTunnels reg m ls (put ts ?n (?h\<lparr>h_run := Some (Bound srv)\<rparr>)) np1 = (res, np')"
        using Cons.prems(1) True l Inr by (simp add: Let_def)
      from Cons.IH [OF this ls] Cons.prems(4) srv show ?thesis by (simp add: hs)
    qed
  qed
qed auto

lemma proxy_NewServer_Inr:
  assumes "proxy_NewServer o1 np = (Inr srv, np')"
  shows "np' = np\<lparr>np_bound := o_Listen o1 # np_bound np\<rparr>" "o_Matcher o1 \<noteq> None" "o_Registry o1 \<noteq> None"
    "srv_addr srv = o_Listen o1"
  using assms by (auto simp: proxy_NewServer_def bind_server_Inr srv_addr_def dest: net_listen_Inr split: if_splits)

text \<open>C39. A \<open>Start\<close> that fails to set up a tunnel closes the tunnels it had bound and forgets the proxy's own
  listener: its address stays bound with nothing serving it, and the next \<open>Start\<close> fails to bind it,
  until the runtime happens to collect the lost listener.\<close>

theorem failed_Start_leaks_listener:
  assumes "Start env s = (Inl (TunnelsFailed e), s')" "se_load env (q_cfgPath s) = Inr cfg"
    and "distinct (map l_Listen (c_Listeners cfg))" "np_conflict (q_ports s) (c_Listen cfg) (c_Listen cfg)"
  shows "mset (np_bound (q_ports s')) = mset (np_bound (q_ports s)) + {#c_Listen cfg#} \<and> q_serving s' = q_serving s
    \<and> fst (Start env s') = Inl (ServerFailed (ListenErr (c_Listen cfg)))"
proof -
  obtain s0 where s0: "Start_begin s = Some s0" and f: "Start_finish env s0 = (Inl (TunnelsFailed e), s')"
    using assms(1) by (auto simp: Start_def split: option.splits)
  have p: "q_ports s0 = q_ports s" "q_cfgPath s0 = q_cfgPath s" "q_serving s0 = q_serving s"
    using s0 by (auto simp: Start_begin_def notify_def split: if_splits)
  from f assms(2) obtain reg m srv np np' where
    b: "fst (NewRegistry (se_build env) (c_Upstreams cfg) (se_order env) (se_secrets env)) = Inr reg"
      "match_new (match_rules cfg) (known_upstreams cfg) = Inr m"
    and n: "proxy_NewServer \<lparr>o_Listen = c_Listen cfg, o_Target = [], o_Dialer = None, o_Matcher = Some m,
         o_Registry = Some reg\<rparr> (q_ports s) = (Inr srv, np)"
    and t: "buildTunnels reg m (c_Listeners cfg) [] np = (Inl e, np')" and s': "s' = fail (TunnelsFailed e) (s0\<lparr>q_ports := np'\<rparr>)"
    unfolding Start_finish_def Let_def p by (auto split: sum.splits prod.splits)
  have np: "np = q_ports s\<lparr>np_bound := c_Listen cfg # np_bound (q_ports s)\<rparr>" using proxy_NewServer_Inr [OF n] by simp
  have np': "np_refuses np' = np_refuses (q_ports s)" "np_conflict np' = np_conflict (q_ports s)"
    "mset (np_bound np') = mset (np_bound (q_ports s)) + {#c_Listen cfg#}"
    using buildTunnels_bound [OF t assms(3), of "mset (np_bound np)"] by (simp_all add: np handle_servers_def List.map_filter_simps keys_def)
  then have "c_Listen cfg \<in> set (np_bound np')"
    by (metis add_mset_add_single set_mset_mset union_single_eq_member)
  with np' assms(4) have taken: "proxy_NewServer \<lparr>o_Listen = c_Listen cfg, o_Target = [], o_Dialer = None, o_Matcher = Some m,
         o_Registry = Some reg\<rparr> np' = (Inl (ListenErr (c_Listen cfg)), np')"
    by (auto simp: proxy_NewServer_def bind_server_def net_listen_def list_ex_iff)
  have "q_cfgPath s' = q_cfgPath s" by (simp add: s' fail_def notify_def p)
  then have "fst (Start env s') = Inl (ServerFailed (ListenErr (c_Listen cfg)))"
    using b taken by (simp add: Start_def Start_begin_def s' Start_finish_def assms(2) Let_def notify_def fail_def)
  with np' show ?thesis by (simp add: s' p)
qed

lemma failed_Start_leaks_listener_witness:
  "c_Listen sample_config \<in> set (np_bound (q_ports (snd (Start sample_start
     (ctl_New ''dockprox.yaml'' (sample_ports\<lparr>np_refuses := \<lambda>a. a = ''127.0.0.1:1080''\<rparr>))))))"
proof -
  let ?s = "ctl_New ''dockprox.yaml'' (sample_ports\<lparr>np_refuses := \<lambda>a. a = ''127.0.0.1:1080''\<rparr>)"
  have "(case fst (Start sample_start ?s) of Inl (TunnelsFailed _) \<Rightarrow> True | _ \<Rightarrow> False)" by code_simp
  then obtain e s' where s': "Start sample_start ?s = (Inl (TunnelsFailed e), s')"
    by (cases "Start sample_start ?s") (auto split: sum.splits ctl_err.splits)
  have "se_load sample_start (q_cfgPath ?s) = Inr sample_config" by (simp add: sample_start_def)
  moreover have "distinct (map l_Listen (c_Listeners sample_config))" by code_simp
  moreover have "np_conflict (q_ports ?s) (c_Listen sample_config) (c_Listen sample_config)"
    by (simp add: ctl_New_def sample_ports_def)
  ultimately have "mset (np_bound (q_ports s')) = mset (np_bound (q_ports ?s)) + {#c_Listen sample_config#}"
    using failed_Start_leaks_listener [OF s'] by blast
  then show ?thesis unfolding s' snd_conv by (metis add_mset_add_single set_mset_mset union_single_eq_member)
qed

text \<open>A \<open>Stop\<close> of a controller that is still starting is lost: on a new controller it reports success
  and changes nothing, and the \<open>Start\<close> under way then brings the proxy up.\<close>

theorem Stop_while_starting_is_lost:
  assumes "Start_begin (ctl_New path np) = Some s" "Start_finish env s = (Inr (), s1)"
  shows "Stop w s = (Inr (), s) \<and> q_state (snd (Start_finish env (snd (Stop w s)))) = StateRunning"
proof -
  have s: "q_state s = StateStarting" "q_tunnels s = []" "q_cancel s = None" "q_reg s = None" "q_cfg s = None" "q_run s = None"
    using assms(1) by (auto simp: Start_begin_def ctl_New_def notify_def)
  then have "Stop w s = (Inr (), s)"
    by (cases s) (simp add: Stop_def keys_def Let_def)
  moreover have "q_state s1 = StateRunning" using Start_finish_Inr [OF assms(2)] by (metis Start_run_fields(1))
  ultimately show ?thesis using assms(2) by simp
qed

lemma Stop_while_starting_is_lost_witness:
  "\<exists>s. Start_begin sample_ctl = Some s \<and> fst (Stop [] s) = Inr ()
     \<and> q_state (snd (Start_finish sample_start (snd (Stop [] s)))) = StateRunning"
proof -
  have "map_option (\<lambda>s. fst (Start_finish sample_start s)) (Start_begin sample_ctl) = Some (Inr ())" by code_simp
  then obtain s where s: "Start_begin sample_ctl = Some s" "fst (Start_finish sample_start s) = Inr ()" by auto
  then obtain s1 where "Start_finish sample_start s = (Inr (), s1)" by (cases "Start_finish sample_start s") auto
  from Stop_while_starting_is_lost [OF s(1) [unfolded sample_ctl_def] this, of "[]"] s(1) show ?thesis by auto
qed

text \<open>A \<open>Restart\<close> whose \<open>Stop\<close> times out on the proxy does not start anything: it reports success and
  leaves the controller marked as running, with no registry, no configuration and no tunnels, and its
  listener closed.\<close>

theorem Restart_after_wedged_Stop:
  assumes "q_state s = StateRunning" "q_cancel s = Some r" "serving r s = Some p" "None \<in> set wedged"
  shows "Restart wedged env s = (Inr (), snd (Stop wedged s))
    \<and> (let s' = snd (Stop wedged s) in q_state s' = StateRunning \<and> q_run s' = None \<and> q_reg s' = None \<and> q_cfg s' = None
         \<and> q_tunnels s' = [] \<and> q_cancelled s' r)"
proof -
  have c: "q_state (cancel_run r s) = q_state s" "q_cancelled (cancel_run r s) r"
    using fold_same [of "keys (q_tunnels s)" q_state tunnel_cancel s] by (auto simp: cancel_run_def Let_def)
  have f: "q_state (fold tunnel_end ns s) = q_state s" "q_cancelled (fold tunnel_end ns s) = q_cancelled s" for ns s
    by (auto intro!: fold_same simp: tunnel_end_def Let_def upd_tunnel_def split: option.splits tunnel_run.splits)
  have "fst (Stop wedged s) = Inl ErrShutdownTimeout" "q_state (snd (Stop wedged s)) = StateRunning"
    "q_cancelled (snd (Stop wedged s)) r" "q_run (snd (Stop wedged s)) = None" "q_reg (snd (Stop wedged s)) = None"
    "q_cfg (snd (Stop wedged s)) = None" "q_tunnels (snd (Stop wedged s)) = []"
    using assms c by (simp_all add: Stop_def Let_def f)
  then show ?thesis
    by (cases "Stop wedged s") (simp add: Restart_def Start_def Start_begin_def)
qed

lemma Restart_after_wedged_Stop_witness:
  "\<exists>s. run_events ctl_step [EvStartBegin, EvStartFinish sample_start] sample_ctl = Some s
     \<and> Restart [None] sample_start s = (Inr (), snd (Stop [None] s))"
proof -
  have "map_option (\<lambda>s. (q_state s, q_cancel s, serving 0 s \<noteq> None))
      (run_events ctl_step [EvStartBegin, EvStartFinish sample_start] sample_ctl) = Some (StateRunning, Some 0, True)"
    by code_simp
  then obtain s p where s: "run_events ctl_step [EvStartBegin, EvStartFinish sample_start] sample_ctl = Some s"
    "q_state s = StateRunning" "q_cancel s = Some 0" "serving 0 s = Some p" by auto
  from Restart_after_wedged_Stop [OF s(2-4), of "[None]" sample_start] s(1) show ?thesis by auto
qed

lemma listener_New_taken:
  assumes "l_Listen l \<in> set (np_bound np)" "np_conflict np (l_Listen l) (l_Listen l)"
  shows "\<not> ok (fst (listener_New l reg m np))"
proof -
  have "\<not> ok (fst (bind_server k o1 np))" if "o_Listen o1 = l_Listen l" for k o1
    using assms that by (auto simp: bind_server_def net_listen_def list_ex_iff)
  then show ?thesis
    by (simp add: listener_New_def socks5_NewServer_def forward_NewServer_def Let_def split: sum.splits prod.splits)
qed

text \<open>A tunnel whose \<open>Serve\<close> failed shows as stopped while its address stays bound until its run ends, so
  starting it again fails.\<close>

theorem failed_tunnel_cannot_restart:
  assumes "q_state s = StateRunning" "q_run s = Some r" "map_of (q_tunnels s) n = Some h"
    and "h_run h = Some (Bound srv)" "pinned_conn h = None"
    and "l_Listen (h_listener h) \<in> set (np_bound (q_ports s))"
    and "np_conflict (q_ports s) (l_Listen (h_listener h)) (l_Listen (h_listener h))"
  shows "map_of (q_tunnels (tunnel_end n s)) n = Some (h\<lparr>h_run := None\<rparr>)
    \<and> q_ports (tunnel_end n s) = q_ports s \<and> \<not> ok (fst (StartTunnel n (tunnel_end n s)))"
proof -
  have t: "map_of (q_tunnels (tunnel_end n s)) n = Some (h\<lparr>h_run := None\<rparr>)" by (simp add: tunnel_end_tunnels assms(3))
  have p: "q_ports (tunnel_end n s) = q_ports s"
    using assms(2-4) by (simp add: tunnel_end_def Let_def)
  have "\<not> ok (fst (listener_New (h_listener h) (h_reg h) (h_matcher h) (q_ports s)))"
    by (rule listener_New_taken [OF assms(6,7)])
  then have "\<not> ok (fst (StartTunnel n (tunnel_end n s)))"
    using assms(1,5) t p by (auto simp: StartTunnel_def bindTunnel_def Let_def ok_iff split: prod.splits sum.splits)
  with t p show ?thesis by blast
qed

lemma failed_tunnel_cannot_restart_witness:
  "\<exists>s. run_events ctl_step [EvStartBegin, EvStartFinish sample_start] sample_ctl = Some s
     \<and> \<not> ok (fst (StartTunnel ''127.0.0.1:1080'' (tunnel_end ''127.0.0.1:1080'' s)))"
proof -
  let ?run = "run_events ctl_step [EvStartBegin, EvStartFinish sample_start] sample_ctl"
  let ?see = "\<lambda>f. map_option (\<lambda>s. map_option (f (q_ports s)) (map_of (q_tunnels s) ''127.0.0.1:1080'')) ?run"
  have "map_option (\<lambda>s. (q_state s, q_run s)) ?run = Some (StateRunning, Some 0)" by code_simp
  then obtain s where s: "?run = Some s" "q_state s = StateRunning" "q_run s = Some 0" by auto
  have "?see (\<lambda>np h. case h_run h of Some (Bound _) \<Rightarrow> True | _ \<Rightarrow> False) = Some (Some True)" by code_simp
  then obtain h srv where h: "map_of (q_tunnels s) ''127.0.0.1:1080'' = Some h" "h_run h = Some (Bound srv)"
    using s(1) by (auto split: option.splits tunnel_run.splits)
  have "?see (\<lambda>np h. pinned_conn h = None) = Some (Some True)" by code_simp
  moreover have "?see (\<lambda>np h. l_Listen (h_listener h) \<in> set (np_bound np)) = Some (Some True)" by code_simp
  moreover have "?see (\<lambda>np h. np_conflict np (l_Listen (h_listener h)) (l_Listen (h_listener h))) = Some (Some True)" by code_simp
  ultimately show ?thesis
    using failed_tunnel_cannot_restart [OF s(2,3) h] s h(1) by auto
qed

end
