(* ===== verification/ControllerConns.thy ===== *)
theory ControllerConns
  imports ControllerInv
begin

text \<open>
  Invariants of the connections that the controller's calls preserve, proved once for any property of
  the connections and of the approvals reported (locale \<open>conn_invariant\<close>), and its uses: a connection
  that is held is not connected, and the approvals reported are the connections that wait for one.
\<close>

section \<open>What the calls on tunnels leave alone\<close>

text \<open>
  A view of the controller that the bookkeeping of tunnels does not touch is the same after every call
  on tunnels.
\<close>

locale ctl_frame =
  fixes V :: "ctl \<Rightarrow> 'v"
  assumes notify: "V (notify s) = V s" and upd: "V (upd_tunnel n f s) = V s"
    and ports: "V (s\<lparr>q_ports := np\<rparr>) = V s" and orphans: "V (s\<lparr>q_orphans := xs\<rparr>) = V s"
    and cancelled: "V (s\<lparr>q_cancelled := c\<rparr>) = V s" and ups: "V (s\<lparr>q_ups := us\<rparr>) = V s"
begin

lemmas base = notify upd ports orphans cancelled ups

lemma tunnel: "V (tunnel_end n s) = V s" "V (tunnel_cancel n s) = V s"
  by (auto simp: tunnel_end_def tunnel_cancel_def Let_def base split: option.splits tunnel_run.splits)

lemma bind: "V (snd (bindTunnel n s)) = V s"
  by (cases rule: bindTunnel_cases [of n s]) (simp_all add: bound_state_def Let_def base tunnel)

lemmas tunnels = tunnel bind

lemma unbind: "V (snd (unbindTunnel w n s)) = V s"
  by (simp add: unbindTunnel_def tunnels split: option.splits)

lemma spawn: "V (spawn_up n b s) = V s"
  by (simp add: spawn_up_def base split: option.splits)

lemma folds: "V (fold tunnel_end ns s) = V s" "V (fold tunnel_cancel ns s) = V s"
  by (rule fold_same, rule tunnels(1)) (rule fold_same, rule tunnels(2))

lemma cancel: "V (cancel_run r s) = V s"
  by (simp add: cancel_run_def Let_def base folds)

lemma act: "V (sync_act w a s) = V s"
  by (simp add: sync_act_def tunnels unbind split: prod.splits)

lemma calls:
  "V (snd (StopTunnel w n s)) = V s" "V (snd (StartTunnel n s)) = V s" "V (snd (ConnectUpstream n s)) = V s"
  by (simp_all add: StopTunnel_def StartTunnel_def ConnectUpstream_def Let_def base unbind spawn tunnels
      split: option.splits sum.splits)

end

definition same_conns :: "ctl \<Rightarrow> ctl \<Rightarrow> bool" where
  "same_conns s s' \<longleftrightarrow> q_conns s' = q_conns s \<and> q_approvals s' = q_approvals s"

interpretation conns: ctl_frame "\<lambda>s. (q_conns s, q_approvals s)"
  by unfold_locales (auto simp: notify_def upd_tunnel_def split: option.splits)

lemma same_conns_trans: "same_conns s s' \<Longrightarrow> same_conns s' s'' \<Longrightarrow> same_conns s s''"
  by (simp add: same_conns_def)

lemma same_conns_base [simp]:
  "same_conns s s" "same_conns s (notify s') = same_conns s s'" "same_conns s (upd_tunnel n f s') = same_conns s s'"
  "same_conns s (s'\<lparr>q_syncs := x1\<rparr>) = same_conns s s'" "same_conns s (s'\<lparr>q_queue := x2\<rparr>) = same_conns s s'"
  "same_conns s (s'\<lparr>q_ups := x3\<rparr>) = same_conns s s'" "same_conns s (s'\<lparr>q_ports := x4\<rparr>) = same_conns s s'"
  "same_conns s (s'\<lparr>q_subs := x6\<rparr>) = same_conns s s'" "same_conns s (s'\<lparr>q_state := x7\<rparr>) = same_conns s s'"
  "same_conns s (s'\<lparr>q_listen := x8\<rparr>) = same_conns s s'" "same_conns s (s'\<lparr>q_lastErr := x9\<rparr>) = same_conns s s'"
  "same_conns s (s'\<lparr>q_serving := x11\<rparr>) = same_conns s s'" "same_conns s (s'\<lparr>q_manualOnly := x16\<rparr>) = same_conns s s'"
  by (simp_all add: same_conns_def notify_def upd_tunnel_def split: option.splits)

lemma same_conns_ops [simp]:
  "same_conns s (tunnel_end n s)" "same_conns s (fold tunnel_end ns s)" "same_conns s (cancel_run r s)"
  "same_conns s (sync_act w a s)" "same_conns s (snd (StopTunnel w n s))" "same_conns s (snd (StartTunnel n s))"
  "same_conns s (snd (ConnectUpstream n s))"
  using conns.tunnels(1) [of n s] conns.folds(1) [of ns s] conns.cancel [of r s] conns.act [of w a s]
    conns.calls(1) [of w n s] conns.calls(2) [of n s] conns.calls(3) [of n s]
  by (simp_all add: same_conns_def)

section \<open>Invariants of the connections\<close>

text \<open>
  A connection changes state, is held by \<open>Down\<close>, or is released or set to manual, which changes neither
  its state nor whether it waits for an approval. Whatever these three preserve, every step does.
\<close>

locale conn_invariant =
  fixes I :: "(nat \<Rightarrow> string \<Rightarrow> conn_dialer) \<Rightarrow> bool list \<Rightarrow> bool"
  assumes init: "I (\<lambda>_ _. \<lparr>cd_state = ConnUnknown, cd_held = False, cd_manual = False, cd_pending = False\<rparr>) []"
    and state: "I (q_conns s) (q_approvals s) \<Longrightarrow> (st = ConnConnected \<Longrightarrow> \<not> cd_held (q_conns s r n)) \<Longrightarrow>
      I (q_conns (set_conn_state b r n st s)) (q_approvals (set_conn_state b r n st s))"
    and down: "I (q_conns s) (q_approvals s) \<Longrightarrow> I (q_conns (conn_Down r n d s)) (q_approvals (conn_Down r n d s))"
    and free: "I (q_conns s) (q_approvals s) \<Longrightarrow> (\<And>c. cd_state (f c) = cd_state c \<and> cd_pending (f c) = cd_pending c
      \<and> (cd_held (f c) \<longrightarrow> cd_held c)) \<Longrightarrow> I (q_conns (upd_conn r n f s)) (q_approvals (upd_conn r n f s))"
begin

definition inv :: "ctl \<Rightarrow> bool" where
  "inv s \<longleftrightarrow> I (q_conns s) (q_approvals s)"

lemma inv_same: "inv s \<Longrightarrow> same_conns s s' \<Longrightarrow> inv s'"
  by (simp add: inv_def same_conns_def)

lemma inv_simps: "same_conns s s' \<Longrightarrow> inv s' = inv s"
  by (simp add: inv_def same_conns_def)

lemma inv_ops:
  "inv s \<Longrightarrow> st \<noteq> ConnConnected \<or> \<not> cd_held (q_conns s r n) \<Longrightarrow> inv (set_conn_state b r n st s)"
  "inv s \<Longrightarrow> inv (conn_Down r n d s)"
  "inv s \<Longrightarrow> (\<And>c. cd_state (f c) = cd_state c \<and> cd_pending (f c) = cd_pending c \<and> (cd_held (f c) \<longrightarrow> cd_held c))
     \<Longrightarrow> inv (upd_conn r n f s)"
  using state down free unfolding inv_def by blast+

lemma inv_folds:
  "inv s \<Longrightarrow> inv (applyAutoconnect r reg cfg s)" "inv s \<Longrightarrow> inv (close_registry r reg s)"
  "inv s \<Longrightarrow> inv (downDependents r n s)"
proof -
  assume i: "inv s"
  show "inv (applyAutoconnect r reg cfg s)"
    unfolding applyAutoconnect_def by (rule fold_inv [where I = inv]) (auto simp: i intro!: inv_ops(3))
  show "inv (close_registry r reg s)"
    unfolding close_registry_def by (rule fold_inv [where I = inv]) (auto simp: i intro!: inv_ops(1))
  have "inv (fold (\<lambda>n s. case reg_connDialer (q_reg s) n of None \<Rightarrow> s | Some d \<Rightarrow> conn_Down r n d s) ns s)" for ns
    by (rule fold_inv [where I = inv]) (auto simp: i intro!: inv_ops(2) split: option.splits)
  moreover have "inv (notify s) = inv s" for s by (rule inv_simps) simp
  ultimately show "inv (downDependents r n s)"
    using i by (simp add: downDependents_def split: option.splits)
qed

lemma inv_start:
  assumes "inv s"
  shows "inv (snd (Start_finish env s))"
proof -
  have f: "inv (fail e (s\<lparr>q_ports := np\<rparr>))" for e np
    by (rule inv_same [OF assms]) (simp add: fail_def same_conns_def notify_def)
  have "inv (Start_run cfg reg srv ts np s)" for cfg reg srv ts np
  proof -
    let ?s = "notify (s\<lparr>q_next := Suc (q_next s), q_cancel := Some (q_next s), q_listen := srv_addr srv, q_tunnels := ts,
        q_run := Some (q_next s), q_reg := Some reg, q_cfg := Some cfg, q_state := StateRunning, q_ports := np\<rparr>)"
    have "inv (applyAutoconnect (q_next s) reg cfg ?s)"
      by (rule inv_folds(1), rule inv_same [OF assms]) (simp add: same_conns_def notify_def)
    then show ?thesis unfolding Start_run_def Let_def by (rule inv_same) simp
  qed
  moreover have "inv (fail e s)" for e using f [of e "q_ports s"] by simp
  ultimately show ?thesis using f unfolding Start_finish_def Let_def by (auto split: sum.splits prod.splits)
qed

lemma inv_proxy_end: "inv s \<Longrightarrow> inv (proxy_end r reg err s)"
proof -
  assume i: "inv s"
  define s1 where "s1 = (if err \<noteq> None \<and> \<not> q_cancelled s r then cancel_run r s else s)"
  define s2 where "s2 = (if q_state s1 = StateRunning
      then (if err \<noteq> None \<and> \<not> q_cancelled s r
            then s1\<lparr>q_state := StateError, q_lastErr := map_option ServeFailed err, q_listen := []\<rparr>
            else s1\<lparr>q_state := StateStopped, q_listen := []\<rparr>)
      else s1)"
  have "same_conns s s1" by (simp add: s1_def)
  then have "same_conns s (notify s2)" by (simp add: s2_def)
  then have "inv (close_registry r reg (notify s2))" by (rule inv_folds(2) [OF inv_same [OF i]])
  then show ?thesis
    unfolding proxy_end_def Let_def s1_def [symmetric] s2_def [symmetric] by (rule inv_same) simp
qed

lemma inv_Stop: "inv s \<Longrightarrow> inv (snd (Stop w s))"
proof -
  assume i: "inv s"
  define s1 where "s1 = (case q_cancel s of None \<Rightarrow> s | Some r \<Rightarrow> cancel_run r s)"
  have s1: "same_conns s s1" by (simp add: s1_def split: option.splits)
  have s2: "inv (fold tunnel_end ns s1)" for ns
    by (rule inv_same [OF i same_conns_trans [OF s1 same_conns_ops(2)]])
  have e: "inv (s'\<lparr>q_tunnels := [], q_reg := None, q_cfg := None, q_run := None\<rparr>) = inv s'" for s'
    by (simp add: inv_def)
  show ?thesis
    unfolding Stop_def Let_def s1_def [symmetric]
    by (simp add: e i s2 inv_proxy_end split: option.splits prod.splits)
qed

lemma inv_step:
  assumes i: "inv s" and e: "ctl_step e s = Some s'"
  shows "inv s'"
proof (cases e)
  case EvStartBegin
  with e have "same_conns s s'" by (auto simp: Start_begin_def split: if_splits)
  then show ?thesis by (rule inv_same [OF i])
next
  case (EvStartFinish env)
  with e inv_start [OF i, of env] show ?thesis by (auto split: if_splits)
next
  case (EvAutoconnect on)
  let ?s = "s\<lparr>q_manualOnly := \<not> on\<rparr>"
  have s: "inv ?s" by (rule inv_same [OF i]) simp
  define s1 where "s1 = (case (q_cfg ?s, q_reg ?s, q_run ?s) of
      (Some cfg, Some reg, Some r) \<Rightarrow> applyAutoconnect r reg cfg ?s | _ \<Rightarrow> ?s)"
  have "inv s1" using inv_folds(1) [OF s] s by (simp add: s1_def split: option.split)
  moreover have "ctl_SetAutoconnect on s = notify s1"
    by (simp only: ctl_SetAutoconnect_def Let_def s1_def)
  then have "s' = notify s1" using EvAutoconnect e by simp
  then have "same_conns s1 s'" by simp
  ultimately show ?thesis by (rule inv_same)
next
  case (EvDisconnect n)
  with e i show ?thesis
    by (auto simp: DisconnectUpstream_def intro!: inv_folds(3) inv_ops(2) split: sum.splits option.splits)
next
  case (EvStop w)
  with e inv_Stop [OF i, of w] show ?thesis by auto
next
  case (EvUpNext k)
  have "inv (up_next s u)" for u
    using i by (auto simp: up_next_def Let_def intro!: inv_ops(3) split: option.splits)
  moreover from EvUpNext e obtain x u where "s' = (up_next s u)\<lparr>q_ups := x\<rparr>" by (auto split: if_splits)
  ultimately show ?thesis by (simp add: inv_def)
next
  case (ConnChange r n b st)
  with e i show ?thesis by (auto intro!: inv_ops(1) split: if_splits)
next
  case (Dropped r n)
  with e i inv_folds(3) show ?thesis by (auto simp: upstreamDropped_def split: if_splits)
next
  case (ProxyServeEnds r err)
  with e i inv_proxy_end show ?thesis by (auto split: option.splits if_splits)
next
  case SyncDecide
  with e have "same_conns s s'" by (auto split: list.splits if_splits)
  then show ?thesis by (rule inv_same [OF i])
next
  case (SyncAct w)
  with e have "same_conns s s'" by (auto split: list.splits)
  then show ?thesis by (rule inv_same [OF i])
next
  case (EvUpReturn k)
  with e have "same_conns s s'" by (auto simp: up_return_def split: if_splits)
  then show ?thesis by (rule inv_same [OF i])
qed (rule inv_same [OF i], use e in \<open>force simp: Subscribe_def Unsubscribe_def split: if_splits\<close>)+

lemma holds: "ctl_reach path np s \<Longrightarrow> I (q_conns s) (q_approvals s)"
proof (induction rule: reachable.induct)
  case reach_init
  show ?case using init by (simp add: ctl_New_def)
next
  case (reach_step s e s')
  then show ?case using inv_step [of s e s'] by (simp add: inv_def)
qed

end

text \<open>A connection that is held is not connected.\<close>

interpretation held: conn_invariant "\<lambda>C _. \<forall>r n. cd_held (C r n) \<longrightarrow> cd_state (C r n) \<noteq> ConnConnected"
proof
  show "\<forall>r' n'. cd_held (q_conns (set_conn_state b r n st s) r' n') \<longrightarrow>
      cd_state (q_conns (set_conn_state b r n st s) r' n') \<noteq> ConnConnected"
    if "\<forall>r n. cd_held (q_conns s r n) \<longrightarrow> cd_state (q_conns s r n) \<noteq> ConnConnected"
      "st = ConnConnected \<Longrightarrow> \<not> cd_held (q_conns s r n)" for s st r n b
    using that by (auto simp: set_conn_state_conn)
  show "\<forall>r' n'. cd_held (q_conns (conn_Down r n d s) r' n') \<longrightarrow> cd_state (q_conns (conn_Down r n d s) r' n') \<noteq> ConnConnected"
    if "\<forall>r n. cd_held (q_conns s r n) \<longrightarrow> cd_state (q_conns s r n) \<noteq> ConnConnected" for s r n d
    using that by (auto simp: conn_Down_def set_conn_state_conn)
qed auto

section \<open>internal/menubar/foreground.go\<close>

text \<open>
  \<open>foreground\<close>: the app comes to the front for the first pending approval and hides after the last.
  \<open>fg_hidden\<close> counts the calls of \<open>Hide\<close>. What \<open>activateApp\<close> reports is \<open>None\<close> when the main thread does
  not run it in time, and 0 when the app was active already.
\<close>

record foreground =
  fg_pending :: nat
  fg_activated :: bool
  fg_hidden :: nat

definition newForeground :: foreground where
  "newForeground = \<lparr>fg_pending = 0, fg_activated = False, fg_hidden = 0\<rparr>"

definition activate :: "nat option \<Rightarrow> foreground \<Rightarrow> foreground" where
  "activate via f = (case via of None \<Rightarrow> f | Some v \<Rightarrow> if v = 0 then f else f\<lparr>fg_activated := True\<rparr>)"

definition fg_set :: "nat option \<Rightarrow> bool \<Rightarrow> foreground \<Rightarrow> foreground" where
  "fg_set via pending f =
     (if pending then
        (let f = f\<lparr>fg_pending := Suc (fg_pending f)\<rparr>
         in if fg_pending f = 1 then activate via f else f)
      else
        (let f = (if fg_pending f > 0 then f\<lparr>fg_pending := fg_pending f - 1\<rparr> else f)
         in if fg_pending f = 0 \<and> fg_activated f then f\<lparr>fg_activated := False, fg_hidden := Suc (fg_hidden f)\<rparr> else f))"

definition fg_run :: "(nat \<Rightarrow> nat option) \<Rightarrow> bool list \<Rightarrow> foreground" where
  "fg_run via ps = fold (\<lambda>(i, p). fg_set (via i) p) (indexed ps) newForeground"

lemma fg_run_snoc: "fg_run via (ps @ [p]) = fg_set (via (length ps)) p (fg_run via ps)"
  by (simp add: fg_run_def indexed_def)

lemma fg_pending_set:
  "fg_pending (fg_set via p f) = (if p then Suc (fg_pending f) else fg_pending f - 1)"
  by (auto simp: fg_set_def activate_def Let_def split: option.splits)

lemma fg_run_activated: "fg_activated (fg_run via ps) \<longrightarrow> fg_pending (fg_run via ps) > 0"
proof (induction ps rule: rev_induct)
  case Nil
  show ?case by (simp add: fg_run_def indexed_def newForeground_def)
next
  case (snoc p ps)
  then show ?case by (auto simp: fg_run_snoc fg_set_def activate_def Let_def split: option.splits if_splits)
qed

text \<open>The connections that wait for an approval, and the count of them.\<close>

definition pendings :: "(nat \<Rightarrow> string \<Rightarrow> conn_dialer) \<Rightarrow> (nat \<times> string) set" where
  "pendings C = {(r, n). cd_pending (C r n)}"

definition counts :: "(nat \<Rightarrow> nat option) \<Rightarrow> (nat \<Rightarrow> string \<Rightarrow> conn_dialer) \<Rightarrow> bool list \<Rightarrow> bool" where
  "counts via C ps \<longleftrightarrow> finite (pendings C) \<and> fg_pending (fg_run via ps) = card (pendings C)"

lemma pendings_upd:
  "pendings (q_conns (upd_conn r n (\<lambda>c. c\<lparr>cd_pending := p\<rparr>) s)) =
     (if p then insert (r, n) (pendings (q_conns s)) else pendings (q_conns s) - {(r, n)})"
  by (auto simp: pendings_def upd_conn_def split: if_splits)

lemma pendings_same: "(\<And>c. cd_pending (f c) = cd_pending c) \<Longrightarrow> pendings (q_conns (upd_conn r n f s)) = pendings (q_conns s)"
  by (simp add: pendings_def upd_conn_def set_eq_iff)

lemma approvals_base [simp]:
  "q_approvals (notify s) = q_approvals s" "q_approvals (upd_conn r n f s) = q_approvals s"
  by (simp_all add: notify_def upd_conn_def)

lemma counts_changed:
  assumes "counts via (q_conns s) (q_approvals s)"
  shows "counts via (q_conns (sshStateChanged r n s)) (q_approvals (sshStateChanged r n s))"
proof -
  define p where "p \<longleftrightarrow> cd_state (q_conns s r n) = ConnAwaitingApproval"
  show ?thesis
  proof (cases "cd_pending (q_conns s r n) = p")
    case True
    then have "sshStateChanged r n s = notify s" by (simp add: sshStateChanged_def p_def)
    with assms show ?thesis by simp
  next
    case False
    then have s: "sshStateChanged r n s = notify ((upd_conn r n (\<lambda>c. c\<lparr>cd_pending := p\<rparr>) s)\<lparr>q_approvals := q_approvals s @ [p]\<rparr>)"
      by (simp add: sshStateChanged_def Let_def p_def)
    have "(r, n) \<in> pendings (q_conns s) \<longleftrightarrow> \<not> p" using False by (auto simp: pendings_def)
    then show ?thesis
      using assms unfolding s counts_def
      by (auto simp: pendings_upd fg_run_snoc fg_pending_set card_Diff_singleton split: if_splits)
  qed
qed

interpretation pend: conn_invariant "counts via" for via
proof
  show "counts via (\<lambda>_ _. \<lparr>cd_state = ConnUnknown, cd_held = False, cd_manual = False, cd_pending = False\<rparr>) []"
    by (simp add: counts_def pendings_def fg_run_def indexed_def newForeground_def)
  have upd: "counts via (q_conns (upd_conn r n f s)) (q_approvals (upd_conn r n f s))"
    if "counts via (q_conns s) (q_approvals s)" "\<And>c. cd_pending (f c) = cd_pending c" for s r n f
    using that by (simp add: counts_def pendings_same)
  have set: "counts via (q_conns (set_conn_state b r n st s)) (q_approvals (set_conn_state b r n st s))"
    if "counts via (q_conns s) (q_approvals s)" for s b r n st
    using that counts_changed [OF upd [OF that, of "\<lambda>c. c\<lparr>cd_state := st\<rparr>" r n]] upd [OF that, of "\<lambda>c. c\<lparr>cd_state := st\<rparr>" r n]
    by (simp add: set_conn_state_def Let_def)
  then show "counts via (q_conns (set_conn_state b r n st s)) (q_approvals (set_conn_state b r n st s))"
    if "counts via (q_conns s) (q_approvals s)" for s b r n st using that .
  show "counts via (q_conns (conn_Down r n d s)) (q_approvals (conn_Down r n d s))"
    if "counts via (q_conns s) (q_approvals s)" for s r n d
    unfolding conn_Down_def by (rule set, rule upd) (use that in auto)
  show "counts via (q_conns (upd_conn r n f s)) (q_approvals (upd_conn r n f s))"
    if "counts via (q_conns s) (q_approvals s)" "\<And>c. cd_state (f c) = cd_state c \<and> cd_pending (f c) = cd_pending c
      \<and> (cd_held (f c) \<longrightarrow> cd_held c)" for s r n f
    using that by (intro upd) auto
qed

section \<open>Properties\<close>

text \<open>The app is kept in front for as long as an ssh connection waits for an approval: in every reachable
  state of the controller the pending count of the foreground is the number of waiting connections,
  whatever order they started and stopped waiting in, and it is only activated while one waits.\<close>

theorem foreground_counts_approvals:
  fixes via :: "nat \<Rightarrow> nat option"
  assumes "ctl_reach path np s"
  defines "f \<equiv> fg_run via (q_approvals s)" and "waiting \<equiv> {(r, n). cd_pending (q_conns s r n)}"
  shows "finite waiting \<and> fg_pending f = card waiting \<and> (fg_activated f \<longrightarrow> waiting \<noteq> {})"
proof -
  have c: "finite waiting \<and> fg_pending f = card waiting"
    using pend.holds [OF assms(1), of via] by (simp add: counts_def pendings_def f_def waiting_def)
  have "fg_activated f \<longrightarrow> fg_pending f > 0" unfolding f_def by (rule fg_run_activated)
  with c show ?thesis by auto
qed

lemma foreground_counts_approvals_witness:
  "\<exists>s. run_events ctl_step [EvStartBegin, EvStartFinish sample_start, ConnChange 0 ''jump'' True ConnAwaitingApproval]
      sample_ctl = Some s
     \<and> fg_pending (fg_run (\<lambda>_. Some 1) (q_approvals s)) = card {(r, n). cd_pending (q_conns s r n)} \<and> q_approvals s = [True]"
proof -
  let ?run = "run_events ctl_step [EvStartBegin, EvStartFinish sample_start, ConnChange 0 ''jump'' True ConnAwaitingApproval]
      sample_ctl"
  have "map_option q_approvals ?run = Some [True]" by code_simp
  then obtain s where s: "?run = Some s" "q_approvals s = [True]" by auto
  from foreground_counts_approvals [OF run_reachable [OF s(1) [unfolded sample_ctl_def]], of "\<lambda>_. Some 1"] s
  show ?thesis by auto
qed

end
