(* ===== verification/Connection.thy ===== *)
theory Connection
  imports ControllerConns
begin

text \<open>
  The contract of a shared connection, which the ssh client (\<open>pkg/sshclient/client.go\<close>), the VPN client
  (\<open>pkg/openconnect/client.go\<close>) and the controller's idea of them (\<open>internal/menubar/controller.go\<close>)
  have in common: a state, and whether it is held down. The three machines implement it by a
  simulation each, so what the contract gives holds of all of them.
\<close>

section \<open>The contract\<close>

text \<open>
  \<open>Down\<close> ends with the connection held down and not connected; while it is held it may change its
  state, but not to connected, and only \<open>Up\<close> ends that.
\<close>

datatype conn_event = CUp | CDown conn_state | CChange conn_state

fun conn_spec :: "conn_event \<Rightarrow> bool \<times> conn_state \<Rightarrow> (bool \<times> conn_state) option" where
  "conn_spec CUp (held, st) = Some (False, st)"
| "conn_spec (CDown st') (held, st) = (if st' = ConnConnected then None else Some (True, st'))"
| "conn_spec (CChange st') (held, st) = (if held \<and> st' = ConnConnected then None else Some (held, st'))"

abbreviation conn_start :: "bool \<times> conn_state" where
  "conn_start \<equiv> (False, ConnUnknown)"

lemma conn_spec_safe:
  "conn_spec e c = Some c' \<Longrightarrow> (fst c \<longrightarrow> snd c \<noteq> ConnConnected) \<Longrightarrow> fst c' \<longrightarrow> snd c' \<noteq> ConnConnected"
  by (cases c; cases e) (auto split: if_splits)

lemma conn_spec_held: "conn_spec e c = Some c' \<Longrightarrow> e \<noteq> CUp \<Longrightarrow> fst c \<Longrightarrow> fst c'"
  by (cases c; cases e) (auto split: if_splits)

lemma conn_run_held: "run_events conn_spec es c = Some c' \<Longrightarrow> CUp \<notin> set es \<Longrightarrow> fst c \<Longrightarrow> fst c'"
  by (induction es arbitrary: c) (auto split: option.splits dest: conn_spec_held)

interpretation conn_safe: machine_invariant conn_spec conn_start "\<lambda>c. fst c \<longrightarrow> snd c \<noteq> ConnConnected"
  by unfold_locales (auto dest: conn_spec_safe)

text \<open>A view a step does not change, or changes by one event of the contract.\<close>

definition conn_move :: "bool \<Rightarrow> bool \<times> conn_state \<Rightarrow> bool \<times> conn_state \<Rightarrow> bool" where
  "conn_move up c c' \<longleftrightarrow> (\<exists>es. run_events conn_spec es c = Some c' \<and> (CUp \<in> set es \<longrightarrow> up))"

lemma conn_move_same [simp]: "conn_move up c c"
  unfolding conn_move_def by (intro exI [of _ "[]"]) simp

lemma conn_move_step: "conn_spec e c = Some c' \<Longrightarrow> (e = CUp \<Longrightarrow> up) \<Longrightarrow> conn_move up c c'"
  unfolding conn_move_def by (intro exI [of _ "[e]"]) auto

lemma conn_move_trans:
  assumes "conn_move up c c'" "conn_move up c' c''"
  shows "conn_move up c c''"
proof -
  obtain es es' where "run_events conn_spec es c = Some c'" "CUp \<in> set es \<longrightarrow> up"
    "run_events conn_spec es' c' = Some c''" "CUp \<in> set es' \<longrightarrow> up"
    using assms unfolding conn_move_def by blast
  then show ?thesis unfolding conn_move_def by (intro exI [of _ "es @ es'"]) (auto simp: run_events_append)
qed

text \<open>What a change of the two fields amounts to.\<close>

lemma conn_moveI:
  assumes "fst c' \<Longrightarrow> snd c' \<noteq> ConnConnected" "fst c \<Longrightarrow> \<not> fst c' \<Longrightarrow> up"
  shows "conn_move up c c'"
proof -
  obtain h st h' st' where c: "c = (h, st)" "c' = (h', st')" by (cases c; cases c')
  consider "h'" | "h" "\<not> h'" | "\<not> h" "\<not> h'" by blast
  then show ?thesis
  proof cases
    case 1
    then show ?thesis using assms(1) by (intro conn_move_step [of "CDown st'"]) (simp_all add: c)
  next
    case 2
    then have "up" using assms(2) by (simp add: c)
    then have "conn_move up (h, st) (False, st)" "conn_move up (False, st) (False, st')"
      by (auto intro: conn_move_step [of CUp] conn_move_step [of "CChange st'"])
    then show ?thesis using 2 conn_move_trans by (auto simp: c)
  next
    case 3
    then show ?thesis by (intro conn_move_step [of "CChange st'"]) (simp_all add: c)
  qed
qed

section \<open>Machines that implement it\<close>

text \<open>Whether a run has no step at which \<open>P\<close> holds.\<close>

fun avoids :: "('e \<Rightarrow> 's \<Rightarrow> 's option) \<Rightarrow> ('e \<Rightarrow> 's \<Rightarrow> bool) \<Rightarrow> 'e list \<Rightarrow> 's \<Rightarrow> bool" where
  "avoids step P [] s = True"
| "avoids step P (e # es) s =
     (\<not> P e s \<and> (case step e s of None \<Rightarrow> True | Some s' \<Rightarrow> avoids step P es s'))"

locale connection =
  fixes step :: "'e \<Rightarrow> 's \<Rightarrow> 's option"
    and init :: 's
    and view :: "'s \<Rightarrow> bool \<times> conn_state"
    and ups :: "'e \<Rightarrow> 's \<Rightarrow> bool"
  assumes starts: "view init = conn_start"
    and moves: "reachable step init s \<Longrightarrow> step e s = Some s' \<Longrightarrow> conn_move (ups e s) (view s) (view s')"
begin

lemma refines: "reachable step init s \<Longrightarrow> reachable conn_spec conn_start (view s)"
proof (induction rule: reachable.induct)
  case reach_init
  then show ?case by (simp add: starts reachable.reach_init)
next
  case (reach_step s e s')
  from moves [OF reach_step.hyps] obtain es where "run_events conn_spec es (view s) = Some (view s')"
    unfolding conn_move_def by blast
  with reach_step.IH show ?case by (rule run_events_reachable)
qed

lemma held_not_connected: "reachable step init s \<Longrightarrow> fst (view s) \<Longrightarrow> snd (view s) \<noteq> ConnConnected"
  using conn_safe.holds [OF refines] by blast

lemma stays_held:
  "reachable step init s \<Longrightarrow> fst (view s) \<Longrightarrow> run_events step es s = Some s' \<Longrightarrow> avoids step ups es s
     \<Longrightarrow> fst (view s') \<and> snd (view s') \<noteq> ConnConnected"
proof (induction es arbitrary: s)
  case Nil
  then show ?case using held_not_connected by simp
next
  case (Cons e es)
  then obtain s1 where s1: "step e s = Some s1" "run_events step es s1 = Some s'" "avoids step ups es s1"
    and u: "\<not> ups e s" by (auto split: option.splits)
  from moves [OF Cons.prems(1) s1(1)] u obtain ces
    where "run_events conn_spec ces (view s) = Some (view s1)" "CUp \<notin> set ces"
    unfolding conn_move_def by blast
  then have "fst (view s1)" using conn_run_held Cons.prems(2) by blast
  with Cons.IH s1 reach_step [OF Cons.prems(1) s1(1)] show ?case by blast
qed

end

section \<open>The ssh client\<close>

text \<open>Held down: the user's \<open>Down\<close> is in force and there is no connection and no dial left.\<close>

definition ssh_view :: "ssh_st \<Rightarrow> bool \<times> conn_state" where
  "ssh_view s = (k_held s \<and> k_cli s = None \<and> k_abort s = None \<and> k_state s \<noteq> ConnConnected, k_state s)"

definition ssh_ups :: "ssh_event \<Rightarrow> ssh_st \<Rightarrow> bool" where
  "ssh_ups e s \<longleftrightarrow> (case e of Run t \<Rightarrow> k_pc s t = UpStart | _ \<Rightarrow> False)"

lemma ssh_view_move:
  assumes "k_held s \<Longrightarrow> k_cli s = None \<Longrightarrow> k_abort s = None \<Longrightarrow> k_state s \<noteq> ConnConnected \<Longrightarrow> \<not> up \<Longrightarrow>
     k_held s' \<and> k_cli s' = None \<and> k_abort s' = None \<and> k_state s' \<noteq> ConnConnected"
  shows "conn_move up (ssh_view s) (ssh_view s')"
  using assms by (cases up) (auto simp: ssh_view_def intro!: conn_moveI)

lemma ssh_conn_fields [simp]:
  "k_held (goto t p s) = k_held s" "k_state (goto t p s) = k_state s" "k_held (unlock s) = k_held s"
  "k_state (unlock s) = k_state s" "k_abort (unlock s) = k_abort s" "k_held (close_conn_id c s) = k_held s"
  "k_cli (close_conn_id c s) = k_cli s" "k_abort (close_conn_id c s) = k_abort s"
  "k_state (close_conn_id c s) = k_state s" "k_held (drop_cli s) = k_held s" "k_abort (drop_cli s) = k_abort s"
  "k_cli (drop_cli s) = None" "k_state (drop_cli s) = k_state s" "k_held (forget_cli c s) = k_held s" "k_abort (forget_cli c s) = k_abort s"
  by (simp_all add: goto_def unlock_def close_conn_id_def drop_cli_def forget_cli_def split: option.splits)

lemma forget_view: "k_cli s = None \<Longrightarrow> forget_cli c s = s"
  by (simp add: forget_cli_def)

lemma ssh_view_run:
  assumes M: "mu_inv s" and r: "ssh_run t s = Some s'"
  shows "conn_move (k_pc s t = UpStart) (ssh_view s) (ssh_view s')"
proof (rule ssh_view_move)
  assume h: "k_held s" "k_cli s = None" "k_abort s = None" "k_state s \<noteq> ConnConnected" and u: "k_pc s t \<noteq> UpStart"
  have "\<not> published (k_pc s t)" using M h(3) by (auto simp: mu_inv_def)
  then show "k_held s' \<and> k_cli s' = None \<and> k_abort s' = None \<and> k_state s' \<noteq> ConnConnected"
    using r h u by (cases "k_pc s t")
      (auto simp: ssh_run_eq return_get_def forget_view split: if_splits option.splits)
qed

lemma ssh_view_step:
  assumes M: "mu_inv s" and e: "ssh_step e s = Some s'"
  shows "conn_move (ssh_ups e s) (ssh_view s) (ssh_view s')"
proof (cases e)
  case (Run t)
  then show ?thesis using ssh_view_run [OF M, of t s'] e by (simp add: ssh_ups_def)
next
  case (Watched c)
  with e show ?thesis by (intro ssh_view_move) (auto simp: forget_view split: if_splits)
next
  case (Channel t out)
  with e show ?thesis by (intro ssh_view_move) (auto split: if_splits pc.splits chan_outcome.splits)
qed (use e in \<open>auto simp: call_def split: if_splits pc.splits intro!: ssh_view_move\<close>)

interpretation ssh_conn: connection ssh_step ssh_init ssh_view ssh_ups
proof
  show "ssh_view ssh_init = conn_start" by (simp add: ssh_view_def ssh_init_def)
  show "conn_move (ssh_ups e s) (ssh_view s) (ssh_view s')" if "ssh_reach s" "ssh_step e s = Some s'" for e s s'
    using that ssh_view_step ssh_mu.holds by blast
qed

section \<open>The VPN client\<close>

definition vpn_view :: "vpn_st \<Rightarrow> bool \<times> conn_state" where
  "vpn_view s = (n_held s \<and> n_proc s = None \<and> n_abort s = None \<and> n_state s \<noteq> ConnConnected, n_state s)"

definition vpn_ups :: "vpn_event \<Rightarrow> vpn_st \<Rightarrow> bool" where
  "vpn_ups e s \<longleftrightarrow> (case e of VRun t \<Rightarrow> n_pc s t = VUp | _ \<Rightarrow> False)"

lemma vpn_view_move:
  assumes "n_held s \<Longrightarrow> n_proc s = None \<Longrightarrow> n_abort s = None \<Longrightarrow> n_state s \<noteq> ConnConnected \<Longrightarrow> \<not> up \<Longrightarrow>
     n_held s' \<and> n_proc s' = None \<and> n_abort s' = None \<and> n_state s' \<noteq> ConnConnected"
  shows "conn_move up (vpn_view s) (vpn_view s')"
  using assms by (cases up) (auto simp: vpn_view_def intro!: conn_moveI)

lemma vpn_conn_fields [simp]:
  "n_state (vgo t q s) = n_state s" "n_state (vset p f s) = n_state s" "n_state (stop_mark p s) = n_state s"
  by (simp_all add: vgo_def vset_def stop_mark_def)

lemma vpn_view_run:
  assumes M: "vmu_inv s" and r: "vpn_run t s = Some s'"
  shows "conn_move (n_pc s t = VUp) (vpn_view s) (vpn_view s')"
proof (rule vpn_view_move)
  assume h: "n_held s" "n_proc s = None" "n_abort s = None" "n_state s \<noteq> ConnConnected" and u: "n_pc s t \<noteq> VUp"
  have "\<not> vpublished (n_pc s t)" "stops (n_pc s t) \<noteq> Some p" for p using M h by (auto simp: vmu_inv_def)
  then show "n_held s' \<and> n_proc s' = None \<and> n_abort s' = None \<and> n_state s' \<noteq> ConnConnected"
    using r h u by (cases "n_pc s t") (auto simp: vpn_run_defs split: if_splits option.splits)
qed

lemma vpn_view_step:
  assumes M: "vmu_inv s" and e: "vpn_step e s = Some s'"
  shows "conn_move (vpn_ups e s) (vpn_view s) (vpn_view s')"
proof (cases e)
  case (VRun t)
  then show ?thesis using vpn_view_run [OF M, of t s'] e by (simp add: vpn_ups_def)
next
  case (Poll t k)
  with e show ?thesis
    by (cases k) (auto simp: start_poll_def stop_mark_def split: if_splits vpc.splits intro!: vpn_view_move)
qed (use e in \<open>auto dest!: vcall_cases split: if_splits proc_stat.splits intro!: vpn_view_move\<close>)

interpretation vpn_conn: connection vpn_step vpn_init vpn_view vpn_ups
proof
  show "vpn_view vpn_init = conn_start" by (simp add: vpn_view_def vpn_init_def)
  show "conn_move (vpn_ups e s) (vpn_view s) (vpn_view s')" if "vpn_reach s" "vpn_step e s = Some s'" for e s s'
    using that vpn_view_step vpn_mu.holds by blast
qed

section \<open>The controller's connections\<close>

definition ctl_view :: "nat \<Rightarrow> string \<Rightarrow> ctl \<Rightarrow> bool \<times> conn_state" where
  "ctl_view r n s = (cd_held (q_conns s r n), cd_state (q_conns s r n))"

definition ctl_ups :: "ctl_event \<Rightarrow> ctl \<Rightarrow> bool" where
  "ctl_ups e s \<longleftrightarrow> (case e of EvUpNext _ \<Rightarrow> True | _ \<Rightarrow> False)"

lemma ctl_view_updates [simp]:
  "ctl_view r n (s\<lparr>q_cfgPath := x0\<rparr>) = ctl_view r n s" "ctl_view r n (s\<lparr>q_state := x1\<rparr>) = ctl_view r n s"
  "ctl_view r n (s\<lparr>q_listen := x2\<rparr>) = ctl_view r n s" "ctl_view r n (s\<lparr>q_tunnels := x3\<rparr>) = ctl_view r n s"
  "ctl_view r n (s\<lparr>q_run := x4\<rparr>) = ctl_view r n s" "ctl_view r n (s\<lparr>q_reg := x5\<rparr>) = ctl_view r n s"
  "ctl_view r n (s\<lparr>q_cfg := x6\<rparr>) = ctl_view r n s" "ctl_view r n (s\<lparr>q_cancel := x7\<rparr>) = ctl_view r n s"
  "ctl_view r n (s\<lparr>q_lastErr := x8\<rparr>) = ctl_view r n s" "ctl_view r n (s\<lparr>q_subs := x9\<rparr>) = ctl_view r n s"
  "ctl_view r n (s\<lparr>q_manualOnly := x10\<rparr>) = ctl_view r n s" "ctl_view r n (s\<lparr>q_ports := x11\<rparr>) = ctl_view r n s"
  "ctl_view r n (s\<lparr>q_next := x12\<rparr>) = ctl_view r n s" "ctl_view r n (s\<lparr>q_cancelled := x13\<rparr>) = ctl_view r n s"
  "ctl_view r n (s\<lparr>q_serving := x14\<rparr>) = ctl_view r n s" "ctl_view r n (s\<lparr>q_orphans := x15\<rparr>) = ctl_view r n s"
  "ctl_view r n (s\<lparr>q_syncs := x16\<rparr>) = ctl_view r n s" "ctl_view r n (s\<lparr>q_queue := x17\<rparr>) = ctl_view r n s"
  "ctl_view r n (s\<lparr>q_ups := x18\<rparr>) = ctl_view r n s" "ctl_view r n (s\<lparr>q_approvals := x19\<rparr>) = ctl_view r n s"
  by (simp_all add: ctl_view_def)

lemma ctl_view_notify [simp]: "ctl_view r n (notify s) = ctl_view r n s"
  by (simp add: ctl_view_def)

lemma ctl_move_state:
  assumes "st = ConnConnected \<Longrightarrow> \<not> cd_held (q_conns s r' n')"
  shows "conn_move up (ctl_view r n s) (ctl_view r n (set_conn_state b r' n' st s))"
proof (cases "r = r' \<and> n = n'")
  case True
  then show ?thesis
    using assms by (intro conn_move_step [of "CChange st"]) (auto simp: ctl_view_def set_conn_state_conn)
qed (auto simp: ctl_view_def set_conn_state_conn)

lemma ctl_move_down: "conn_move up (ctl_view r n s) (ctl_view r n (conn_Down r' n' d s))"
proof (cases "r = r' \<and> n = n'")
  case True
  then show ?thesis
    by (intro conn_move_step [of "CDown ConnUnknown"]) (auto simp: ctl_view_def conn_Down_def set_conn_state_conn)
qed (auto simp: ctl_view_def conn_Down_def set_conn_state_conn)

lemma ctl_move_fold:
  assumes "\<And>x s. x \<in> set xs \<Longrightarrow> conn_move up (ctl_view r n s) (ctl_view r n (f x s))"
  shows "conn_move up (ctl_view r n s) (ctl_view r n (fold f xs s))"
  using assms by (induction xs arbitrary: s) (auto intro: conn_move_trans)

lemma ctl_move_dependents: "conn_move up (ctl_view r n s) (ctl_view r n (downDependents r' n' s))"
  unfolding downDependents_def
  by (auto intro!: ctl_move_fold ctl_move_down split: option.splits)

lemma ctl_move_registry: "conn_move up (ctl_view r n s) (ctl_view r n (close_registry r' reg s))"
  unfolding close_registry_def by (auto intro!: ctl_move_fold ctl_move_state split: prod.splits)

lemma proxy_end_conns:
  obtains s1 where "q_conns s1 = q_conns s" "q_conns (proxy_end r reg err s) = q_conns (close_registry r reg s1)"
  by (rule_tac that) (auto simp: proxy_end_def Let_def cancel_run_def fold_same [of _ q_conns])

lemma ctl_move_proxy: "conn_move up (ctl_view r n s) (ctl_view r n (proxy_end r' reg err s))"
proof -
  obtain s1 where "q_conns s1 = q_conns s" "q_conns (proxy_end r' reg err s) = q_conns (close_registry r' reg s1)"
    by (rule proxy_end_conns)
  then show ?thesis using ctl_move_registry [of up r n s1 r' reg] by (simp add: ctl_view_def)
qed

lemma ctl_view_auto [simp]: "ctl_view r n (applyAutoconnect r' reg cfg s) = ctl_view r n s"
  unfolding applyAutoconnect_def by (rule fold_same) (simp add: ctl_view_def)

lemma Start_run_conns: "ctl_view r n (Start_run cfg reg srv ts np s) = ctl_view r n s"
  by (simp add: Start_run_def Let_def)

lemma Start_finish_fails: "Start_finish env s = (Inl e, s') \<Longrightarrow> \<exists>np. s' = fail e (s\<lparr>q_ports := np\<rparr>)"
  unfolding Start_finish_def Let_def by (auto split: sum.splits prod.splits intro: exI [of _ "q_ports s"])

lemma Start_finish_conns: "ctl_view r n (snd (Start_finish env s)) = ctl_view r n s"
proof (cases "Start_finish env s")
  case (Pair res s')
  show ?thesis
  proof (cases res)
    case (Inl e)
    with Pair Start_finish_fails [of env s e s'] show ?thesis by (auto simp: fail_def ctl_view_def)
  next
    case (Inr u)
    from Start_finish_Inr [OF Pair [unfolded Inr]] obtain cfg reg srv ts np where
      "s' = Start_run cfg reg srv ts np s" by metis
    with Pair show ?thesis by (simp add: Start_run_conns)
  qed
qed

interpretation conn_view: ctl_frame "ctl_view r n" for r n
  by unfold_locales (simp_all add: ctl_view_def)

lemmas ctl_calls_view [simp] = conn_view.calls conn_view.act conn_view.tunnels

lemma ctl_subs_view [simp]:
  "ctl_view r n (up_return s u) = ctl_view r n s" "ctl_view r n (fst (Subscribe s)) = ctl_view r n s"
  "ctl_view r n (Unsubscribe i s) = ctl_view r n s"
  by (simp_all add: up_return_def Subscribe_def Unsubscribe_def)

lemma ctl_move_Stop: "conn_move up (ctl_view r n s) (ctl_view r n (snd (Stop w s)))"
proof (cases "q_state s \<noteq> StateRunning \<and> q_state s \<noteq> StateStarting")
  case False
  define srv where "srv = Option.bind (q_cancel s) (\<lambda>r. map_option (Pair r) (serving r s))"
  define s1 where "s1 = fold tunnel_end (filter (\<lambda>n. Some n \<notin> set w)
      (filter (\<lambda>n. tunnel_sat s (\<lambda>h. h_run h \<noteq> None) n) (keys (q_tunnels s))))
      (case q_cancel s of None \<Rightarrow> s | Some r \<Rightarrow> cancel_run r s)"
  have "ctl_view r n s1 = ctl_view r n s"
    by (simp add: s1_def conn_view.folds conn_view.cancel split: option.splits)
  moreover have "ctl_view r n (snd (Stop w s)) = ctl_view r n (case srv of
      Some (r, p) \<Rightarrow> if None \<in> set w then s1 else proxy_end r (server_registry p) None s1 | None \<Rightarrow> s1)"
    using False unfolding Stop_def Let_def s1_def [symmetric] srv_def [symmetric] by auto
  ultimately show ?thesis
    using ctl_move_proxy [of up r n s1] by (simp split: option.splits prod.splits)
qed (simp add: Stop_def)

lemma ctl_move_disconnect: "conn_move up (ctl_view r n s) (ctl_view r n (snd (DisconnectUpstream m s)))"
  unfolding DisconnectUpstream_def
  by (auto split: sum.splits option.splits intro: conn_move_trans [OF ctl_move_down ctl_move_dependents])

lemma ctl_view_set_auto [simp]: "ctl_view r n (ctl_SetAutoconnect on s) = ctl_view r n s"
proof -
  have "ctl_view r n (s\<lparr>q_manualOnly := \<not> on\<rparr>) = ctl_view r n s" by (simp add: ctl_view_def)
  then show ?thesis by (simp add: ctl_SetAutoconnect_def Let_def split: option.splits)
qed

lemma up_next_cases:
  "up_next s u = s \<or> (\<exists>n. up_next s u = upd_conn (up_run u) n (\<lambda>c. c\<lparr>cd_held := False\<rparr>) s)"
  unfolding up_next_def Let_def by (simp split: option.splits) blast

lemma ctl_move_up:
  assumes "fst (ctl_view r n s) \<Longrightarrow> snd (ctl_view r n s) \<noteq> ConnConnected"
  shows "conn_move True (ctl_view r n s) (ctl_view r n (up_next s u))"
proof (rule conn_moveI)
  show "snd (ctl_view r n (up_next s u)) \<noteq> ConnConnected" if "fst (ctl_view r n (up_next s u))"
    using up_next_cases [of s u] assms that by (auto simp: ctl_view_def split: if_splits)
qed simp

lemma ctl_view_step:
  assumes e: "ctl_step e s = Some s'" and h: "fst (ctl_view r n s) \<Longrightarrow> snd (ctl_view r n s) \<noteq> ConnConnected"
  shows "conn_move (ctl_ups e s) (ctl_view r n s) (ctl_view r n s')"
proof (cases e)
  case (EvStop w)
  with e ctl_move_Stop show ?thesis by auto
next
  case EvStartBegin
  with e show ?thesis by (auto simp: Start_begin_def split: if_splits)
next
  case (EvStartFinish env)
  with e show ?thesis by (auto simp: Start_finish_conns split: if_splits)
next
  case (EvDisconnect m)
  with e ctl_move_disconnect show ?thesis by auto
next
  case (EvUpNext i)
  then have "ctl_ups e s" by (simp add: ctl_ups_def)
  with EvUpNext e show ?thesis
    using ctl_move_up [of r n s "q_ups s ! i"] h by (auto split: if_splits)
next
  case (EvUpReturn i)
  with e show ?thesis by (auto split: if_splits)
next
  case (ConnChange r' n' b st)
  with e show ?thesis by (auto split: if_splits intro!: ctl_move_state)
next
  case (Dropped r' n')
  with e show ?thesis by (auto simp: upstreamDropped_def intro: ctl_move_dependents)
next
  case (ProxyServeEnds r' err)
  with e show ?thesis by (auto split: option.splits if_splits intro: ctl_move_proxy)
next
  case SyncDecide
  with e show ?thesis by (auto split: list.splits if_splits)
next
  case (SyncAct w)
  with e show ?thesis by (auto split: list.splits)
qed (use e in auto)

interpretation ctl_conn: connection ctl_step "ctl_New path np" "ctl_view r n" ctl_ups for path np r n
proof
  show "ctl_view r n (ctl_New path np) = conn_start" by (simp add: ctl_view_def ctl_New_def)
  show "conn_move (ctl_ups e s) (ctl_view r n s) (ctl_view r n s')" if "ctl_reach path np s" "ctl_step e s = Some s'" for e s s'
    using ctl_view_step [OF that(2)] held.holds [OF that(1)] by (simp add: ctl_view_def)
qed

section \<open>Properties\<close>


text \<open>A dial aborted by \<open>Down\<close>, a VPN stopped by it, and the controller's own \<open>Disconnect\<close>: each is then
  asked for its connection again, and stays down.\<close>

definition sample_ctl_down :: "ctl_event list" where
  "sample_ctl_down = sample_connected @ [EvDisconnect ''jump'']"


text \<open>\<open>Down\<close> keeps its promise: its last step leaves the connection unknown, and held down in the sense of
  the contract unless an \<open>Up\<close> has begun in the meantime.\<close>

theorem Down_ends_held:
  "(ssh_reach s \<longrightarrow> k_pc s t = DownWait \<longrightarrow> ssh_step (Run t) s = Some s' \<longrightarrow> ssh_view s' = (k_held s, ConnUnknown))
   \<and> (vpn_reach v \<longrightarrow> n_pc v t = DSet \<longrightarrow> vpn_step (VRun t) v = Some v' \<longrightarrow> vpn_view v' = (n_held v, ConnUnknown))"
proof (intro conjI impI)
  assume a: "ssh_reach s" "k_pc s t = DownWait" "ssh_step (Run t) s = Some s'"
  have m: "mu_inv s" using ssh_mu.holds [OF a(1)] .
  from a have u: "k_mu s = None" by (auto simp: ssh_run_eq split: if_splits)
  have "k_abort s \<noteq> Some x" for x using m u published_holds [of "k_pc s x"] by (auto simp: mu_inv_def)
  then have "k_abort s = None" by auto
  with a u show "ssh_view s' = (k_held s, ConnUnknown)"
    by (auto simp: ssh_run_eq ssh_view_def)
next
  assume a: "vpn_reach v" "n_pc v t = DSet" "vpn_step (VRun t) v = Some v'"
  have m: "vmu_inv v" using vpn_mu.holds [OF a(1)] .
  have h: "vholds (n_pc v t)" "no_proc (n_pc v t)" using a(2) by simp_all
  have "n_abort v = None" "n_proc v = None"
    using vmu_holder(2) [OF m h(1)] vmu_facts(1) [OF m h(2)] a(2) by simp_all
  with a show "vpn_view v' = (n_held v, ConnUnknown)"
    by (auto simp: vpn_run_defs vpn_view_def)
qed

lemma Down_ends_held_witness:
  "\<exists>s s'. run_events ssh_step (butlast (butlast (butlast sample_down))) ssh_init = Some s \<and> ssh_step (Run 2) s = Some s'
     \<and> ssh_view s' = (True, ConnUnknown)"
proof -
  have "map_option (\<lambda>s. (k_pc s 2, k_held s, k_mu s)) (run_events ssh_step (butlast (butlast (butlast sample_down))) ssh_init)
      = Some (DownWait, True, None)" by code_simp
  then obtain s where s: "run_events ssh_step (butlast (butlast (butlast sample_down))) ssh_init = Some s" and
    p: "k_pc s 2 = DownWait" "k_held s" "k_mu s = None" by auto
  then obtain s' where s': "ssh_step (Run 2) s = Some s'" by (simp add: ssh_run_eq)
  show ?thesis using Down_ends_held [of s 2 s'] run_reachable [OF s] s s' p by auto
qed

end
