(* ===== verification/ControllerPorts.thy ===== *)
theory ControllerPorts
  imports ControllerCalls Connection
begin

text \<open>
  The well-formedness of the controller and its account of addresses: which fields are set together,
  that only one run is alive, and that the addresses this process holds are exactly those that a
  server of the live run listens on.
\<close>

section \<open>Well-formed controllers\<close>

text \<open>Tunnels are filed under the address they listen on.\<close>

definition tunnel_wf :: "string \<Rightarrow> tunnel_handle \<Rightarrow> bool" where
  "tunnel_wf n h \<longleftrightarrow> h_name h = n \<and> l_Listen (h_listener h) = n
     \<and> (case h_run h of None \<Rightarrow> True | Some k \<Rightarrow> srv_addr (run_server k) = n)"

definition tunnels_wf :: "(string \<times> tunnel_handle) list \<Rightarrow> bool" where
  "tunnels_wf ts \<longleftrightarrow> wf_map ts \<and> (\<forall>(n, h) \<in> set ts. tunnel_wf n h)"

text \<open>The addresses that tunnels hold: of those that serve and whose server has not been closed.\<close>

definition handle_addr :: "tunnel_handle \<Rightarrow> string multiset" where
  "handle_addr h = (case h_run h of Some (Bound srv) \<Rightarrow> {#srv_addr srv#} | _ \<Rightarrow> {#})"

definition tunnel_addrs :: "(string \<times> tunnel_handle) list \<Rightarrow> string multiset" where
  "tunnel_addrs ts = sum_list (map (handle_addr \<circ> snd) ts)"

text \<open>
  The fields of a run are set together, a run that has not been cancelled is the current one of a
  running controller, and only such a run has a proxy or a failed tunnel.
\<close>

definition run_wf :: "ctl \<Rightarrow> bool" where
  "run_wf s \<longleftrightarrow> (q_cfg s = None \<longleftrightarrow> q_run s = None) \<and> (q_reg s = None \<longleftrightarrow> q_run s = None)
     \<and> (q_run s = None \<longrightarrow> q_tunnels s = []) \<and> (q_run s = None \<or> q_run s = q_cancel s)
     \<and> set_option (q_cancel s) \<subseteq> {..<q_next s}"

definition running :: "nat option \<Rightarrow> ctl \<Rightarrow> nat set" where
  "running r s = (if q_state s = StateRunning then set_option r else {})"

definition alive_wf :: "ctl \<Rightarrow> bool" where
  "alive_wf s \<longleftrightarrow> (\<forall>r < q_next s. \<not> q_cancelled s r \<longrightarrow> r \<in> running (q_run s) s)
     \<and> (\<forall>r \<ge> q_next s. \<not> q_cancelled s r)
     \<and> (run_ended s \<longrightarrow> tunnel_addrs (q_tunnels s) = {#})
     \<and> (\<forall>x \<in> set (q_serving s). fst x \<in> running (q_cancel s) s) \<and> length (q_serving s) \<le> 1
     \<and> (\<forall>x \<in> set (q_orphans s). fst x \<in> set_option (q_run s) \<and> \<not> q_cancelled s (fst x))"

definition ctl_wf :: "ctl \<Rightarrow> bool" where
  "ctl_wf s \<longleftrightarrow> tunnels_wf (q_tunnels s) \<and> run_wf s \<and> alive_wf s"

text \<open>What listens: the proxy unless its context has ended, the tunnels, and the tunnels whose \<open>Serve\<close> failed.\<close>

definition listening :: "ctl \<Rightarrow> string multiset" where
  "listening s = mset (map (srv_addr \<circ> snd) (filter (\<lambda>x. \<not> q_cancelled s (fst x)) (q_serving s)))
     + tunnel_addrs (q_tunnels s) + mset (map (srv_addr \<circ> snd) (q_orphans s))"

definition sound :: "string multiset \<Rightarrow> ctl \<Rightarrow> bool" where
  "sound B s \<longleftrightarrow> ctl_wf s \<and> mset (np_bound (q_ports s)) = B + listening s"

section \<open>Operations on tunnels\<close>

lemma tunnels_wf_of: "tunnels_wf ts \<Longrightarrow> map_of ts n = Some h \<Longrightarrow> tunnel_wf n h"
  by (auto simp: tunnels_wf_def dest: map_of_SomeD)

lemma set_put_sub: "x \<in> set (put ts n h) \<Longrightarrow> x = (n, h) \<or> x \<in> set ts"
  by (induction ts n h rule: put.induct) (auto split: if_splits)

lemma tunnels_wf_put: "tunnels_wf ts \<Longrightarrow> tunnel_wf n h \<Longrightarrow> tunnels_wf (put ts n h)"
  by (auto simp: tunnels_wf_def dest: set_put_sub)

lemma tunnels_wf_Nil [simp]: "tunnels_wf []"
  by (simp add: tunnels_wf_def)

lemma tunnel_addrs_Nil [simp]: "tunnel_addrs [] = {#}"
  by (simp add: tunnel_addrs_def)

lemma tunnel_addrs_put:
  "map_of ts n = Some h \<Longrightarrow> tunnel_addrs (put ts n h') + handle_addr h = tunnel_addrs ts + handle_addr h'"
  by (induction ts n h' rule: put.induct) (auto simp: tunnel_addrs_def ac_simps split: if_splits)

lemma handle_addr_simps [simp]:
  "handle_addr (h\<lparr>h_run := None\<rparr>) = {#}" "handle_addr (h\<lparr>h_run := Some (Closing srv)\<rparr>) = {#}"
  "handle_addr (h\<lparr>h_run := Some (Bound srv)\<rparr>) = {#srv_addr srv#}" "handle_addr (h_stopped_update f h) = handle_addr h"
  by (simp_all add: handle_addr_def)

lemma tunnel_wf_simps [simp]:
  "tunnel_wf n h \<Longrightarrow> tunnel_wf n (h\<lparr>h_run := None\<rparr>)" "tunnel_wf n (h_stopped_update f h) = tunnel_wf n h"
  "tunnel_wf n h \<Longrightarrow> srv_addr (run_server k) = n \<Longrightarrow> tunnel_wf n (h\<lparr>h_run := Some k\<rparr>)"
  by (simp_all add: tunnel_wf_def)

text \<open>Which fields \<open>sound\<close> reads, and what leaves them alone.\<close>

definition same_run :: "ctl \<Rightarrow> ctl \<Rightarrow> bool" where
  "same_run s s' \<longleftrightarrow> q_state s' = q_state s \<and> q_tunnels s' = q_tunnels s \<and> q_run s' = q_run s \<and> q_cfg s' = q_cfg s
     \<and> q_reg s' = q_reg s \<and> q_cancel s' = q_cancel s \<and> q_next s' = q_next s \<and> q_cancelled s' = q_cancelled s
     \<and> q_serving s' = q_serving s \<and> q_orphans s' = q_orphans s \<and> q_ports s' = q_ports s"

lemma run_ended_cong: "q_run s' = q_run s \<Longrightarrow> q_cancelled s' = q_cancelled s \<Longrightarrow> run_ended s' = run_ended s"
  by (simp add: run_ended_def split: option.splits)

lemma sound_same:
  assumes "sound B s" "same_run s s'"
  shows "sound B s'"
proof -
  have "run_ended s' = run_ended s" using assms(2) by (intro run_ended_cong) (simp_all add: same_run_def)
  moreover have "listening s' = listening s" using assms(2) by (simp add: same_run_def listening_def)
  moreover have "run_wf s' = run_wf s" using assms(2) by (simp add: same_run_def run_wf_def)
  moreover have "alive_wf s' = alive_wf s"
    using assms(2) calculation(1) by (simp add: same_run_def alive_wf_def running_def)
  ultimately show ?thesis using assms by (simp add: sound_def ctl_wf_def same_run_def)
qed

lemma same_run_core: "core s' = core s \<Longrightarrow> same_run s s'"
  using core_fields [of s' s] by (simp add: same_run_def)

lemma same_run_trans: "same_run s s' \<Longrightarrow> same_run s' s'' \<Longrightarrow> same_run s s''"
  by (simp add: same_run_def)

lemma same_run_notify [simp]: "same_run s (notify s') = same_run s s'"
  by (simp add: same_run_def)

lemma sound_notify [simp]: "sound B (notify s) = sound B s"
  using sound_same [of B s "notify s"] sound_same [of B "notify s" s] by (auto simp: same_run_def)

text \<open>One tunnel changes, and with it the addresses bound and those of the failed tunnels.\<close>

lemma sound_tunnel:
  assumes S: "sound B s" and h: "map_of (q_tunnels s) n = Some h" and w: "tunnel_wf n h'"
    and u: "q_tunnels s' = put (q_tunnels s) n h'"
    and f: "q_state s' = q_state s" "q_run s' = q_run s" "q_cfg s' = q_cfg s" "q_reg s' = q_reg s" "q_cancel s' = q_cancel s"
      "q_next s' = q_next s" "q_cancelled s' = q_cancelled s" "q_serving s' = q_serving s"
    and o: "q_orphans s' = q_orphans s @ os" "\<And>x. x \<in> set os \<Longrightarrow> fst x \<in> set_option (q_run s) \<and> \<not> q_cancelled s (fst x)"
    and e: "run_ended s \<Longrightarrow> handle_addr h' = {#}"
    and p: "mset (np_bound (q_ports s')) + handle_addr h
       = mset (np_bound (q_ports s)) + handle_addr h' + mset (map (srv_addr \<circ> snd) os)"
  shows "sound B s'"
proof -
  note a = tunnel_addrs_put [OF h, of h']
  have W: "ctl_wf s" "mset (np_bound (q_ports s)) = B + listening s" using S by (simp_all add: sound_def)
  have "q_run s \<noteq> None" using W(1) h by (auto simp: ctl_wf_def run_wf_def)
  then have "run_wf s'" using W(1) f by (auto simp: ctl_wf_def run_wf_def)
  moreover have "tunnels_wf (q_tunnels s')" using W(1) w u by (simp add: ctl_wf_def tunnels_wf_put)
  moreover have r: "run_ended s' = run_ended s" using f by (intro run_ended_cong)
  have "tunnel_addrs (q_tunnels s') = {#}" if "run_ended s"
    using a e [OF that] W(1) that u by (simp add: ctl_wf_def alive_wf_def)
  then have "alive_wf s'" using W(1) f o r by (auto simp: ctl_wf_def alive_wf_def running_def)
  moreover have "mset (np_bound (q_ports s')) + handle_addr h = B + listening s' + handle_addr h"
    using p W(2) a f o(1) u by (simp add: listening_def ac_simps)
  ultimately show ?thesis by (simp add: sound_def ctl_wf_def)
qed

lemma run_not_ended: "ctl_wf s \<Longrightarrow> handle_addr h \<noteq> {#} \<Longrightarrow> map_of (q_tunnels s) n = Some h \<Longrightarrow> \<not> run_ended s"
proof
  assume w: "ctl_wf s" "handle_addr h \<noteq> {#}" "map_of (q_tunnels s) n = Some h" "run_ended s"
  then have "tunnel_addrs (q_tunnels s) = {#}" by (simp add: ctl_wf_def alive_wf_def)
  with tunnel_addrs_put [OF w(3), of "h\<lparr>h_run := None\<rparr>"] w(2) show False by simp
qed

lemma sound_stopped: "sound B s \<Longrightarrow> sound B (upd_tunnel n (h_stopped_update f) s)"
proof (cases "map_of (q_tunnels s) n")
  case (Some h)
  assume S: "sound B s"
  have w: "tunnel_wf n h" using S Some tunnels_wf_of by (auto simp: sound_def ctl_wf_def)
  have e: "run_ended s \<Longrightarrow> handle_addr h = {#}" using run_not_ended [OF _ _ Some] S by (auto simp: sound_def)
  show ?thesis
    using Some w e by (intro sound_tunnel [OF S Some, where os = "[]" and h' = "h_stopped_update f h"])
      (simp_all add: upd_tunnel_def)
qed (simp add: upd_tunnel_def)

lemma mset_close: "mset (np_bound (server_Close srv np)) = mset (np_bound np) - {#srv_addr srv#}"
  by (simp add: server_Close_def net_close_def srv_addr_def)

lemma handle_bound:
  assumes "sound B s" "map_of (q_tunnels s) n = Some h" "h_run h = Some (Bound srv)"
  shows "srv_addr srv \<in># mset (np_bound (q_ports s))" "\<not> run_ended s" "srv_addr srv = n"
proof -
  have a: "handle_addr h = {#srv_addr srv#}" using assms(3) by (simp add: handle_addr_def)
  have "tunnel_addrs (q_tunnels s) = tunnel_addrs (put (q_tunnels s) n (h\<lparr>h_run := None\<rparr>)) + {#srv_addr srv#}"
    using tunnel_addrs_put [OF assms(2), of "h\<lparr>h_run := None\<rparr>"] a by simp
  then have "srv_addr srv \<in># tunnel_addrs (q_tunnels s)" by simp
  then show "srv_addr srv \<in># mset (np_bound (q_ports s))" using assms(1) by (simp add: sound_def listening_def)
  show "\<not> run_ended s" using run_not_ended [OF _ _ assms(2)] a assms(1) by (simp add: sound_def)
  have "tunnel_wf n h" using tunnels_wf_of [OF _ assms(2)] assms(1) by (simp add: sound_def ctl_wf_def)
  with assms(3) show "srv_addr srv = n" by (simp add: tunnel_wf_def)
qed

lemma sound_tunnel_wf: "sound B s \<Longrightarrow> map_of (q_tunnels s) n = Some h \<Longrightarrow> tunnel_wf n h"
  using tunnels_wf_of by (auto simp: sound_def ctl_wf_def)

lemma sound_cancel:
  assumes S: "sound B s"
  shows "sound B (tunnel_cancel n s)"
proof (cases "\<exists>h srv. map_of (q_tunnels s) n = Some h \<and> h_run h = Some (Bound srv)")
  case True
  then obtain h srv where h: "map_of (q_tunnels s) n = Some h" "h_run h = Some (Bound srv)" by blast
  have a: "handle_addr h = {#srv_addr srv#}" using h(2) by (simp add: handle_addr_def)
  show ?thesis
    using h a handle_bound [OF S h] sound_tunnel_wf [OF S h(1)]
    by (intro sound_tunnel [OF S h(1), where os = "[]" and h' = "h\<lparr>h_run := Some (Closing srv)\<rparr>"])
      (simp_all add: tunnel_cancel_def upd_tunnel_def mset_close)
next
  case False
  then have "tunnel_cancel n s = s" by (auto simp: tunnel_cancel_def split: option.splits tunnel_run.splits)
  with S show ?thesis by simp
qed

lemma sound_end:
  assumes S: "sound B s"
  shows "sound B (tunnel_end n s)"
proof (cases "map_of (q_tunnels s) n")
  case (Some h)
  note w = sound_tunnel_wf [OF S Some]
  show ?thesis
  proof (cases "h_run h")
    case (Some k)
    note h = \<open>map_of (q_tunnels s) n = Some h\<close>
    have run: "q_run s \<noteq> None" using S h by (auto simp: sound_def ctl_wf_def run_wf_def)
    then obtain r where r: "q_run s = Some r" by blast
    show ?thesis
    proof (cases k)
      case (Bound srv)
      then have a: "handle_addr h = {#srv_addr srv#}" and k: "h_run h = Some (Bound srv)" using Some by (simp_all add: handle_addr_def)
      note b = handle_bound [OF S h k]
      have "sound B ((upd_tunnel n (h_run_update (\<lambda>_. None)) s)\<lparr>q_orphans := q_orphans s @ [(r, srv)]\<rparr>)"
        using h r w a b(2)
        by (intro sound_tunnel [OF S h, where os = "[(r, srv)]" and h' = "h\<lparr>h_run := None\<rparr>"])
          (simp_all add: upd_tunnel_def run_ended_def)
      with h k r show ?thesis by (simp add: tunnel_end_def Let_def)
    next
      case (Closing srv)
      then have a: "handle_addr h = {#}" and k: "h_run h = Some (Closing srv)" using Some by (simp_all add: handle_addr_def)
      have "sound B (upd_tunnel n (h_run_update (\<lambda>_. None)) s)"
        using h w a by (intro sound_tunnel [OF S h, where os = "[]" and h' = "h\<lparr>h_run := None\<rparr>"]) (simp_all add: upd_tunnel_def)
      with h k r show ?thesis by (simp add: tunnel_end_def Let_def)
    qed
  qed (use S Some in \<open>simp add: tunnel_end_def Let_def\<close>)
qed (use S in \<open>simp add: tunnel_end_def\<close>)

lemma sound_bind:
  assumes S: "sound B s"
  shows "sound B (snd (bindTunnel n s))"
proof (cases rule: bindTunnel_cases [of n s])
  case (2 h srv np)
  note w = sound_tunnel_wf [OF S 2(1)]
  from listener_New_Inr [OF 2(3)] w have np: "np = (q_ports s)\<lparr>np_bound := n # np_bound (q_ports s)\<rparr>" "srv_addr srv = n"
    by (simp_all add: srv_addr_def tunnel_wf_def)
  have a: "handle_addr h = {#}" using 2(2) by (simp add: handle_addr_def)
  show ?thesis
  proof (cases "run_ended s")
    case True
    have "server_Close srv np = q_ports s" using np by (simp add: server_Close_def net_close_def srv_addr_def)
    then show ?thesis
      unfolding 2(4) bound_state_def Let_def using True 2(1) w a np
      by (simp, intro sound_tunnel [OF S 2(1), where os = "[]" and h' = "h\<lparr>h_run := Some (Closing srv)\<rparr>"])
        (simp_all add: tunnel_cancel_def upd_tunnel_def)
  next
    case False
    then show ?thesis
      unfolding 2(4) bound_state_def Let_def using 2(1) w a np
      by (simp, intro sound_tunnel [OF S 2(1), where os = "[]" and h' = "h\<lparr>h_run := Some (Bound srv)\<rparr>"])
        (simp_all add: upd_tunnel_def)
  qed
qed (use S in simp)

lemma sound_unbind: "sound B s \<Longrightarrow> sound B (snd (unbindTunnel w n s))"
  by (simp add: unbindTunnel_def sound_cancel sound_end split: option.splits)

section \<open>Runs\<close>

definition all_cancelled :: "ctl \<Rightarrow> bool" where
  "all_cancelled s \<longleftrightarrow> (\<forall>r < q_next s. q_cancelled s r)"

lemma servingD: "ctl_wf s \<Longrightarrow> x \<in> set (q_serving s) \<Longrightarrow> q_state s = StateRunning \<and> q_cancel s = Some (fst x)"
proof -
  assume "ctl_wf s" "x \<in> set (q_serving s)"
  then have "fst x \<in> running (q_cancel s) s" by (simp add: ctl_wf_def alive_wf_def)
  then show ?thesis by (auto simp: running_def split: if_splits)
qed

lemma orphanD: "ctl_wf s \<Longrightarrow> x \<in> set (q_orphans s) \<Longrightarrow> q_run s = Some (fst x) \<and> \<not> q_cancelled s (fst x)"
proof -
  assume "ctl_wf s" "x \<in> set (q_orphans s)"
  then have "fst x \<in> set_option (q_run s) \<and> \<not> q_cancelled s (fst x)" by (simp add: ctl_wf_def alive_wf_def)
  then show ?thesis by auto
qed

lemma not_running_cancelled: "ctl_wf s \<Longrightarrow> q_state s \<noteq> StateRunning \<Longrightarrow> all_cancelled s"
  by (auto simp: ctl_wf_def alive_wf_def all_cancelled_def running_def)

lemma not_running_serving: "ctl_wf s \<Longrightarrow> q_state s \<noteq> StateRunning \<Longrightarrow> q_serving s = []"
  using servingD [of s "hd (q_serving s)"] by (cases "q_serving s") auto

lemma cancelled_current:
  assumes "ctl_wf s" "q_cancel s = None \<or> q_cancelled s (the (q_cancel s))"
  shows "all_cancelled s"
  unfolding all_cancelled_def
proof (intro allI impI, rule ccontr)
  fix r assume r: "r < q_next s" "\<not> q_cancelled s r"
  then have "r \<in> running (q_run s) s" using assms(1) by (simp add: ctl_wf_def alive_wf_def)
  then have "q_run s = Some r" by (auto simp: running_def split: if_splits)
  moreover have "q_run s = None \<or> q_run s = q_cancel s" using assms(1) by (simp add: ctl_wf_def run_wf_def)
  ultimately have "q_cancel s = Some r" by auto
  with assms(2) r(2) show False by simp
qed

lemma cancelled_idle:
  assumes "ctl_wf s" "all_cancelled s"
  shows "tunnel_addrs (q_tunnels s) = {#}" "q_orphans s = []" "listening s = {#}"
proof -
  have w: "set_option (q_cancel s) \<subseteq> {..<q_next s}" "q_run s = None \<or> q_run s = q_cancel s"
    "q_run s = None \<longrightarrow> q_tunnels s = []" "run_ended s \<longrightarrow> tunnel_addrs (q_tunnels s) = {#}"
    "\<forall>x \<in> set (q_serving s). fst x \<in> running (q_cancel s) s"
    "\<forall>x \<in> set (q_orphans s). fst x \<in> set_option (q_run s) \<and> \<not> q_cancelled s (fst x)"
    using assms(1) by (simp_all add: ctl_wf_def run_wf_def alive_wf_def)
  have c: "q_cancelled s r" if "r \<in> set_option (q_cancel s)" for r
    using w(1) that assms(2) by (auto simp: all_cancelled_def)
  show t: "tunnel_addrs (q_tunnels s) = {#}"
  proof (cases "q_run s")
    case (Some r)
    then have "q_cancel s = Some r" using w(2) by simp
    then have "q_cancelled s r" using c by simp
    with Some have "run_ended s" by (simp add: run_ended_def)
    with w(4) show ?thesis by blast
  qed (use w(3) in simp)
  have "x \<notin> set (q_orphans s)" for x using w(2,6) c by fastforce
  then show o: "q_orphans s = []" by (metis list.set_intros(1) neq_Nil_conv)
  have "q_cancelled s (fst x)" if "x \<in> set (q_serving s)" for x
    using servingD [OF assms(1) that] c by simp
  then have "filter (\<lambda>x. \<not> q_cancelled s (fst x)) (q_serving s) = []" by (auto simp: filter_empty_conv)
  with t o show "listening s = {#}" by (simp add: listening_def)
qed

text \<open>With every run ended, the fields of the last one may stay or go, with the proxy's server.\<close>

lemma sound_reset:
  assumes S: "sound B s" and c: "all_cancelled s"
    and f: "q_next s' = q_next s" "q_cancelled s' = q_cancelled s" "q_ports s' = q_ports s" "q_cancel s' = q_cancel s"
      "q_orphans s' = q_orphans s"
    and k: "q_tunnels s' = q_tunnels s \<and> q_run s' = q_run s \<and> q_cfg s' = q_cfg s \<and> q_reg s' = q_reg s
        \<or> q_tunnels s' = [] \<and> q_run s' = None \<and> q_cfg s' = None \<and> q_reg s' = None"
    and v: "q_serving s' = q_serving s \<and> (q_serving s = [] \<or> q_state s' = q_state s) \<or> q_serving s' = []"
  shows "sound B s'"
proof -
  have W: "ctl_wf s" "mset (np_bound (q_ports s)) = B + listening s" using S by (simp_all add: sound_def)
  note i = cancelled_idle [OF W(1) c]
  have "tunnels_wf (q_tunnels s')" "run_wf s'"
    using k W(1) f by (auto simp: ctl_wf_def run_wf_def)
  moreover have t: "tunnel_addrs (q_tunnels s') = {#}" using i(1) k by auto
  have "\<forall>x \<in> set (q_serving s'). fst x \<in> running (q_cancel s') s'" "length (q_serving s') \<le> 1"
    using v W(1) f by (auto simp: ctl_wf_def alive_wf_def running_def)
  then have "alive_wf s'"
    using W(1) c f i t by (auto simp: ctl_wf_def alive_wf_def all_cancelled_def)
  ultimately have w: "ctl_wf s'" by (simp add: ctl_wf_def)
  have "all_cancelled s'" using c f by (simp add: all_cancelled_def)
  with cancelled_idle(3) [OF w] W(2) i(3) w f show ?thesis by (simp add: sound_def)
qed

lemma cancelled_bound:
  "sound B s \<Longrightarrow> all_cancelled s \<Longrightarrow> mset (np_bound (q_ports s)) = B"
  using cancelled_idle(3) [of s] by (simp add: sound_def)

text \<open>The end of a run's context closes everything that listens.\<close>

lemma fold_cancel_tunnels:
  "map_of (q_tunnels (fold tunnel_cancel ns s)) m =
     (if m \<in> set ns then map_option (\<lambda>h. h\<lparr>h_run := map_option (\<lambda>k. Closing (run_server k)) (h_run h)\<rparr>) (map_of (q_tunnels s) m)
      else map_of (q_tunnels s) m)"
  by (induction ns arbitrary: s) (auto simp: tunnel_cancel_tunnels option.map_comp comp_def)

lemma tunnel_addrs_zero:
  assumes "wf_map ts" "\<And>n h. map_of ts n = Some h \<Longrightarrow> handle_addr h = {#}"
  shows "tunnel_addrs ts = {#}"
proof -
  have "handle_addr (snd x) = {#}" if "x \<in> set ts" for x
    using assms that wf_map_of_iff [OF assms(1), of "fst x" "snd x"] by simp
  then show ?thesis unfolding tunnel_addrs_def by (induction ts) auto
qed

lemma fold_cancel_addrs:
  assumes S: "sound B s"
  shows "sound B (fold tunnel_cancel (keys (q_tunnels s)) s)"
    "tunnel_addrs (q_tunnels (fold tunnel_cancel (keys (q_tunnels s)) s)) = {#}"
proof -
  let ?s = "fold tunnel_cancel (keys (q_tunnels s)) s"
  show sd: "sound B ?s" by (rule fold_inv [where I = "sound B"]) (auto intro: S sound_cancel)
  have "map_of (q_tunnels s) n = None" if "n \<notin> set (keys (q_tunnels s))" for n
    using that map_of_eq_None_keys by metis
  then have "handle_addr h = {#}" if "map_of (q_tunnels ?s) n = Some h" for n h
    using that by (auto simp: fold_cancel_tunnels handle_addr_def split: if_splits option.splits tunnel_run.splits)
  with sd show "tunnel_addrs (q_tunnels ?s) = {#}"
    by (intro tunnel_addrs_zero) (auto simp: sound_def ctl_wf_def tunnels_wf_def)
qed

lemma fold_cancel_fields [simp]:
  "q_state (fold tunnel_cancel ns s) = q_state s" "q_run (fold tunnel_cancel ns s) = q_run s"
  "q_cfg (fold tunnel_cancel ns s) = q_cfg s" "q_reg (fold tunnel_cancel ns s) = q_reg s"
  "q_cancel (fold tunnel_cancel ns s) = q_cancel s" "q_next (fold tunnel_cancel ns s) = q_next s"
  "q_cancelled (fold tunnel_cancel ns s) = q_cancelled s" "q_serving (fold tunnel_cancel ns s) = q_serving s"
  "q_orphans (fold tunnel_cancel ns s) = q_orphans s" "q_listen (fold tunnel_cancel ns s) = q_listen s"
  "q_queue (fold tunnel_cancel ns s) = q_queue s"
  by (auto intro!: fold_same simp: tunnel_cancel_def upd_tunnel_def split: option.splits tunnel_run.splits)

lemma sound_cancel_run:
  assumes S: "sound B s" and r: "r < q_next s"
  shows "sound B (cancel_run r s)" "q_cancelled (cancel_run r s) r"
proof -
  have "sound B (cancel_run r s) \<and> q_cancelled (cancel_run r s) r"
  proof (cases "q_cancelled s r")
    case False
    let ?s = "fold tunnel_cancel (keys (q_tunnels s)) s"
    note f = fold_cancel_addrs [OF S]
    have W: "ctl_wf s" using S by (simp add: sound_def)
    then have "r \<in> running (q_run s) s" using r False by (simp add: ctl_wf_def alive_wf_def)
    then have run: "q_state s = StateRunning" "q_run s = Some r" by (auto simp: running_def split: if_splits)
    then have c: "q_cancel s = Some r" using W by (simp add: ctl_wf_def run_wf_def)
    have sv: "fst x = r" if "x \<in> set (q_serving s)" for x
      using servingD [OF W that] c by simp
    have os: "fst x = r" if "x \<in> set (q_orphans s)" for x
      using orphanD [OF W that] run by simp
    have fs: "filter (\<lambda>x. fst x = r) (q_serving s) = q_serving s" "filter (\<lambda>x. fst x = r) (q_orphans s) = q_orphans s"
      "filter (\<lambda>x. fst x \<noteq> r) (q_orphans s) = []" "filter (\<lambda>x. \<not> q_cancelled s (fst x)) (q_serving s) = q_serving s"
      using sv os False by (auto simp: filter_id_conv filter_empty_conv)
    define s' where "s' = ?s\<lparr>q_cancelled := (q_cancelled s)(r := True), q_orphans := [],
      q_ports := close_ports (map snd (q_serving s) @ map snd (q_orphans s)) (q_ports ?s)\<rparr>"
    have s': "cancel_run r s = s'" using False run fs by (simp add: cancel_run_def s'_def Let_def)
    have "mset (np_bound (q_ports ?s)) = B + mset (map (srv_addr \<circ> snd) (q_serving s)) + mset (map (srv_addr \<circ> snd) (q_orphans s))"
      using f fs(4) by (simp add: sound_def listening_def)
    then have "mset (np_bound (q_ports s')) = B" by (simp add: s'_def close_ports_bound add.commute)
    moreover have "listening s' = {#}" using f(2) sv by (simp add: s'_def listening_def filter_empty_conv)
    moreover have "ctl_wf ?s" using f by (simp add: sound_def)
    then have "tunnels_wf (q_tunnels s')" "run_wf s'" by (simp_all add: ctl_wf_def run_wf_def s'_def)
    moreover have "alive_wf s'" using f(2) W r by (auto simp: ctl_wf_def alive_wf_def s'_def running_def)
    ultimately show ?thesis unfolding s' by (simp add: sound_def ctl_wf_def s'_def)
  qed (use S in \<open>simp add: cancel_run_def\<close>)
  then show "sound B (cancel_run r s)" "q_cancelled (cancel_run r s) r" by blast+
qed

lemma serving_only: "ctl_wf s \<Longrightarrow> serving r s = Some p \<Longrightarrow> q_state s = StateRunning \<and> q_cancel s = Some r \<and> r < q_next s
    \<and> filter (\<lambda>x. fst x \<noteq> r) (q_serving s) = []"
proof -
  assume W: "ctl_wf s" and "serving r s = Some p"
  then have "(r, p) \<in> set (q_serving s)" by (simp add: serving_def map_of_SomeD)
  then have c: "q_state s = StateRunning" "q_cancel s = Some r" using servingD [OF W] by auto
  then have "r < q_next s" using W by (simp add: ctl_wf_def run_wf_def)
  moreover have "fst x = r" if "x \<in> set (q_serving s)" for x using servingD [OF W that] c by simp
  ultimately show ?thesis using c by (simp add: filter_empty_conv)
qed

lemma cancel_run_more [simp]:
  "q_state (cancel_run r s) = q_state s" "q_serving (cancel_run r s) = q_serving s" "q_cancel (cancel_run r s) = q_cancel s"
  by (simp_all add: cancel_run_def Let_def)

lemma sound_proxy_end:
  assumes S: "sound B s" and p: "serving r s = Some p" and e: "err = None \<Longrightarrow> q_cancelled s r"
  shows "sound B (proxy_end r reg err s)"
proof -
  note o = serving_only [OF _ p]
  have W: "ctl_wf s" using S by (simp add: sound_def)
  define s1 where "s1 = (if err \<noteq> None \<and> \<not> q_cancelled s r then cancel_run r s else s)"
  have s1: "sound B s1" "q_cancelled s1 r" "q_state s1 = StateRunning" "q_cancel s1 = Some r"
    "q_serving s1 = q_serving s" "q_next s1 = q_next s"
    using S e o [OF W] sound_cancel_run [OF S, of r] by (auto simp: s1_def)
  have c: "all_cancelled s1" using s1 by (intro cancelled_current) (simp_all add: sound_def)
  define s2 where "s2 = (if err \<noteq> None \<and> \<not> q_cancelled s r
      then s1\<lparr>q_state := StateError, q_lastErr := map_option ServeFailed err, q_listen := []\<rparr>
      else s1\<lparr>q_state := StateStopped, q_listen := []\<rparr>)"
  define s3 where "s3 = close_registry r reg (notify s2)"
  have s3: "same_run s2 s3"
    using same_run_core [of s3 "notify s2"] by (simp add: s3_def same_run_trans [of s2 "notify s2"] same_run_def [of s2 s2])
  have "proxy_end r reg err s = s3\<lparr>q_serving := filter (\<lambda>x. fst x \<noteq> r) (q_serving s3)\<rparr>"
    using s1(3) by (simp add: proxy_end_def Let_def s3_def s2_def s1_def)
  moreover have "sound B (s3\<lparr>q_serving := filter (\<lambda>x. fst x \<noteq> r) (q_serving s3)\<rparr>)"
    using s3 o [OF W] s1(5) by (intro sound_reset [OF s1(1) c]) (auto simp: same_run_def s2_def)
  ultimately show ?thesis by simp
qed

lemma sound_Stop:
  assumes S: "sound B s"
  shows "sound B (snd (Stop w s))"
proof (cases "q_state s \<noteq> StateRunning \<and> q_state s \<noteq> StateStarting")
  case False
  have W: "ctl_wf s" using S by (simp add: sound_def)
  define srv where "srv = Option.bind (q_cancel s) (\<lambda>r. map_option (Pair r) (serving r s))"
  define s1 where "s1 = (case q_cancel s of None \<Rightarrow> s | Some r \<Rightarrow> cancel_run r s)"
  define s2 where "s2 = fold tunnel_end (filter (\<lambda>n. Some n \<notin> set w)
      (filter (\<lambda>n. tunnel_sat s (\<lambda>h. h_run h \<noteq> None) n) (keys (q_tunnels s)))) s1"
  define s3 where "s3 = (case srv of Some (r, p) \<Rightarrow> if None \<in> set w then s2 else proxy_end r (server_registry p) None s2
      | None \<Rightarrow> s2)"
  have st: "snd (Stop w s) = s3\<lparr>q_tunnels := [], q_reg := None, q_cfg := None, q_run := None\<rparr>"
    unfolding Stop_def Let_def s3_def s2_def s1_def srv_def using False by (subst if_not_P) simp_all
  have r: "r < q_next s" if "q_cancel s = Some r" for r using W that by (simp add: ctl_wf_def run_wf_def)
  have s1: "sound B s1" "q_cancel s1 = q_cancel s" "q_serving s1 = q_serving s" "q_next s1 = q_next s"
    "q_cancel s = None \<or> q_cancelled s1 (the (q_cancel s))"
    using S r sound_cancel_run [OF S] by (auto simp: s1_def split: option.splits)
  have s2: "sound B s2" unfolding s2_def by (rule fold_inv [where I = "sound B"]) (auto intro: s1(1) sound_end)
  have "q_cancel (tunnel_end n s) = q_cancel s \<and> q_serving (tunnel_end n s) = q_serving s
      \<and> q_cancelled (tunnel_end n s) = q_cancelled s" for n s
    by (auto simp: tunnel_end_def Let_def upd_tunnel_def split: option.splits tunnel_run.splits)
  then have f2: "q_cancel s2 = q_cancel s1" "q_serving s2 = q_serving s1" "q_cancelled s2 = q_cancelled s1"
    unfolding s2_def by (auto intro: fold_same)
  have c: "q_cancel s = None \<or> q_cancelled s2 (the (q_cancel s))" using s1(5) f2(3) by simp
  have s3: "sound B s3"
  proof (cases srv)
    case (Some x)
    then obtain r p where x: "x = (r, p)" "q_cancel s = Some r" "serving r s = Some p"
      by (auto simp: srv_def bind_eq_Some_conv)
    then have "serving r s2 = Some p" using f2(2) s1(3) by (simp add: serving_def)
    with c x s2 Some show ?thesis by (simp add: s3_def sound_proxy_end)
  qed (use s2 in \<open>simp add: s3_def\<close>)
  have c3: "all_cancelled s3"
  proof (cases "q_state s3 = StateRunning")
    case True
    then have "s3 = s2" using proxy_end_stops by (auto simp: s3_def split: option.splits if_splits)
    with c s3 f2(1) s1(2) show ?thesis by (intro cancelled_current) (simp_all add: sound_def)
  qed (use s3 not_running_cancelled in \<open>simp add: sound_def\<close>)
  show ?thesis unfolding st by (rule sound_reset [OF s3 c3]) simp_all
qed (use S in \<open>simp add: Stop_def\<close>)

section \<open>Start\<close>

lemma tunnel_addrs_add:
  "\<exists>L. tunnel_addrs ts + handle_addr h = tunnel_addrs (put ts n h) + L \<and> (n \<notin> set (keys ts) \<longrightarrow> L = {#})"
proof (cases "map_of ts n")
  case (Some h0)
  then have "n \<in> set (keys ts)" using map_of_Some_keys by fastforce
  with tunnel_addrs_put [OF Some, of h] show ?thesis by (intro exI [of _ "handle_addr h0"]) simp
next
  case None
  then have "tunnel_addrs (put ts n h) = tunnel_addrs ts + handle_addr h"
    by (induction ts n h rule: put.induct) (auto simp: tunnel_addrs_def ac_simps split: if_splits)
  then show ?thesis by (intro exI [of _ "{#}"]) simp
qed

lemma buildTunnels_sound:
  assumes "buildTunnels reg m ls ts np = (Inr ts', np')" "tunnels_wf ts"
  shows "tunnels_wf ts' \<and> (\<exists>L. mset (np_bound np') + tunnel_addrs ts = mset (np_bound np) + tunnel_addrs ts' + L
    \<and> (distinct (map l_Listen ls) \<and> set (map l_Listen ls) \<inter> set (keys ts) = {} \<longrightarrow> L = {#}))"
  using assms
proof (induction ls arbitrary: ts np)
  case (Cons l ls)
  let ?n = "l_Listen l"
  define h where "h = new_handle reg m l"
  have w: "tunnel_wf ?n h" "handle_addr h = {#}" by (simp_all add: h_def new_handle_def tunnel_wf_def handle_addr_def)
  show ?case
  proof (cases "pinned_conn h = None")
    case False
    then have b: "buildTunnels reg m ls (put ts ?n h) np = (Inr ts', np')" using Cons.prems(1) by (simp add: Let_def h_def)
    from Cons.IH [OF b tunnels_wf_put [OF Cons.prems(2) w(1)]] obtain L where
      L: "tunnels_wf ts'" "mset (np_bound np') + tunnel_addrs (put ts ?n h) = mset (np_bound np) + tunnel_addrs ts' + L"
      "distinct (map l_Listen ls) \<and> set (map l_Listen ls) \<inter> set (keys (put ts ?n h)) = {} \<longrightarrow> L = {#}" by blast
    obtain L' where L': "tunnel_addrs ts + handle_addr h = tunnel_addrs (put ts ?n h) + L'" "?n \<notin> set (keys ts) \<longrightarrow> L' = {#}"
      using tunnel_addrs_add by blast
    then have "mset (np_bound np') + tunnel_addrs ts = mset (np_bound np) + tunnel_addrs ts' + (L + L')"
      using L(2) w(2) by (simp add: ac_simps)
    with L L'(2) show ?thesis by (intro conjI exI [of _ "L + L'"]) auto
  next
    case True
    then obtain srv np1 where l: "listener_New l reg m np = (Inr srv, np1)"
      and b: "buildTunnels reg m ls (put ts ?n (h\<lparr>h_run := Some (Bound srv)\<rparr>)) np1 = (Inr ts', np')"
      using Cons.prems(1) by (auto simp: Let_def h_def split: prod.splits sum.splits)
    let ?h = "h\<lparr>h_run := Some (Bound srv)\<rparr>"
    from listener_New_Inr [OF l] have srv: "np1 = np\<lparr>np_bound := ?n # np_bound np\<rparr>" "srv_addr srv = ?n"
      by (auto simp: srv_addr_def)
    then have w': "tunnel_wf ?n ?h" "handle_addr ?h = {#?n#}" using w by simp_all
    from Cons.IH [OF b tunnels_wf_put [OF Cons.prems(2) w'(1)]] obtain L where
      L: "tunnels_wf ts'" "mset (np_bound np1) + tunnel_addrs ts' + L = mset (np_bound np') + tunnel_addrs (put ts ?n ?h)"
      "distinct (map l_Listen ls) \<and> set (map l_Listen ls) \<inter> set (keys (put ts ?n ?h)) = {} \<longrightarrow> L = {#}" by metis
    obtain L' where L': "tunnel_addrs ts + handle_addr ?h = tunnel_addrs (put ts ?n ?h) + L'" "?n \<notin> set (keys ts) \<longrightarrow> L' = {#}"
      using tunnel_addrs_add by blast
    have "mset (np_bound np') + tunnel_addrs ts + {#?n#} = mset (np_bound np') + (tunnel_addrs ts + handle_addr ?h)"
      by (simp add: srv(2))
    also have "\<dots> = mset (np_bound np1) + tunnel_addrs ts' + L + L'" by (simp only: L'(1) L(2) add.assoc [symmetric])
    also have "\<dots> = mset (np_bound np) + tunnel_addrs ts' + (L + L') + {#?n#}" by (simp add: srv(1) ac_simps)
    finally have "mset (np_bound np') + tunnel_addrs ts + {#?n#} = mset (np_bound np) + tunnel_addrs ts' + (L + L') + {#?n#}" .
    then have "mset (np_bound np') + tunnel_addrs ts = mset (np_bound np) + tunnel_addrs ts' + (L + L')" by simp
    with L L'(2) show ?thesis by (intro conjI exI [of _ "L + L'"]) auto
  qed
qed simp

text \<open>
  What \<open>Start\<close> may lose: the proxy's listener when a tunnel cannot be set up, and a tunnel of a
  configuration that names an address twice (which \<open>Validate\<close> rejects).
\<close>

definition start_leaks :: "ctl_event \<Rightarrow> ctl \<Rightarrow> bool" where
  "start_leaks e s = (case e of
     EvStartFinish env \<Rightarrow>
       (case se_load env (q_cfgPath s) of Inl _ \<Rightarrow> False | Inr cfg \<Rightarrow> \<not> distinct (map l_Listen (c_Listeners cfg)))
       \<or> (case fst (Start_finish env s) of Inl (TunnelsFailed _) \<Rightarrow> True | _ \<Rightarrow> False)
   | _ \<Rightarrow> False)"

lemma Start_finish_failed_ports:
  assumes "Start_finish env s = (Inl e, s')"
  shows "(\<exists>np. s' = fail e (s\<lparr>q_ports := np\<rparr>)) \<and> ((\<nexists>x. e = TunnelsFailed x) \<longrightarrow> q_ports s' = q_ports s)"
proof -
  have n: "proxy_NewServer o1 np = (Inl x, np') \<Longrightarrow> np' = np" for o1 np x np'
    by (auto simp: proxy_NewServer_def bind_server_def net_listen_def split: if_splits prod.splits)
  have "q_ports s' = q_ports s" if "\<nexists>x. e = TunnelsFailed x"
    using assms that n unfolding Start_finish_def Let_def by (auto split: sum.splits prod.splits)
  with Start_finish_fails [OF assms] show ?thesis by blast
qed

lemma Start_run_more [simp]:
  "q_cancel (Start_run cfg reg srv ts np s) = Some (q_next s)" "q_cancelled (Start_run cfg reg srv ts np s) = q_cancelled s"
  "q_orphans (Start_run cfg reg srv ts np s) = q_orphans s"
  by (simp_all add: Start_run_def Let_def core_fields [OF core_folds(1)])

lemma ctl_wf_ports [simp]: "ctl_wf (s\<lparr>q_ports := np\<rparr>) = ctl_wf s"
proof -
  have "run_ended (s\<lparr>q_ports := np\<rparr>) = run_ended s" by (rule run_ended_cong) simp_all
  then show ?thesis by (simp add: ctl_wf_def run_wf_def alive_wf_def running_def)
qed

lemma sound_Start_run:
  assumes S: "sound B s" and st: "q_state s = StateStarting"
    and ts: "tunnels_wf ts" and np: "mset (np_bound np) = mset (np_bound (q_ports s)) + {#srv_addr srv#} + tunnel_addrs ts + L"
  shows "sound (B + L) (Start_run cfg reg srv ts np s)"
proof -
  let ?s = "Start_run cfg reg srv ts np s"
  have W: "ctl_wf s" using S by (simp add: sound_def)
  have c: "all_cancelled s" by (rule not_running_cancelled [OF W]) (simp add: st)
  note i = cancelled_idle [OF W c]
  have sv: "q_serving s = []" by (rule not_running_serving [OF W]) (simp add: st)
  have n: "\<not> q_cancelled s r" if "r \<ge> q_next s" for r using W that by (simp add: ctl_wf_def alive_wf_def)
  have "run_wf ?s" by (simp add: run_wf_def)
  moreover have "alive_wf ?s"
    using c n sv i(2) by (auto simp: alive_wf_def running_def run_ended_def all_cancelled_def less_Suc_eq)
  moreover have "mset (np_bound (q_ports ?s)) = B + L + listening ?s"
    using np cancelled_bound [OF S c] sv i(2) n [of "q_next s"] by (simp add: listening_def ac_simps)
  ultimately show ?thesis using ts by (simp add: sound_def ctl_wf_def)
qed

lemma sound_Start_finish:
  assumes S: "sound B s" and st: "q_state s = StateStarting"
  shows "\<exists>B'. sound B' (snd (Start_finish env s)) \<and> (\<not> start_leaks (EvStartFinish env) s \<longrightarrow> B' = B)"
proof (cases "Start_finish env s")
  case (Pair res s')
  have W: "ctl_wf s" using S by (simp add: sound_def)
  have c: "all_cancelled s" by (rule not_running_cancelled [OF W]) (simp add: st)
  note bd = cancelled_bound [OF S c]
  show ?thesis
  proof (cases res)
    case (Inl e)
    obtain np where s': "s' = fail e (s\<lparr>q_ports := np\<rparr>)" and e: "(\<nexists>x. e = TunnelsFailed x) \<longrightarrow> q_ports s' = q_ports s"
      using Start_finish_failed_ports [OF Pair [unfolded Inl]] by blast
    have sv: "q_serving s = []" by (rule not_running_serving [OF W]) (simp add: st)
    have "listening (s\<lparr>q_ports := np\<rparr>) = {#}" "all_cancelled (s\<lparr>q_ports := np\<rparr>)"
      using cancelled_idle(3) [OF W c] c by (simp_all add: listening_def all_cancelled_def)
    then have "sound (mset (np_bound np)) (s\<lparr>q_ports := np\<rparr>)" "all_cancelled (s\<lparr>q_ports := np\<rparr>)"
      using W by (simp_all add: sound_def)
    then have "sound (mset (np_bound np)) s'" unfolding s' by (rule sound_reset) (simp_all add: fail_def sv)
    moreover have "mset (np_bound np) = B" if "\<not> start_leaks (EvStartFinish env) s"
      using that e Pair Inl s' bd by (auto simp: start_leaks_def split: ctl_err.splits)
    ultimately show ?thesis using Pair by (intro exI [of _ "mset (np_bound np)"]) auto
  next
    case (Inr u)
    from Start_finish_Inr [OF Pair [unfolded Inr]] obtain cfg reg m srv np ts np' where
      cfg: "se_load env (q_cfgPath s) = Inr cfg"
      and srv: "proxy_NewServer \<lparr>o_Listen = c_Listen cfg, o_Target = [], o_Dialer = None, o_Matcher = Some m,
       o_Registry = Some reg\<rparr> (q_ports s) = (Inr srv, np)"
      and ts: "buildTunnels reg m (c_Listeners cfg) [] np = (Inr ts, np')"
      and s': "s' = Start_run cfg reg srv ts np' s" by metis
    from buildTunnels_sound [OF ts] obtain L where L: "tunnels_wf ts"
      "mset (np_bound np') = mset (np_bound np) + tunnel_addrs ts + L" "distinct (map l_Listen (c_Listeners cfg)) \<longrightarrow> L = {#}"
      by (auto simp: keys_def)
    have "mset (np_bound np') = mset (np_bound (q_ports s)) + {#srv_addr srv#} + tunnel_addrs ts + L"
      using L(2) proxy_NewServer_Inr(1,4) [OF srv] by simp
    from sound_Start_run [OF S st L(1) this] have "sound (B + L) s'" by (simp add: s')
    moreover have "L = {#}" if "\<not> start_leaks (EvStartFinish env) s"
      using that cfg L(3) by (simp add: start_leaks_def)
    ultimately show ?thesis using Pair by (intro exI [of _ "B + L"]) auto
  qed
qed

section \<open>Every step\<close>

lemma sound_calls:
  assumes S: "sound B s"
  shows "sound B (snd (StopTunnel w n s))" "sound B (snd (StartTunnel n s))" "sound B (sync_act w a s)"
proof -
  have u: "sound B (upd_tunnel n (h_stopped_update f) s)" for f using S by (rule sound_stopped)
  have sp: "sound B (spawn_up m b s1)" if "sound B s1" for m b s1
    using sound_same [OF that, of "spawn_up m b s1"] by (simp add: spawn_up_def same_run_def split: option.splits)
  show "sound B (snd (StopTunnel w n s))" using S u by (simp add: StopTunnel_def sound_unbind)
  show "sound B (snd (StartTunnel n s))"
    using S u by (simp add: StartTunnel_def Let_def sp sound_bind split: option.splits)
  show "sound B (sync_act w a s)" using S by (simp add: sync_act_def sound_bind sound_unbind split: prod.splits)
qed

lemma sound_core: "sound B s \<Longrightarrow> core s' = core s \<Longrightarrow> sound B s'"
  using sound_same same_run_core by blast

lemma same_run_up: "same_run s (up_next s u)" "same_run s (up_return s u)"
  by (simp_all add: up_next_def up_return_def Let_def same_run_def core_fields [OF core_base(2)] split: option.splits)

lemma sound_step:
  assumes S: "sound B s" and e: "ctl_step e s = Some s'"
  shows "\<exists>B'. sound B' s' \<and> (\<not> start_leaks e s \<longrightarrow> B' = B)"
proof (cases "\<exists>env. e = EvStartFinish env")
  case True
  with e show ?thesis using sound_Start_finish [OF S] by (auto split: if_splits)
next
  case False
  have "sound B s'"
  proof (cases e)
    case EvStartBegin
    have "ctl_wf s" using S by (simp add: sound_def)
    moreover from EvStartBegin e have st: "q_state s \<noteq> StateRunning"
      and s': "s' = notify (s\<lparr>q_state := StateStarting, q_lastErr := None\<rparr>)" by (auto simp: Start_begin_def split: if_splits)
    ultimately have c: "all_cancelled s" "q_serving s = []"
      using not_running_cancelled not_running_serving by blast+
    show ?thesis unfolding s' sound_notify by (rule sound_reset [OF S c(1)]) (simp_all add: c(2))
  next
    case (EvStop w)
    with e sound_Stop [OF S] show ?thesis by auto
  next
    case (EvStopTunnel w n)
    with e sound_calls [OF S] show ?thesis by auto
  next
    case (EvStartTunnel n)
    with e sound_calls [OF S] show ?thesis by auto
  next
    case (EvConnect n)
    with e have "same_run s s'"
      by (auto simp: ConnectUpstream_def spawn_up_def same_run_def split: sum.splits option.splits)
    with S show ?thesis by (rule sound_same)
  next
    case (EvDisconnect n)
    with e show ?thesis using sound_core [OF S] by (auto simp: core_calls)
  next
    case (EvAutoconnect on)
    with e have "same_run s s'"
      by (auto simp: ctl_SetAutoconnect_def Let_def same_run_def core_fields [OF core_folds(1)] split: option.splits)
    with S show ?thesis by (rule sound_same)
  next
    case EvSubscribe
    with e have "same_run s s'" by (auto simp: Subscribe_def same_run_def)
    with S show ?thesis by (rule sound_same)
  next
    case (EvUnsubscribe i)
    with e have "same_run s s'" by (auto simp: Unsubscribe_def same_run_def split: if_splits)
    with S show ?thesis by (rule sound_same)
  next
    case (EvUpNext i)
    with e obtain x u where s': "s' = (up_next s u)\<lparr>q_ups := x\<rparr>" by (auto split: if_splits)
    then have "same_run s s'" using same_run_up(1) [of s u] by (simp add: same_run_def)
    with S show ?thesis by (rule sound_same)
  next
    case (EvUpReturn i)
    with e obtain x u where s': "s' = up_return (s\<lparr>q_ups := x\<rparr>) u" by (auto split: if_splits)
    then have "same_run s s'" using same_run_up(2) [of "s\<lparr>q_ups := x\<rparr>" u] by (simp add: same_run_def)
    with S show ?thesis by (rule sound_same)
  next
    case (ConnChange r n b st)
    with e show ?thesis using sound_core [OF S] by (auto split: if_splits)
  next
    case (Dropped r n)
    with e show ?thesis using sound_core [OF S] by (auto simp: core_calls)
  next
    case (TunnelServeEnds n)
    with e show ?thesis using sound_end [OF S] by auto
  next
    case (ProxyServeEnds r err)
    with e obtain p where "serving r s = Some p" "err = None \<longrightarrow> q_cancelled s r" "s' = proxy_end r (server_registry p) err s"
      by (auto split: option.splits if_splits)
    with S show ?thesis by (simp add: sound_proxy_end)
  next
    case SyncDecide
    with e have "same_run s s'" by (auto simp: same_run_def split: list.splits if_splits)
    with S show ?thesis by (rule sound_same)
  next
    case (SyncAct w)
    with e obtain a as where s': "s' = (sync_act w a s)\<lparr>q_queue := as\<rparr>" by (auto split: list.splits)
    have "same_run (sync_act w a s) s'" by (simp add: s' same_run_def)
    with sound_calls(3) [OF S] show ?thesis by (rule sound_same)
  qed (use False in blast)
  then show ?thesis by blast
qed

interpretation ctl_ports: machine_invariant ctl_step "ctl_New path np" "\<lambda>s. \<exists>B. sound B s" for path np
proof
  show "\<exists>B. sound B (ctl_New path np)"
    by (intro exI [of _ "mset (np_bound np)"])
      (simp add: sound_def ctl_wf_def run_wf_def alive_wf_def running_def run_ended_def listening_def ctl_New_def)
  show "\<exists>B. sound B s'" if "ctl_reach path np s" "\<exists>B. sound B s" "ctl_step e s = Some s'" for s e s'
    using that sound_step by blast
qed

section \<open>Properties\<close>

text \<open>C6. The controller is well-formed in every reachable state: the fields of a run are set and cleared
  together, tunnels are filed once each under the address they listen on, only the current run of a
  running controller is alive and has a proxy, and every address that something is taken to listen on
  is bound by this process.\<close>

theorem controller_well_formed:
  assumes "ctl_reach path np s"
  shows "ctl_wf s \<and> listening s \<subseteq># mset (np_bound (q_ports s))
    \<and> (\<forall>n h srv. map_of (q_tunnels s) n = Some h \<longrightarrow> h_run h = Some (Bound srv) \<longrightarrow>
         srv_addr srv = n \<and> n \<in> set (np_bound (q_ports s)))"
proof -
  obtain B where B: "sound B s" using ctl_ports.holds [OF assms] by blast
  have "srv_addr srv = n \<and> n \<in> set (np_bound (q_ports s))"
    if "map_of (q_tunnels s) n = Some h" "h_run h = Some (Bound srv)" for n h srv
    using handle_bound [OF B that] by simp
  with B show ?thesis by (simp add: sound_def)
qed

lemma controller_well_formed_witness:
  "\<exists>s h srv. run_events ctl_step (sample_connected @ [SyncAct False]) sample_ctl = Some s
     \<and> map_of (q_tunnels s) sample_tunnel = Some h \<and> h_run h = Some (Bound srv) \<and> srv_addr srv = sample_tunnel
     \<and> sample_tunnel \<in> set (np_bound (q_ports s))"
proof -
  let ?run = "run_events ctl_step (sample_connected @ [SyncAct False]) sample_ctl"
  have "map_option (\<lambda>s. case map_of (q_tunnels s) sample_tunnel of None \<Rightarrow> False
      | Some h \<Rightarrow> (case h_run h of Some (Bound _) \<Rightarrow> True | _ \<Rightarrow> False)) ?run = Some True" by code_simp
  then obtain s where s: "?run = Some s" "case map_of (q_tunnels s) sample_tunnel of None \<Rightarrow> False
      | Some h \<Rightarrow> (case h_run h of Some (Bound _) \<Rightarrow> True | _ \<Rightarrow> False)" by blast
  then obtain h srv where "map_of (q_tunnels s) sample_tunnel = Some h" "h_run h = Some (Bound srv)"
    by (auto split: option.splits tunnel_run.splits)
  note s = s(1) this
  from controller_well_formed [OF run_reachable [OF s(1) [unfolded sample_ctl_def]]] s show ?thesis by blast
qed

lemma sound_run:
  "sound B s \<Longrightarrow> run_events ctl_step es s = Some s' \<Longrightarrow> avoids ctl_step start_leaks es s \<Longrightarrow> sound B s'"
proof (induction es arbitrary: s)
  case (Cons e es)
  then obtain s1 where s1: "ctl_step e s = Some s1" "run_events ctl_step es s1 = Some s'"
    and a: "\<not> start_leaks e s" "avoids ctl_step start_leaks es s1" by (auto split: option.splits)
  from sound_step [OF Cons.prems(1) s1(1)] a(1) have "sound B s1" by blast
  with Cons.IH s1(2) a(2) show ?case by blast
qed simp

lemma sound_New: "sound (mset (np_bound np)) (ctl_New path np)"
  by (simp add: sound_def ctl_wf_def run_wf_def alive_wf_def running_def run_ended_def listening_def ctl_New_def)


definition sample_fault :: "ctl_event list" where
  "sample_fault = [EvStartBegin, EvStartFinish sample_start, ProxyServeEnds 0 (Some ''accept'')]"


end
