(* ===== verification/ServerLife.thy ===== *)
theory ServerLife
  imports Serve Machine
begin

text \<open>
  How a bound server serves (\<open>Serve\<close>, \<open>Close\<close> and \<open>Addr\<close>, which \<open>pkg/proxy/server.go\<close>,
  \<open>pkg/socks5server/server.go\<close> and \<open>pkg/portforward/server.go\<close> write alike) and the error
  group in which \<open>runServe\<close> of \<open>internal/cli/serve.go\<close> runs all of them: a machine of the accept loops,
  the goroutines that wait for the context, connections and signals.
\<close>

section \<open>One server\<close>

text \<open>
  The accept loop: \<open>AcceptFailed\<close> is between an error of \<open>Accept\<close> and the look at the context. \<open>lf_waits\<close> is
  the goroutine that closes the listener when the context ends.
\<close>

datatype serve_pc = ServeIdle | Accepting | AcceptFailed | ServeReturned "string option"

record life =
  lf_ln :: "string option"
  lf_open :: bool
  lf_waits :: bool
  lf_serve :: serve_pc
  lf_handled :: nat

definition life_of :: "server \<Rightarrow> life" where
  "life_of srv = \<lparr>lf_ln = Some (srv_addr srv), lf_open = True, lf_waits = False, lf_serve = ServeIdle, lf_handled = 0\<rparr>"

definition life_Addr :: "life \<Rightarrow> string" where
  "life_Addr l = (case lf_ln l of None \<Rightarrow> [] | Some a \<Rightarrow> a)"

text \<open>Closing a listener that is closed already is an error of the net package, and changes nothing.\<close>

definition life_Close :: "life \<Rightarrow> (string + unit) \<times> life" where
  "life_Close l =
     (case lf_ln l of
        None \<Rightarrow> (Inr (), l)
      | Some _ \<Rightarrow>
          (if lf_open l then Inr () else Inl ''use of closed network connection'', l\<lparr>lf_open := False\<rparr>))"

definition life_Serve :: "life \<Rightarrow> life" where
  "life_Serve l =
     (case lf_ln l of
        None \<Rightarrow> l\<lparr>lf_serve := ServeReturned (Some ''listener closed'')\<rparr>
      | Some _ \<Rightarrow> l\<lparr>lf_serve := Accepting, lf_waits := True\<rparr>)"

datatype life_event = CallServe | CallClose | CtxSeen | AcceptConn | AcceptFails | CtxCheck

fun life_step :: "bool \<Rightarrow> life_event \<Rightarrow> life \<Rightarrow> life option" where
  "life_step ctx CallServe l = (if lf_serve l = ServeIdle then Some (life_Serve l) else None)"
| "life_step ctx CallClose l = Some (snd (life_Close l))"
| "life_step ctx CtxSeen l =
     (if lf_waits l \<and> ctx then Some ((snd (life_Close l))\<lparr>lf_waits := False\<rparr>) else None)"
| "life_step ctx AcceptConn l =
     (if lf_serve l = Accepting \<and> lf_open l then Some (l\<lparr>lf_handled := Suc (lf_handled l)\<rparr>) else None)"
| "life_step ctx AcceptFails l = (if lf_serve l = Accepting then Some (l\<lparr>lf_serve := AcceptFailed\<rparr>) else None)"
| "life_step ctx CtxCheck l =
     (if lf_serve l = AcceptFailed
      then Some (l\<lparr>lf_serve := ServeReturned (if ctx then None else Some ''accept'')\<rparr>) else None)"

section \<open>The error group of runServe\<close>

text \<open>
  The first server to return an error decides the result and ends the context of all; so does a signal,
  without a result.
\<close>

record group =
  gr_cancelled :: bool
  gr_err :: "string option"
  gr_servers :: "life list"

definition group_init :: "server list \<Rightarrow> group" where
  "group_init srvs = \<lparr>gr_cancelled = False, gr_err = None, gr_servers = map life_of srvs\<rparr>"

datatype group_event = SignalStop | InServer nat life_event

definition group_return :: "life \<Rightarrow> group \<Rightarrow> group" where
  "group_return l g =
     (case lf_serve l of
        ServeReturned (Some e) \<Rightarrow> if gr_err g = None then g\<lparr>gr_err := Some e, gr_cancelled := True\<rparr> else g
      | _ \<Rightarrow> g)"

fun group_step :: "group_event \<Rightarrow> group \<Rightarrow> group option" where
  "group_step SignalStop g = Some (g\<lparr>gr_cancelled := True\<rparr>)"
| "group_step (InServer i e) g =
     (if i < length (gr_servers g) \<and> e \<noteq> CallClose
      then map_option (\<lambda>l. group_return l (g\<lparr>gr_servers := (gr_servers g)[i := l]\<rparr>))
             (life_step (gr_cancelled g) e (gr_servers g ! i))
      else None)"

fun returned :: "life \<Rightarrow> bool" where
  "returned l = (case lf_serve l of ServeReturned _ \<Rightarrow> True | _ \<Rightarrow> False)"

text \<open>\<open>g.Wait()\<close>: \<open>None\<close> while it blocks.\<close>

definition group_Wait :: "group \<Rightarrow> string option option" where
  "group_Wait g = (if list_all returned (gr_servers g) then Some (gr_err g) else None)"

section \<open>Invariant\<close>

definition life_ok :: "bool \<Rightarrow> life \<Rightarrow> bool" where
  "life_ok ctx l \<longleftrightarrow> lf_ln l \<noteq> None \<and> (\<not> lf_open l \<longrightarrow> ctx)
     \<and> (lf_serve l = ServeReturned None \<longrightarrow> ctx) \<and> (lf_serve l = ServeIdle \<longrightarrow> \<not> lf_waits l)
     \<and> (lf_serve l \<noteq> ServeIdle \<longrightarrow> lf_open l \<longrightarrow> lf_waits l)"

definition group_ok :: "group \<Rightarrow> bool" where
  "group_ok g \<longleftrightarrow> (\<forall>l \<in> set (gr_servers g). life_ok (gr_cancelled g) l)
     \<and> (gr_err g \<noteq> None \<longrightarrow> gr_cancelled g)
     \<and> (\<forall>l \<in> set (gr_servers g). \<forall>e. lf_serve l = ServeReturned (Some e) \<longrightarrow> gr_err g \<noteq> None)"

lemma life_ok_mono: "life_ok ctx l \<Longrightarrow> life_ok True l"
  by (simp add: life_ok_def)

lemma life_ok_step: "life_ok ctx l \<Longrightarrow> life_step ctx e l = Some l' \<Longrightarrow> e \<noteq> CallClose \<Longrightarrow> life_ok ctx l'"
  by (cases e) (auto simp: life_ok_def life_Close_def life_Serve_def split: if_splits option.splits)

lemma group_return_fields:
  "gr_servers (group_return l g) = gr_servers g" "gr_cancelled g \<Longrightarrow> gr_cancelled (group_return l g)"
  "gr_err g \<noteq> None \<Longrightarrow> group_return l g = g"
  by (auto simp: group_return_def split: serve_pc.splits option.splits)

lemma group_ok_step:
  assumes I: "group_ok g" and e: "group_step e g = Some g'"
  shows "group_ok g'"
proof (cases e)
  case SignalStop
  have "\<forall>l \<in> set (gr_servers g). life_ok True l" using I life_ok_mono unfolding group_ok_def by blast
  with SignalStop e I show ?thesis by (auto simp: group_ok_def)
next
  case (InServer i ev)
  with e obtain l where i: "i < length (gr_servers g)" "ev \<noteq> CallClose"
    and l: "life_step (gr_cancelled g) ev (gr_servers g ! i) = Some l"
    and g': "g' = group_return l (g\<lparr>gr_servers := (gr_servers g)[i := l]\<rparr>)" by (auto split: if_splits)
  have ok: "life_ok (gr_cancelled g) l" using life_ok_step [OF _ l i(2)] I i(1) by (simp add: group_ok_def)
  have m: "\<forall>x \<in> set (gr_servers g'). x = l \<or> x \<in> set (gr_servers g)"
    using set_update_subset_insert [of "gr_servers g" i l] by (auto simp: g' group_return_fields)
  then have lo: "\<forall>x \<in> set (gr_servers g'). life_ok (gr_cancelled g) x" using ok I by (auto simp: group_ok_def)
  show ?thesis
  proof (cases "gr_err g = None \<and> (\<exists>x. lf_serve l = ServeReturned (Some x))")
    case True
    then have "gr_err g' \<noteq> None" "gr_cancelled g'" by (auto simp: g' group_return_def)
    with lo show ?thesis by (auto simp: group_ok_def dest: life_ok_mono)
  next
    case False
    then have "gr_err g' = gr_err g" "gr_cancelled g' = gr_cancelled g"
      by (auto simp: g' group_return_def split: serve_pc.splits option.splits)
    with lo m False I show ?thesis by (auto simp: group_ok_def)
  qed
qed

interpretation group: machine_invariant group_step "group_init srvs" group_ok for srvs
proof
  show "group_ok (group_init srvs)" by (auto simp: group_ok_def group_init_def life_ok_def life_of_def)
  show "group_ok g'" if "reachable group_step (group_init srvs) g" "group_ok g" "group_step e g = Some g'" for g e g'
    using that group_ok_step by blast
qed

section \<open>Ending\<close>

lemma cancelled_keeps_result:
  assumes I: "group_ok g" and c: "gr_cancelled g" and e: "group_step ev g = Some g'"
  shows "gr_cancelled g' \<and> gr_err g' = gr_err g"
proof (cases ev)
  case SignalStop
  with e show ?thesis by auto
next
  case (InServer i x)
  with e c obtain l where i: "i < length (gr_servers g)" and l: "life_step True x (gr_servers g ! i) = Some l"
    and g': "g' = group_return l (g\<lparr>gr_servers := (gr_servers g)[i := l]\<rparr>)" by (auto split: if_splits)
  have ok: "life_ok True (gr_servers g ! i)" using I i c by (simp add: group_ok_def)
  have "gr_err g \<noteq> None" if "lf_serve l = ServeReturned (Some m)" for m
  proof -
    have "lf_serve (gr_servers g ! i) = ServeReturned (Some m)"
      using l that ok by (cases x) (auto simp: life_ok_def life_Close_def life_Serve_def split: if_splits option.splits)
    with I i show ?thesis by (auto simp: group_ok_def)
  qed
  with c g' show ?thesis by (auto simp: group_return_def split: serve_pc.splits option.splits)
qed

lemma cancelled_keeps_result_run:
  "group_ok g \<Longrightarrow> gr_cancelled g \<Longrightarrow> run_events group_step es g = Some g' \<Longrightarrow> gr_cancelled g' \<and> gr_err g' = gr_err g"
proof (induction es arbitrary: g)
  case (Cons e es)
  then obtain g1 where g1: "group_step e g = Some g1" "run_events group_step es g1 = Some g'" by (auto split: option.splits)
  have "group_ok g1" "gr_cancelled g1" "gr_err g1 = gr_err g"
    using group_ok_step [OF Cons.prems(1) g1(1)] cancelled_keeps_result [OF Cons.prems(1,2) g1(1)] by auto
  with Cons.IH [OF _ _ g1(2)] show ?case by simp
qed simp

text \<open>One server ends: the goroutine closes the listener, \<open>Accept\<close> fails, and the loop sees the context.\<close>

definition life_end :: "life \<Rightarrow> life_event list" where
  "life_end l =
     (if lf_serve l = ServeIdle then [CallServe, CtxSeen] else if lf_waits l then [CtxSeen] else [])
     @ (if lf_serve l = ServeIdle \<or> lf_serve l = Accepting then [AcceptFails, CtxCheck]
        else if lf_serve l = AcceptFailed then [CtxCheck] else [])"

lemma life_ends:
  assumes "life_ok True l"
  shows "length (life_end l) \<le> 4 \<and> CallClose \<notin> set (life_end l)
    \<and> (\<exists>l'. run_events (life_step True) (life_end l) l = Some l' \<and> returned l' \<and> \<not> lf_open l')"
  using assms by (cases "lf_serve l")
    (auto simp: life_end_def life_ok_def life_Close_def life_Serve_def split: option.splits)

lemma group_run_server:
  assumes "run_events (life_step True) es (gr_servers g ! i) = Some l'" "CallClose \<notin> set es"
    and "group_ok g" "gr_cancelled g" "i < length (gr_servers g)"
  shows "\<exists>g'. run_events group_step (map (InServer i) es) g = Some g' \<and> gr_servers g' = (gr_servers g)[i := l']"
  using assms
proof (induction es arbitrary: g)
  case (Cons e es)
  then obtain l where l: "life_step True e (gr_servers g ! i) = Some l" "run_events (life_step True) es l = Some l'"
    by (auto split: option.splits)
  define g1 where "g1 = group_return l (g\<lparr>gr_servers := (gr_servers g)[i := l]\<rparr>)"
  have "e \<noteq> CallClose" using Cons.prems(2) by auto
  then have s: "group_step (InServer i e) g = Some g1" using Cons.prems l by (simp add: g1_def)
  have g1: "gr_servers g1 = (gr_servers g)[i := l]" by (simp add: g1_def group_return_fields)
  from Cons.IH [of g1] obtain g' where "run_events group_step (map (InServer i) es) g1 = Some g'"
    "gr_servers g' = (gr_servers g1)[i := l']"
    using l(2) Cons.prems g1 group_ok_step [OF Cons.prems(3) s] cancelled_keeps_result [OF Cons.prems(3,4) s] by auto
  with s g1 show ?case by (auto simp del: group_step.simps)
qed auto

lemma group_ends:
  assumes "group_ok g" "gr_cancelled g" "k \<le> length (gr_servers g)"
  shows "\<exists>es g'. length es \<le> 4 * k \<and> run_events group_step es g = Some g' \<and> length (gr_servers g') = length (gr_servers g)
    \<and> (\<forall>j < k. returned (gr_servers g' ! j) \<and> \<not> lf_open (gr_servers g' ! j))"
  using assms(3)
proof (induction k)
  case (Suc k)
  then obtain es g1 where es: "length es \<le> 4 * k" "run_events group_step es g = Some g1"
    "length (gr_servers g1) = length (gr_servers g)" "\<forall>j < k. returned (gr_servers g1 ! j) \<and> \<not> lf_open (gr_servers g1 ! j)"
    by auto
  have ok: "group_ok g1" using run_events_preserves [of group_ok group_step g es g1] group_ok_step assms(1) es(2) by blast
  have c: "gr_cancelled g1" using cancelled_keeps_result_run [OF assms(1,2) es(2)] by blast
  let ?l = "gr_servers g1 ! k"
  have k: "k < length (gr_servers g1)" using Suc.prems es(3) by simp
  then have "life_ok True ?l" using ok c by (simp add: group_ok_def)
  from life_ends [OF this] obtain l' where l': "length (life_end ?l) \<le> 4" "CallClose \<notin> set (life_end ?l)"
    "run_events (life_step True) (life_end ?l) ?l = Some l'" "returned l'" "\<not> lf_open l'" by blast
  from group_run_server [OF l'(3,2) ok c k] obtain g' where
    g': "run_events group_step (map (InServer k) (life_end ?l)) g1 = Some g'" "gr_servers g' = (gr_servers g1)[k := l']" by blast
  have "run_events group_step (es @ map (InServer k) (life_end ?l)) g = Some g'"
    using es(2) g'(1) by (simp add: run_events_append)
  then show ?case
    using es l' g'(2) k by (intro exI [of _ "es @ map (InServer k) (life_end ?l)"] exI [of _ g'])
      (auto simp: nth_list_update less_Suc_eq)
qed (intro exI [of _ "[]"], simp)

section \<open>Properties\<close>

text \<open>C13. \<open>serve\<close> ends properly: once it has been signalled or a server has failed, every server can be
  brought to return in at most four steps each, with its listener closed, and \<open>Wait\<close> then returns; the
  result is settled at that moment whatever happens afterwards: nil for a signal that came first, the
  error of the first server that failed otherwise.\<close>

theorem serve_group_ends:
  assumes "reachable group_step (group_init srvs) g" "gr_cancelled g"
  shows "(\<exists>es g'. length es \<le> 4 * length srvs \<and> run_events group_step es g = Some g'
      \<and> group_Wait g' = Some (gr_err g) \<and> (\<forall>l \<in> set (gr_servers g'). \<not> lf_open l))
    \<and> (\<forall>es g'. run_events group_step es g = Some g' \<longrightarrow> gr_err g' = gr_err g)"
proof (intro conjI allI impI)
  have ok: "group_ok g" using group.holds [OF assms(1)] .
  have "length (gr_servers g) = length srvs"
    using assms(1)
  proof (induction rule: reachable.induct)
    case (reach_step g e g')
    then show ?case by (cases e) (auto simp: group_return_fields split: if_splits)
  qed (simp add: group_init_def)
  with group_ends [OF ok assms(2), of "length srvs"] obtain es g' where
    es: "length es \<le> 4 * length srvs" "run_events group_step es g = Some g'"
    and all: "\<forall>j < length (gr_servers g'). returned (gr_servers g' ! j) \<and> \<not> lf_open (gr_servers g' ! j)" by auto
  moreover have "gr_err g' = gr_err g" using cancelled_keeps_result_run [OF ok assms(2) es(2)] by blast
  moreover have "list_all returned (gr_servers g')" "\<forall>l \<in> set (gr_servers g'). \<not> lf_open l"
    using all by (auto simp: list_all_length in_set_conv_nth)
  ultimately show "\<exists>es g'. length es \<le> 4 * length srvs \<and> run_events group_step es g = Some g'
      \<and> group_Wait g' = Some (gr_err g) \<and> (\<forall>l \<in> set (gr_servers g'). \<not> lf_open l)"
    unfolding group_Wait_def by metis
  show "gr_err g' = gr_err g" if "run_events group_step es g = Some g'" for es g'
    using cancelled_keeps_result_run [OF ok assms(2) that] by blast
qed

text \<open>Two servers, one with a connection, when a signal arrives; and the same when the other fails first.\<close>

definition sample_opts :: server_opts where
  "sample_opts = \<lparr>o_Listen = ''127.0.0.1:8888'', o_Target = [], o_Dialer = None, o_Matcher = None, o_Registry = None\<rparr>"

definition sample_servers :: "server list" where
  "sample_servers = [\<lparr>srv_kind = HTTPProxy, srv_opts = sample_opts\<rparr>, \<lparr>srv_kind = Socks5, srv_opts = sample_opts\<rparr>]"

definition sample_serving :: "group_event list" where
  "sample_serving = [InServer 0 CallServe, InServer 1 CallServe, InServer 0 AcceptConn]"

lemma serve_group_ends_witness:
  "\<exists>g g'. run_events group_step (sample_serving @ [SignalStop]) (group_init sample_servers) = Some g
     \<and> run_events group_step (sample_serving @ [InServer 1 AcceptFails, InServer 1 CtxCheck]) (group_init sample_servers) = Some g'
     \<and> (\<exists>es g1. length es \<le> 8 \<and> run_events group_step es g = Some g1 \<and> group_Wait g1 = Some None)
     \<and> (\<exists>es g1. length es \<le> 8 \<and> run_events group_step es g' = Some g1 \<and> group_Wait g1 = Some (Some ''accept''))"
proof -
  let ?es = "sample_serving @ [SignalStop]" and ?es' = "sample_serving @ [InServer 1 AcceptFails, InServer 1 CtxCheck]"
  have "map_option (\<lambda>g. (gr_cancelled g, gr_err g)) (run_events group_step ?es (group_init sample_servers)) = Some (True, None)"
    "map_option (\<lambda>g. (gr_cancelled g, gr_err g)) (run_events group_step ?es' (group_init sample_servers)) = Some (True, Some ''accept'')"
    by code_simp+
  then obtain g g' where g: "run_events group_step ?es (group_init sample_servers) = Some g" "gr_cancelled g" "gr_err g = None"
    "run_events group_step ?es' (group_init sample_servers) = Some g'" "gr_cancelled g'" "gr_err g' = Some ''accept''"
    by auto
  have n: "4 * length sample_servers = 8" by (simp add: sample_servers_def)
  from serve_group_ends [OF run_reachable [OF g(1)] g(2)] serve_group_ends [OF run_reachable [OF g(4)] g(5)] g(1,3,4,6)
  show ?thesis unfolding n by metis
qed

text \<open>\<open>Close\<close> calls itself idempotent: it is in what it leaves, but a second call returns an error.\<close>

theorem Close_twice:
  assumes "lf_ln l = Some a" "life_Close l = (res, l')"
  shows "life_Close l' = (Inl ''use of closed network connection'', l')"
  using assms by (auto simp: life_Close_def)

lemma Close_twice_witness:
  "fst (life_Close (snd (life_Close (life_of \<lparr>srv_kind = HTTPProxy, srv_opts = sample_opts\<rparr>))))
     = Inl ''use of closed network connection''"
proof -
  let ?l = "life_of \<lparr>srv_kind = HTTPProxy, srv_opts = sample_opts\<rparr>"
  have "lf_ln ?l = Some (o_Listen sample_opts)" by (simp add: life_of_def srv_addr_def)
  from Close_twice [OF this, of "fst (life_Close ?l)" "snd (life_Close ?l)"] show ?thesis by simp
qed

end
