(* ===== verification/Commands.thy ===== *)
theory Commands
  imports ServerLife
begin

text \<open>
  The \<open>dockprox\<close> command around \<open>serve\<close> (\<open>cmd/dockprox/dockprox.go\<close>, \<open>internal/cli/root.go\<close>,
  \<open>internal/cli/version.go\<close>, \<open>newServeCmd\<close> of \<open>internal/cli/serve.go\<close>), and what the menu bar app starts
  (\<open>internal/menubar/reveal.go\<close>). Parsing the command line is cobra's; errors are the texts they print.
\<close>

section \<open>The commands\<close>

text \<open>\<open>Execute\<close>: its result, and what it prints to standard error, beside the output of \<open>fang\<close>.\<close>

definition Execute :: "string + unit \<Rightarrow> (string + unit) \<times> string" where
  "Execute result = (result, case result of Inl err \<Rightarrow> err @ [CHR 0x0A] | Inr _ \<Rightarrow> [])"

text \<open>\<open>run\<close>: the exit code and standard error; \<open>cli\<close> is what the chosen command does with the secrets.\<close>

definition dockprox_run :: "(resolver \<Rightarrow> string + unit) \<Rightarrow> nat \<times> string" where
  "dockprox_run cli =
     (case Execute (cli (secret_new [WithCmd])) of (Inl _, err) \<Rightarrow> (1, err) | (Inr _, err) \<Rightarrow> (0, err))"

text \<open>\<open>serve\<close>, once it has started or failed to, with what happens to its servers; \<open>None\<close> while it runs.\<close>

definition serve_command :: "(run_err \<Rightarrow> string) \<Rightarrow> run_err + server list \<Rightarrow> group_event list \<Rightarrow> (string + unit) option" where
  "serve_command text start es =
     (case start of
        Inl e \<Rightarrow> Some (Inl (text e))
      | Inr srvs \<Rightarrow>
          (case run_events group_step es (group_init srvs) of
             None \<Rightarrow> None
           | Some g \<Rightarrow> map_option (\<lambda>r. case r of None \<Rightarrow> Inr () | Some e \<Rightarrow> Inl e) (group_Wait g)))"

definition version_line :: "string \<Rightarrow> string \<Rightarrow> string \<Rightarrow> string" where
  "version_line version commitHash buildTimestamp =
     ''dockprox '' @ version @ '' ('' @ commitHash @ '') built '' @ buildTimestamp @ [CHR 0x0A]"

definition buildRevealCommand :: "string \<Rightarrow> string list" where
  "buildRevealCommand path = [''open'', ''-R'', path]"

definition openReleases :: "string list" where
  "openReleases = [''open'', ''https://github.com/foomo/dockprox/releases'']"

section \<open>Why serve ends\<close>

text \<open>Without a signal only an error ends the context of the servers.\<close>

lemma group_return_error:
  "gr_cancelled g \<longrightarrow> gr_err g \<noteq> None \<Longrightarrow> gr_cancelled (group_return l g) \<longrightarrow> gr_err (group_return l g) \<noteq> None"
  by (cases "lf_serve l") (auto simp: group_return_def split: option.splits)

lemma cancelled_by_error:
  assumes "run_events group_step es g = Some g'" "SignalStop \<notin> set es" "gr_cancelled g \<longrightarrow> gr_err g \<noteq> None"
  shows "gr_cancelled g' \<longrightarrow> gr_err g' \<noteq> None"
  using assms
proof (induction es arbitrary: g)
  case (Cons e es)
  then obtain g1 where s: "group_step e g = Some g1" "run_events group_step es g1 = Some g'"
    by (auto split: option.splits)
  obtain i ev where "e = InServer i ev" using Cons.prems(2) by (cases e) auto
  with s(1) obtain l where "g1 = group_return l (g\<lparr>gr_servers := (gr_servers g)[i := l]\<rparr>)" by (auto split: if_splits)
  with Cons.prems(3) have "gr_cancelled g1 \<longrightarrow> gr_err g1 \<noteq> None" using group_return_error by simp
  with Cons.IH [OF s(2)] Cons.prems(2) show ?case by simp
qed simp

lemma group_ends_by_signal:
  assumes "run_events group_step es (group_init srvs) = Some g" "srvs \<noteq> []" "group_Wait g = Some None"
  shows "SignalStop \<in> set es"
proof (rule ccontr)
  assume n: "SignalStop \<notin> set es"
  have ok: "group_ok g" by (rule group.holds_run [OF assms(1)])
  have "length (gr_servers g) = length srvs" if "run_events group_step es (group_init srvs) = Some g" for es
  proof -
    have "run_events group_step es h = Some g \<Longrightarrow> length (gr_servers g) = length (gr_servers h)" for h
    proof (induction es arbitrary: h)
      case (Cons e es)
      then obtain h1 where "group_step e h = Some h1" "run_events group_step es h1 = Some g" by (auto split: option.splits)
      moreover from this(1) have "length (gr_servers h1) = length (gr_servers h)"
        by (cases e) (auto simp: group_return_fields split: if_splits)
      ultimately show ?case using Cons.IH by simp
    qed simp
    from this [OF that] show ?thesis by (simp add: group_init_def)
  qed
  with assms obtain l where l: "l \<in> set (gr_servers g)" by (cases "gr_servers g") auto
  have w: "list_all returned (gr_servers g)" "gr_err g = None" using assms(3) by (auto simp: group_Wait_def split: if_splits)
  with l ok have "lf_serve l = ServeReturned None"
    by (cases "lf_serve l") (fastforce simp: list_all_iff group_ok_def)+
  with l ok have "gr_cancelled g" by (auto simp: group_ok_def life_ok_def)
  with cancelled_by_error [OF assms(1) n] w show False by (simp add: group_init_def)
qed

section \<open>Properties\<close>

text \<open>C15. The exit code of \<open>dockprox serve\<close> tells why it ended: 0 only after a signal, and then it prints no error;
  1 when it could not start, or when a server failed first, with the error on standard error. It
  never ends by itself without an error.\<close>

theorem serve_exit_code:
  assumes "runServe urlp stdin file os errs env ups2 f r np = (start, np')"
    and "serve_command text start es = Some outcome" "dockprox_run (\<lambda>_. outcome) = (code, err)"
  shows "(code = 0 \<and> err = [] \<and> (\<exists>srvs. start = Inr srvs) \<and> SignalStop \<in> set es)
    \<or> (code = 1 \<and> (\<exists>e. start = Inl e \<and> err = text e @ [CHR 0x0A]))
    \<or> (code = 1 \<and> (\<exists>srvs g e. start = Inr srvs \<and> run_events group_step es (group_init srvs) = Some g
         \<and> gr_err g = Some e \<and> err = e @ [CHR 0x0A]))"
proof (cases start)
  case (Inl e)
  with assms(2,3) show ?thesis by (auto simp: serve_command_def dockprox_run_def Execute_def)
next
  case (Inr srvs)
  have ne: "srvs \<noteq> []"
  proof -
    from Inr assms(1) have "runServe urlp stdin file os errs env ups2 f r np = (Inr srvs, np')" by simp
    from runServe_Inr [OF this] show ?thesis by (metis list.distinct(1))
  qed
  from assms(2) Inr obtain g res where g: "run_events group_step es (group_init srvs) = Some g" "group_Wait g = Some res"
    "outcome = (case res of None \<Rightarrow> Inr () | Some e \<Rightarrow> Inl e)"
    by (auto simp: serve_command_def split: option.splits)
  show ?thesis
  proof (cases res)
    case None
    with group_ends_by_signal [OF g(1) ne] g(2,3) Inr assms(3) show ?thesis
      by (simp add: dockprox_run_def Execute_def)
  next
    case (Some e)
    then have "gr_err g = Some e" using g(2) by (auto simp: group_Wait_def split: if_splits)
    with Some g Inr assms(3) show ?thesis by (auto simp: dockprox_run_def Execute_def)
  qed
qed

text \<open>Each server is called, sees the signal, and returns.\<close>

definition sample_shutdown :: "nat \<Rightarrow> group_event list" where
  "sample_shutdown n = map (\<lambda>i. InServer i CallServe) [0..<n] @ SignalStop
     # concat (map (\<lambda>i. [InServer i CtxSeen, InServer i AcceptFails, InServer i CtxCheck]) [0..<n])"

lemma serve_exit_code_witness:
  "\<exists>start np' outcome. runServe (\<lambda>_. None) (Inl VersionRequired) (\<lambda>_. Inr sample_config) sample_env (\<lambda>_. None) sample_build
      (c_Upstreams sample_config) sample_flags (secret_new []) sample_ports = (start, np')
    \<and> serve_command (\<lambda>_. []) start (sample_shutdown (Suc (length (c_Listeners sample_config)))) = Some outcome
    \<and> dockprox_run (\<lambda>_. outcome) = (0, []) \<and> ok start"
proof -
  let ?run = "runServe (\<lambda>_. None) (Inl VersionRequired) (\<lambda>_. Inr sample_config) sample_env (\<lambda>_. None) sample_build
      (c_Upstreams sample_config) sample_flags (secret_new []) sample_ports"
  let ?es = "sample_shutdown (Suc (length (c_Listeners sample_config)))"
  have s: "serve_command (\<lambda>_. []) (fst ?run) ?es = Some (Inr ())" by code_simp
  have r: "?run = (fst ?run, snd ?run)" by simp
  have d: "dockprox_run (\<lambda>_. Inr ()) = (0, [])" by (simp add: dockprox_run_def Execute_def)
  from serve_exit_code [OF r s d] have "ok (fst ?run)" by (auto simp: ok_iff)
  with r s d show ?thesis by blast
qed

end
