(* ===== verification/SshDialer.thy ===== *)
theory SshDialer
  imports Prelude
begin

text \<open>
  \<open>pkg/upstream/ssh.go\<close> and the connection calls of \<open>pkg/upstream/openconnect.go\<close>: an ssh upstream brings
  up the upstream it goes through before it touches its own client. The blocking calls of the
  two clients (theories SshClient and VpnClient) are functions on a state that both share.
\<close>

section \<open>Operations\<close>

text \<open>
  What an \<open>SSHDialer\<close> is made of: \<open>via\<close> has \<open>Connect\<close> and \<open>Up\<close> when it holds a connection itself; they are
  \<open>None\<close> for the other upstreams and when there is no via.
\<close>

record ('s, 'e, 'c) ssh_dialer =
  sd_viaName :: string
  sd_viaConnect :: "('s \<Rightarrow> ('e + unit) \<times> 's) option"
  sd_viaUp :: "('s \<Rightarrow> ('e + unit) \<times> 's) option"
  sd_MarkConnecting :: "'s \<Rightarrow> 's"
  sd_Get :: "'s \<Rightarrow> ('e + unit) \<times> 's"
  sd_cliUp :: "'s \<Rightarrow> ('e + unit) \<times> 's"
  sd_DialContext :: "string \<Rightarrow> 's \<Rightarrow> ('e + 'c) \<times> 's"

datatype 'e dialer_err = ViaErr string 'e | ClientErr 'e

definition client_result :: "('e + 'a) \<times> 's \<Rightarrow> ('e dialer_err + 'a) \<times> 's" where
  "client_result r = (case r of (Inl e, s) \<Rightarrow> (Inl (ClientErr e), s) | (Inr x, s) \<Rightarrow> (Inr x, s))"

text \<open>Go on with \<open>k\<close> unless the call on the via fails.\<close>

definition after_via ::
  "('s, 'e, 'c) ssh_dialer \<Rightarrow> ('e + unit) \<times> 's \<Rightarrow> ('s \<Rightarrow> ('e dialer_err + 'a) \<times> 's) \<Rightarrow> ('e dialer_err + 'a) \<times> 's"
where
  "after_via d r k = (case r of (Inl e, s) \<Rightarrow> (Inl (ViaErr (sd_viaName d) e), s) | (Inr _, s) \<Rightarrow> k s)"

definition connectVia ::
  "('s, 'e, 'c) ssh_dialer \<Rightarrow> 's \<Rightarrow> ('s \<Rightarrow> ('e dialer_err + 'a) \<times> 's) \<Rightarrow> ('e dialer_err + 'a) \<times> 's"
where
  "connectVia d s k = (case sd_viaConnect d of None \<Rightarrow> k s | Some connect \<Rightarrow> after_via d (connect s) k)"

definition ssh_Dial :: "('s, 'e, 'c) ssh_dialer \<Rightarrow> string \<Rightarrow> 's \<Rightarrow> ('e dialer_err + 'c) \<times> 's" where
  "ssh_Dial d hostPort s = connectVia d s (\<lambda>s. client_result (sd_DialContext d hostPort s))"

definition ssh_Connect :: "('s, 'e, 'c) ssh_dialer \<Rightarrow> 's \<Rightarrow> ('e dialer_err + unit) \<times> 's" where
  "ssh_Connect d s = connectVia d s (\<lambda>s. client_result (sd_Get d (sd_MarkConnecting d s)))"

definition ssh_Up :: "('s, 'e, 'c) ssh_dialer \<Rightarrow> 's \<Rightarrow> ('e dialer_err + unit) \<times> 's" where
  "ssh_Up d s =
     (case sd_viaUp d of
        Some up \<Rightarrow> after_via d (up s) (\<lambda>s. client_result (sd_cliUp d s))
      | None \<Rightarrow> connectVia d s (\<lambda>s. client_result (sd_cliUp d s)))"

text \<open>\<open>Connect\<close> of an openconnect upstream is its client's \<open>Get\<close> without the address.\<close>

definition openconnect_Connect :: "('s \<Rightarrow> ('e + 'a) \<times> 's) \<Rightarrow> 's \<Rightarrow> ('e + unit) \<times> 's" where
  "openconnect_Connect get s = (case get s of (Inl e, s) \<Rightarrow> (Inl e, s) | (Inr _, s) \<Rightarrow> (Inr (), s))"

section \<open>The via comes first\<close>

text \<open>An ssh upstream that goes through an openconnect upstream, whose client has the state \<open>fst\<close>.\<close>

definition through_vpn ::
  "string \<Rightarrow> ('v \<Rightarrow> ('e + 'a) \<times> 'v) \<Rightarrow> ('v \<Rightarrow> ('e + unit) \<times> 'v) \<Rightarrow> ('k \<Rightarrow> 'k) \<Rightarrow> ('k \<Rightarrow> ('e + unit) \<times> 'k)
     \<Rightarrow> ('k \<Rightarrow> ('e + unit) \<times> 'k) \<Rightarrow> (string \<Rightarrow> 'v \<times> 'k \<Rightarrow> ('e + 'c) \<times> 'v \<times> 'k) \<Rightarrow> ('v \<times> 'k, 'e, 'c) ssh_dialer"
where
  "through_vpn name vget vup mark get up dial =
     \<lparr>sd_viaName = name,
      sd_viaConnect = Some (\<lambda>(v, k). let (r, v) = openconnect_Connect vget v in (r, v, k)),
      sd_viaUp = Some (\<lambda>(v, k). let (r, v) = vup v in (r, v, k)),
      sd_MarkConnecting = apsnd mark,
      sd_Get = (\<lambda>(v, k). let (r, k) = get k in (r, v, k)),
      sd_cliUp = (\<lambda>(v, k). let (r, k) = up k in (r, v, k)),
      sd_DialContext = dial\<rparr>"

text \<open>A VPN that does not come up leaves the ssh client as it was, so it is not left marked as connecting;
  one that does is connected first, and \<open>Up\<close> lifts its hold before the ssh client's.\<close>

lemma via_comes_first:
  fixes vget :: "'v \<Rightarrow> ('e + 'a) \<times> 'v" and vup :: "'v \<Rightarrow> ('e + unit) \<times> 'v" and mark :: "'k \<Rightarrow> 'k"
    and get :: "'k \<Rightarrow> ('e + unit) \<times> 'k" and up :: "'k \<Rightarrow> ('e + unit) \<times> 'k"
    and dial :: "string \<Rightarrow> 'v \<times> 'k \<Rightarrow> ('e + 'c) \<times> 'v \<times> 'k" and name :: string
  defines "d \<equiv> through_vpn name vget vup mark get up dial"
  shows "ssh_Connect d (v, k) = (case vget v of
        (Inl e, v') \<Rightarrow> (Inl (ViaErr name e), v', k)
      | (Inr _, v') \<Rightarrow> (case get (mark k) of (Inl e, k') \<Rightarrow> (Inl (ClientErr e), v', k') | (Inr _, k') \<Rightarrow> (Inr (), v', k')))"
    and "ssh_Up d (v, k) = (case vup v of
        (Inl e, v') \<Rightarrow> (Inl (ViaErr name e), v', k)
      | (Inr _, v') \<Rightarrow> (case up k of (Inl e, k') \<Rightarrow> (Inl (ClientErr e), v', k') | (Inr _, k') \<Rightarrow> (Inr (), v', k')))"
    and "fst (vget v) = Inl e \<Longrightarrow> ssh_Dial d target (v, k) = (Inl (ViaErr name e), snd (vget v), k)"
  unfolding d_def
  by (auto simp: ssh_Connect_def ssh_Up_def ssh_Dial_def connectVia_def after_via_def through_vpn_def client_result_def
      openconnect_Connect_def Let_def split: prod.splits sum.splits)

end
