(* ===== verification/Relay.thy ===== *)
theory Relay
  imports Machine
begin

text \<open>
  Relaying one connection: the two copying goroutines of \<open>pipe\<close> (\<open>pkg/portforward/server.go\<close>) and of
  \<open>spliceClientServer\<close> and \<open>spliceClientUpstream\<close> (\<open>pkg/proxy\<close>, \<open>pkg/socks5server\<close>) as interleaved
  steps, against an upstream that answers when it has read to the end of the request, as many
  line protocols and \<open>Connection: close\<close> servers do. The client sends a request and shuts down its
  sending side. The modes differ in what a goroutine does to its destination after the copy.
\<close>

section \<open>Steps\<close>

text \<open>
  \<open>HalfClose\<close>: \<open>pipe\<close> on a connection with \<open>CloseWrite\<close>; \<open>FullClose\<close>: \<open>pipe\<close> on one without, which is
  closed; \<open>NoClose\<close>: the two splice functions.
\<close>

datatype close_mode = HalfClose | FullClose | NoClose

text \<open>
  \<open>rl_req\<close> is what is still to be copied to the upstream, \<open>rl_sent\<close> what the upstream has read and
  \<open>rl_eof\<close> whether it has seen the end; \<open>rl_ans\<close> is what is still to be copied of its answer, after
  which it closes; \<open>rl_recv\<close> is what the client has read.
\<close>

record relay =
  rl_req :: "byte list"
  rl_sent :: "byte list"
  rl_eof :: bool
  rl_closed :: bool
  rl_ans :: "byte list option"
  rl_recv :: "byte list"
  rl_up_done :: bool
  rl_down_done :: bool

datatype relay_event = CopyUp nat | UpEnd | Answer | CopyDown nat | DownEnd

fun relay_step :: "close_mode \<Rightarrow> (byte list \<Rightarrow> byte list) \<Rightarrow> relay_event \<Rightarrow> relay \<Rightarrow> relay option" where
  "relay_step md f (CopyUp n) s =
     (if 0 < n \<and> n \<le> length (rl_req s) \<and> \<not> rl_up_done s
      then Some (s\<lparr>rl_req := drop n (rl_req s), rl_sent := rl_sent s @ take n (rl_req s)\<rparr>) else None)"
| "relay_step md f UpEnd s =
     (if rl_req s = [] \<and> \<not> rl_up_done s
      then Some (s\<lparr>rl_up_done := True, rl_eof := (md \<noteq> NoClose), rl_closed := (md = FullClose)\<rparr>) else None)"
| "relay_step md f Answer s =
     (if rl_eof s \<and> rl_ans s = None then Some (s\<lparr>rl_ans := Some (f (rl_sent s))\<rparr>) else None)"
| "relay_step md f (CopyDown n) s =
     (case rl_ans s of
        None \<Rightarrow> None
      | Some bs \<Rightarrow>
          if 0 < n \<and> n \<le> length bs \<and> \<not> rl_closed s \<and> \<not> rl_down_done s
          then Some (s\<lparr>rl_ans := Some (drop n bs), rl_recv := rl_recv s @ take n bs\<rparr>) else None)"
| "relay_step md f DownEnd s =
     (if (rl_ans s = Some [] \<or> rl_closed s) \<and> \<not> rl_down_done s then Some (s\<lparr>rl_down_done := True\<rparr>) else None)"

definition relay_init :: "byte list \<Rightarrow> relay" where
  "relay_init req = \<lparr>rl_req = req, rl_sent = [], rl_eof = False, rl_closed = False, rl_ans = None,
     rl_recv = [], rl_up_done = False, rl_down_done = False\<rparr>"

abbreviation relay_reach :: "close_mode \<Rightarrow> (byte list \<Rightarrow> byte list) \<Rightarrow> byte list \<Rightarrow> relay \<Rightarrow> bool" where
  "relay_reach md f req \<equiv> reachable (relay_step md f) (relay_init req)"

definition relay_done :: "relay \<Rightarrow> bool" where
  "relay_done s \<longleftrightarrow> rl_up_done s \<and> rl_down_done s"

section \<open>Invariant\<close>

definition relay_inv :: "close_mode \<Rightarrow> (byte list \<Rightarrow> byte list) \<Rightarrow> byte list \<Rightarrow> relay \<Rightarrow> bool" where
  "relay_inv md f req s \<longleftrightarrow>
     rl_sent s @ rl_req s = req
     \<and> (rl_up_done s \<longrightarrow> rl_req s = [])
     \<and> (rl_eof s \<longleftrightarrow> rl_up_done s \<and> md \<noteq> NoClose)
     \<and> (rl_closed s \<longleftrightarrow> rl_up_done s \<and> md = FullClose)
     \<and> (case rl_ans s of None \<Rightarrow> rl_recv s = [] \<and> (rl_down_done s \<longrightarrow> rl_closed s)
        | Some bs \<Rightarrow> rl_eof s \<and> rl_recv s @ bs = f req \<and> (rl_down_done s \<longrightarrow> bs = [] \<or> rl_closed s))"

lemma relay_inv_step: "relay_inv md f req s \<Longrightarrow> relay_step md f e s = Some s' \<Longrightarrow> relay_inv md f req s'"
  by (cases e) (auto simp: relay_inv_def split: if_splits option.splits)

lemma relay_inv_init: "relay_inv md f req (relay_init req)"
  by (simp add: relay_inv_def relay_init_def)

interpretation relay_conserves: machine_invariant "relay_step md f" "relay_init req" "relay_inv md f req" for md f req
  by unfold_locales (auto intro: relay_inv_step simp: relay_inv_init)

lemmas relay_inv_reach = relay_conserves.holds

text \<open>Every step makes progress, so no schedule runs for ever.\<close>

definition relay_measure :: "relay \<Rightarrow> nat \<times> nat \<times> nat" where
  "relay_measure s = (length (rl_req s) + (if rl_up_done s then 0 else 1),
     (if rl_ans s = None then 1 else 0),
     (case rl_ans s of None \<Rightarrow> 0 | Some bs \<Rightarrow> length bs) + (if rl_down_done s then 0 else 1))"

lemma relay_step_decreases:
  "relay_step md f e s = Some s' \<Longrightarrow>
     (relay_measure s', relay_measure s) \<in> less_than <*lex*> less_than <*lex*> less_than"
  by (cases e) (auto simp: relay_measure_def split: if_splits option.splits)

interpretation relay_ends: machine_progress "relay_step md f" "less_than <*lex*> less_than <*lex*> less_than" relay_measure
  for md f
  by unfold_locales (auto dest: relay_step_decreases)

lemma relay_enabled:
  assumes "relay_inv md f req s" "md \<noteq> NoClose" "\<not> relay_done s"
  shows "\<exists>e s'. relay_step md f e s = Some s'"
proof (cases "rl_up_done s")
  case False
  then show ?thesis
    by (cases "rl_req s") (force intro: exI [of _ UpEnd], force intro: exI [of _ "CopyUp 1"])
next
  case True
  then have u: "rl_eof s" "\<not> rl_down_done s" using assms by (auto simp: relay_inv_def relay_done_def)
  show ?thesis
  proof (cases "rl_ans s")
    case None
    with u show ?thesis by (intro exI [of _ Answer]) simp
  next
    case (Some bs)
    show ?thesis
    proof (cases "bs = [] \<or> rl_closed s")
      case True
      with u Some show ?thesis by (intro exI [of _ DownEnd]) auto
    next
      case False
      with u Some show ?thesis by (intro exI [of _ "CopyDown 1"]) (simp add: Suc_le_eq)
    qed
  qed
qed

section \<open>Properties\<close>

text \<open>C33. The port forward's relay always ends and loses nothing: no schedule of the two goroutines runs
  for ever, one that cannot go on has finished both directions, and then the upstream has read the
  whole request and its end and the client the whole answer.\<close>

theorem pipe_relays_answer:
  "wf {(s', s). \<exists>e. relay_step HalfClose f e s = Some s'}
   \<and> (\<forall>s. relay_reach HalfClose f req s \<longrightarrow> (\<forall>e. relay_step HalfClose f e s = None) \<longrightarrow>
        relay_done s \<and> rl_sent s = req \<and> rl_eof s \<and> rl_recv s = f req)"
proof (intro conjI allI impI)
  show "wf {(s', s). \<exists>e. relay_step HalfClose f e s = Some s'}" by (rule relay_ends.wf_step)
  fix s
  assume r: "relay_reach HalfClose f req s" and stuck: "\<forall>e. relay_step HalfClose f e s = None"
  note i = relay_inv_reach [OF r]
  show d: "relay_done s" using relay_enabled [OF i] stuck by auto
  show "rl_sent s = req" "rl_eof s" "rl_recv s = f req"
    using i d by (auto simp: relay_inv_def relay_done_def split: option.splits)
qed

lemma pipe_relays_answer_witness:
  "\<exists>s. run_events (relay_step HalfClose rev) [CopyUp 2, CopyUp 1, UpEnd, Answer, CopyDown 3, DownEnd] (relay_init [1, 2, 3]) = Some s
     \<and> rl_recv s = [3, 2, 1]"
proof -
  let ?s = "\<lparr>rl_req = [], rl_sent = [1, 2, 3], rl_eof = True, rl_closed = False, rl_ans = Some [],
     rl_recv = [3, 2, 1], rl_up_done = True, rl_down_done = True\<rparr> :: relay"
  have r: "run_events (relay_step HalfClose rev) [CopyUp 2, CopyUp 1, UpEnd, Answer, CopyDown 3, DownEnd] (relay_init [1, 2, 3])
      = Some ?s"
    by (simp add: relay_init_def)
  have "relay_step HalfClose rev e ?s = None" for e by (cases e) simp_all
  with r run_reachable [OF r] pipe_relays_answer [of rev "[1, 2, 3]"] show ?thesis by simp
qed

text \<open>The splice of the HTTP proxy and the SOCKS5 server does not pass the end of the request on: against
  an upstream that answers at the end of its input the client never reads a byte and the relay never
  finishes, in any schedule.\<close>

theorem splice_never_answers:
  assumes "relay_reach NoClose f req s"
  shows "rl_recv s = [] \<and> \<not> rl_eof s \<and> \<not> relay_done s"
  using relay_inv_reach [OF assms] by (auto simp: relay_inv_def relay_done_def split: option.splits)

lemma splice_never_answers_witness:
  "\<exists>s. run_events (relay_step NoClose rev) [CopyUp 3, UpEnd] (relay_init [1, 2, 3]) = Some s \<and> rl_sent s = [1, 2, 3]
     \<and> (\<forall>e. relay_step NoClose rev e s = None) \<and> rl_recv s = [] \<and> \<not> relay_done s"
proof -
  let ?s = "\<lparr>rl_req = [], rl_sent = [1, 2, 3], rl_eof = False, rl_closed = False, rl_ans = None,
     rl_recv = [], rl_up_done = True, rl_down_done = False\<rparr> :: relay"
  have r: "run_events (relay_step NoClose rev) [CopyUp 3, UpEnd] (relay_init [1, 2, 3]) = Some ?s"
    by (simp add: relay_init_def)
  have "relay_step NoClose rev e ?s = None" for e by (cases e) simp_all
  with r splice_never_answers [OF run_reachable [OF r]] show ?thesis by auto
qed

end
