(* ===== verification/Menubar.thy ===== *)
theory Menubar
  imports ControllerConns ControllerCalls
begin

text \<open>
  \<open>internal/menubar\<close> around the controller: the rows of the menu (\<open>tunnelrow.go\<close>), the menu itself, its
  guards and the icon (\<open>tray.go\<close>), the preferences (\<open>settings.go\<close>), the probes of forwards
  (\<open>forward.go\<close>) and the Chrome command (\<open>chrome.go\<close>). A menu is the list of its items with what a
  click does; the user interface library only shows it. Strings are UTF-8 bytes, as in Go.
\<close>

section \<open>tunnelrow.go\<close>

definition utf8 :: "nat list \<Rightarrow> string" where
  "utf8 bs = map char_of bs"

definition glyph_down :: string where "glyph_down = utf8 [0xE2, 0x97, 0x8B]"
definition glyph_up :: string where "glyph_up = utf8 [0xE2, 0x97, 0x89]"
definition glyph_connecting :: string where "glyph_connecting = utf8 [0xE2, 0x8A, 0x99]"
definition glyph_phone :: string where "glyph_phone = utf8 [0xE2, 0x98, 0x8E, 0xEF, 0xB8, 0x8E]"
definition glyph_failed :: string where "glyph_failed = utf8 [0xE2, 0x9A, 0xA0, 0xEF, 0xB8, 0x8E]"
definition arrow :: string where "arrow = '' '' @ utf8 [0xE2, 0x86, 0x92] @ '' ''"

datatype tunnel_action = tunnelActionStart | tunnelActionStop

definition tunnelRow :: "tunnel_status \<Rightarrow> string \<times> string \<times> tunnel_action" where
  "tunnelRow ts =
     (let label = ts_Name ts
            @ (if ts_Target ts \<noteq> [] \<and> ts_Upstream ts \<noteq> [] then arrow @ ts_Target ts @ '' via '' @ ts_Upstream ts
               else if ts_Target ts \<noteq> [] then arrow @ ts_Target ts
               else if ts_Upstream ts \<noteq> [] then arrow @ ts_Upstream ts
               else [])
      in if ts_State ts \<noteq> TunnelListening then (glyph_down, label, tunnelActionStart)
         else (glyph_up, label, tunnelActionStop))"

text \<open>The last component is whether a click connects.\<close>

definition upstreamRow :: "upstream_status \<Rightarrow> string \<times> string \<times> bool" where
  "upstreamRow us =
     (let prefix = us_Name us @ '' ('' @ us_Type us @ ''): ''
      in case us_ConnState us of
           ConnConnected \<Rightarrow> (glyph_up, prefix @ ''connected'', False)
         | ConnConnecting \<Rightarrow>
             if us_Type us = UpstreamOpenConnect
             then (glyph_connecting, prefix @ ''connecting (approve on your device)'', False)
             else (glyph_connecting, prefix @ ''connecting'', False)
         | ConnAwaitingApproval \<Rightarrow> (glyph_phone, prefix @ ''awaiting approval'', False)
         | ConnDisconnected \<Rightarrow> (glyph_failed, prefix @ ''failed'', True)
         | ConnUnknown \<Rightarrow> (glyph_down, prefix @ ''disconnected'', True))"

definition upstreamConnecting :: "status \<Rightarrow> bool" where
  "upstreamConnecting st \<longleftrightarrow> st_State st = StateRunning
     \<and> list_ex (\<lambda>us. us_ConnState us = ConnConnecting \<or> us_ConnState us = ConnAwaitingApproval) (st_Upstreams st)"

section \<open>forward.go\<close>

text \<open>
  Each probe stores its verdict when it ends: \<open>order\<close> is the order they end in, \<open>accepts\<close> whether a
  connection to the address is accepted in time.
\<close>

definition ProbeForwards :: "(string \<Rightarrow> bool) \<Rightarrow> forward_status list \<Rightarrow> (string \<times> bool) list" where
  "ProbeForwards accepts order = fold (\<lambda>f m. put m (fs_Name f) (accepts (fs_Addr f))) order []"

text \<open>The forwards of a configuration have different names, so the order does not matter.\<close>

lemma ProbeForwards_verdict:
  assumes "distinct (map fs_Name order)" "f \<in> set order"
  shows "map_of (ProbeForwards accepts order) (fs_Name f) = Some (accepts (fs_Addr f))"
proof -
  have "map_of (fold (\<lambda>f m. put m (fs_Name f) (accepts (fs_Addr f))) order m) (fs_Name f) = Some (accepts (fs_Addr f))" for m
    using assms
  proof (induction order arbitrary: m)
    case (Cons g gs)
    have "fs_Name g \<notin> fs_Name ` set ys \<Longrightarrow>
        map_of (fold (\<lambda>f m. put m (fs_Name f) (accepts (fs_Addr f))) ys m) (fs_Name g) = map_of m (fs_Name g)" for m and ys :: "forward_status list"
      by (induction ys arbitrary: m) auto
    then show ?case using Cons by (cases "f = g") auto
  qed simp
  then show ?thesis by (simp add: ProbeForwards_def)
qed

section \<open>settings.go\<close>

record settings =
  s_Autoconnect :: "bool option"

definition AutoconnectOn :: "settings \<Rightarrow> bool" where
  "AutoconnectOn s = (case s_Autoconnect s of None \<Rightarrow> True | Some b \<Rightarrow> b)"

definition SettingsPath :: "os_env \<Rightarrow> string" where
  "SettingsPath env = path_join [homeDir env, ''Library'', ''Application Support'', ''dockprox/settings.json'']"

text \<open>
  Reading a file gives its bytes, \<open>Inl True\<close> when it does not exist and \<open>Inl False\<close> on any other error;
  \<open>unmarshal\<close> is \<open>json.Unmarshal\<close> into a zero \<open>Settings\<close>: what it leaves there, which is returned with an
  error too, and whether it succeeds.
\<close>

datatype settings_err = ReadSettings | ParseSettings | SettingsDir | WriteSettings

definition LoadSettings ::
  "(string \<Rightarrow> settings \<times> bool) \<Rightarrow> (string \<Rightarrow> bool + string) \<Rightarrow> string \<Rightarrow> settings \<times> settings_err option" where
  "LoadSettings unmarshal readFile path =
     (case readFile path of
        Inl notExist \<Rightarrow> (\<lparr>s_Autoconnect = None\<rparr>, if notExist then None else Some ReadSettings)
      | Inr buf \<Rightarrow> (case unmarshal buf of (s, parsed) \<Rightarrow> (s, if parsed then None else Some ParseSettings)))"

text \<open>\<open>json.MarshalIndent\<close> of a \<open>Settings\<close>, and the line break \<open>SaveSettings\<close> appends.\<close>

definition marshal_settings :: "settings \<Rightarrow> string" where
  "marshal_settings s =
     (case s_Autoconnect s of
        None \<Rightarrow> ''{}''
      | Some b \<Rightarrow> ''{'' @ [CHR 0x0A] @ ''  '' @ [CHR 0x22] @ ''autoconnect'' @ [CHR 0x22] @ '': ''
          @ (if b then ''true'' else ''false'') @ [CHR 0x0A] @ ''}'')"

text \<open>
  The files after saving, and the error if there is one. \<open>os.WriteFile\<close> truncates the file before it
  writes: \<open>left\<close> is \<open>None\<close> when it succeeds, else what it leaves in the place of the file.
\<close>

definition SaveSettings ::
  "bool \<Rightarrow> (bool + string) option \<Rightarrow> string \<Rightarrow> settings \<Rightarrow> (string \<Rightarrow> bool + string)
     \<Rightarrow> (settings_err + unit) \<times> (string \<Rightarrow> bool + string)" where
  "SaveSettings mkdirOk left path s files =
     (if \<not> mkdirOk then (Inl SettingsDir, files)
      else case left of
             Some x \<Rightarrow> (Inl WriteSettings, files(path := x))
           | None \<Rightarrow> (Inr (), files(path := Inr (marshal_settings s @ [CHR 0x0A]))))"

text \<open>What was saved is loaded, for any parser that reads what the encoder wrote.\<close>

lemma LoadSettings_SaveSettings:
  assumes "unmarshal (marshal_settings s @ [CHR 0x0A]) = (s, True)" "SaveSettings d left path s files = (Inr u, files')"
  shows "LoadSettings unmarshal files' path = (s, None)"
  using assms by (auto simp: SaveSettings_def LoadSettings_def split: if_splits option.splits)

section \<open>chrome.go\<close>

definition isBundleID :: "string \<Rightarrow> bool" where
  "isBundleID s \<longleftrightarrow> CHR ''.'' \<in> set s \<and> CHR ''/'' \<notin> set s \<and> CHR '' '' \<notin> set s \<and> \<not> has_suffix ''.app'' s"

definition ChromeProfileDir :: "os_env \<Rightarrow> string" where
  "ChromeProfileDir env = path_join [homeDir env, ''Library'', ''Application Support'', ''dockprox/chrome'']"

definition buildChromeCommand :: "string \<Rightarrow> string \<Rightarrow> chrome option \<Rightarrow> string list" where
  "buildChromeCommand listenAddr profileDir cfg =
     (let app = (case cfg of Some c \<Rightarrow> if c_App c \<noteq> [] then c_App c else ''Google Chrome'' | None \<Rightarrow> ''Google Chrome'');
          selector = (if isBundleID app then ''-b'' else ''-a'')
      in [''open'', ''-n'', selector, app, ''--args'', ''--window-name=dockprox'', ''--proxy-server=http://'' @ listenAddr,
          ''--proxy-bypass-list=<-loopback>'', ''--user-data-dir='' @ profileDir, ''--no-first-run'',
          ''--no-default-browser-check'']
         @ (case cfg of Some c \<Rightarrow> c_Flags c | None \<Rightarrow> []))"

datatype chrome_err = NotListening | LaunchExpired | MkdirFailed | OpenFailed string

text \<open>
  \<open>mkdir\<close> is \<open>None\<close> when the deadline wins over it; \<open>run\<close> is the outcome of the command with its output.
\<close>

definition LaunchChrome ::
  "os_env \<Rightarrow> bool \<Rightarrow> bool option \<Rightarrow> (string list \<Rightarrow> string + unit) \<Rightarrow> string \<Rightarrow> chrome option
     \<Rightarrow> (chrome_err + unit) \<times> string list option" where
  "LaunchChrome env expired mkdir run listenAddr cfg =
     (if listenAddr = [] then (Inl NotListening, None)
      else if expired then (Inl LaunchExpired, None)
      else case mkdir of
             None \<Rightarrow> (Inl LaunchExpired, None)
           | Some False \<Rightarrow> (Inl MkdirFailed, None)
           | Some True \<Rightarrow>
               let cmd = buildChromeCommand listenAddr (ChromeProfileDir env) cfg
               in case run cmd of Inl out \<Rightarrow> (Inl (OpenFailed (trim_space out)), Some cmd) | Inr _ \<Rightarrow> (Inr (), Some cmd))"

section \<open>tray.go: the menu\<close>

text \<open>What a click does; \<open>ActInstallSudoers\<close> also starts the proxy when the installation succeeds.\<close>

datatype menu_act =
    OpenReleases
  | ActInstallSudoers
  | ActStopTunnel string
  | ActStartTunnel string
  | ActConnect string
  | ActDisconnect string
  | ActChrome string "chrome option"
  | ActStart
  | ActStop
  | ActRestart
  | ToggleAutoconnect bool
  | ToggleAutostart bool
  | Reveal string
  | Quit

text \<open>A row has a label, is enabled or not, and does something or not.\<close>

datatype menu_item =
    Separator
  | Row string bool "menu_act option"
  | Submenu string "menu_item list"

text \<open>What the menu shows besides the snapshot; \<open>tv_sudoers\<close>: the sudoers file exists.\<close>

record tray_view =
  tv_version :: string
  tv_errText :: "ctl_err \<Rightarrow> string"
  tv_forwardUp :: "(string \<times> bool) list option"
  tv_autoconnect :: bool
  tv_autostart :: bool
  tv_sudoers :: bool
  tv_logPath :: string

definition checkGlyph :: "bool \<Rightarrow> string" where
  "checkGlyph on = (if on then utf8 [0xE2, 0x98, 0x91, 0xEF, 0xB8, 0x8E] else utf8 [0xE2, 0x96, 0xA1])"

definition tunnel_item :: "bool \<Rightarrow> tunnel_status \<Rightarrow> menu_item" where
  "tunnel_item running ts =
     (case tunnelRow ts of (glyph, label, action) \<Rightarrow>
        Row (glyph @ '' '' @ label) running
          (Some (if action = tunnelActionStop then ActStopTunnel (ts_Name ts) else ActStartTunnel (ts_Name ts))))"

definition upstream_item :: "bool \<Rightarrow> upstream_status \<Rightarrow> menu_item" where
  "upstream_item running us =
     (case upstreamRow us of (glyph, label, connect) \<Rightarrow>
        Row (glyph @ '' '' @ label) running
          (Some (if connect then ActConnect (us_Name us) else ActDisconnect (us_Name us))))"

definition forward_item :: "(string \<times> bool) list option \<Rightarrow> forward_status \<Rightarrow> menu_item" where
  "forward_item up fs =
     (let glyph = (case up of None \<Rightarrow> ''?''
             | Some m \<Rightarrow> (case map_of m (fs_Name fs) of None \<Rightarrow> ''?''
                 | Some answers \<Rightarrow> if answers then glyph_up else glyph_down))
      in Row (glyph @ '' '' @ fs_Name fs @ '' ('' @ UpstreamForward @ ''): '' @ fs_Addr fs) False None)"

fun needs_sudoers :: "ctl_err option \<Rightarrow> bool" where
  "needs_sudoers (Some (RegistryFailed _ (RegVPN NotSudoers))) = True"
| "needs_sudoers _ = False"

definition settings_menu :: "tray_view \<Rightarrow> status \<Rightarrow> menu_item list" where
  "settings_menu v snap =
     (let running = (st_State snap = StateRunning);
          play = utf8 [0xE2, 0x96, 0xB6, 0xEF, 0xB8, 0x8E]; stop = utf8 [0xE2, 0x8F, 0xB9, 0xEF, 0xB8, 0x8E];
          again = utf8 [0xE2, 0x86, 0xBA]; reveal = utf8 [0xE2, 0x86, 0x97]
      in [Row (play @ '' Chrome Sandbox'') running (Some (ActChrome (st_ListenAddr snap) (st_Chrome snap))),
          Separator,
          if running then Row (stop @ '' Stop'') True (Some ActStop) else Row (play @ '' Start'') True (Some ActStart),
          Row (again @ '' Restart'') running (Some ActRestart),
          Separator,
          Row (checkGlyph (tv_autoconnect v) @ '' Autoconnect'') True (Some (ToggleAutoconnect (\<not> tv_autoconnect v))),
          Row (checkGlyph (tv_autostart v) @ '' Start at Login'') True (Some (ToggleAutostart (\<not> tv_autostart v))),
          Separator,
          Row (reveal @ '' Reveal logs in Finder'') True (Some (Reveal (tv_logPath v))),
          Row (reveal @ '' Reveal config in Finder'') True (Some (Reveal (st_ConfigPath snap)))]
         @ (if tv_sudoers v then [Row (reveal @ '' Reveal sudoers in Finder'') True (Some (Reveal SudoersPath))] else []))"

definition rebuildMenu :: "tray_view \<Rightarrow> status \<Rightarrow> menu_item list" where
  "rebuildMenu v snap =
     (let running = (st_State snap = StateRunning)
      in [Row (utf8 [0xF0, 0x9F, 0x8F, 0x84, 0xE2, 0x80, 0x8D, 0xE2, 0x99, 0x82, 0xEF, 0xB8, 0x8F] @ '' '' @ tv_version v)
            True (Some OpenReleases)]
         @ (case st_LastError snap of
              Some e \<Rightarrow> if st_State snap = StateError
                then [Row (utf8 [0xE2, 0x9A, 0xA0, 0xEF, 0xB8, 0x8F] @ '' '' @ tv_errText v e) False None] else []
            | None \<Rightarrow> [])
         @ (if needs_sudoers (st_LastError snap)
            then [Row (utf8 [0xF0, 0x9F, 0x94, 0x90] @ '' Install VPN sudoers'' @ utf8 [0xE2, 0x80, 0xA6]) True (Some ActInstallSudoers)]
            else [])
         @ [Separator, Row (glyph_phone @ '' Listeners'') False None]
         @ (if st_ListenAddr snap \<noteq> [] then [Row (glyph_up @ '' '' @ st_ListenAddr snap) False None] else [])
         @ map (tunnel_item running) (st_Tunnels snap)
         @ (if st_Upstreams snap \<noteq> [] \<or> st_Forwards snap \<noteq> []
            then [Separator, Row (utf8 [0xE2, 0xAC, 0x86, 0xEF, 0xB8, 0x8E] @ '' Upstreams'') False None] else [])
         @ map (upstream_item running) (st_Upstreams snap)
         @ (if st_Forwards snap \<noteq> []
            then [Separator, Row (utf8 [0xE2, 0x9E, 0xA1, 0xEF, 0xB8, 0x8E] @ '' Forwards'') False None] else [])
         @ map (forward_item (tv_forwardUp v)) (st_Forwards snap)
         @ [Separator, Submenu (utf8 [0xE2, 0x9A, 0x99, 0xEF, 0xB8, 0x8E] @ '' Settings'') (settings_menu v snap),
            Separator, Row (utf8 [0xE2, 0x8F, 0x8F, 0xEF, 0xB8, 0x8E] @ '' Quit'') True (Some Quit)])"

section \<open>tray.go: guards and icon\<close>

datatype icon = IconRunning | IconStopped

text \<open>
  \<open>t_actions\<close> and \<open>t_probes\<close> are the goroutines under way; \<open>blinkStop\<close> is represented by whether it is
  set, and what \<open>applyIcon\<close> was last called with is kept in \<open>t_shown\<close>.
\<close>

record tray =
  t_busy :: bool
  t_probing :: bool
  t_forwardUp :: "(string \<times> bool) list option"
  t_autostart :: bool
  t_blinkStop :: bool
  t_blinkOn :: bool
  t_icon :: icon
  t_menu :: "menu_item list"
  t_actions :: "menu_act list"
  t_probes :: "forward_status list list"
  t_shown :: "status option"

definition state_icon :: "status \<Rightarrow> icon" where
  "state_icon st = (if st_State st = StateRunning then IconRunning else IconStopped)"

definition applyIcon :: "status \<Rightarrow> tray \<Rightarrow> tray" where
  "applyIcon st t =
     (if upstreamConnecting st then t\<lparr>t_blinkStop := True, t_shown := Some st\<rparr>
      else (if t_blinkStop t then t\<lparr>t_blinkStop := False, t_blinkOn := False\<rparr> else t)
             \<lparr>t_icon := state_icon st, t_shown := Some st\<rparr>)"

definition blinkTick :: "tray \<Rightarrow> tray" where
  "blinkTick t =
     (if \<not> t_blinkStop t then t
      else let on = \<not> t_blinkOn t in t\<lparr>t_blinkOn := on, t_icon := (if on then IconStopped else IconRunning)\<rparr>)"

definition runBusy :: "menu_act \<Rightarrow> tray \<Rightarrow> tray" where
  "runBusy act t = (if t_busy t then t else t\<lparr>t_busy := True, t_actions := act # t_actions t\<rparr>)"

definition runBusy_ends :: "menu_act \<Rightarrow> tray \<Rightarrow> tray" where
  "runBusy_ends act t = t\<lparr>t_busy := False, t_actions := remove1 act (t_actions t)\<rparr>"

definition refreshForwards :: "status \<Rightarrow> tray \<Rightarrow> tray" where
  "refreshForwards st t =
     (if t_probing t \<or> st_Forwards st = [] then t
      else t\<lparr>t_probing := True, t_probes := st_Forwards st # t_probes t\<rparr>)"

definition refreshForwards_ends :: "(string \<Rightarrow> bool) \<Rightarrow> forward_status list \<Rightarrow> tray \<Rightarrow> tray" where
  "refreshForwards_ends accepts fs t =
     t\<lparr>t_forwardUp := Some (ProbeForwards accepts fs), t_probing := False, t_probes := remove1 fs (t_probes t)\<rparr>"

text \<open>What \<open>Autostart.IsEnabled\<close> answers, \<open>None\<close> when it fails, is cached for the menu.\<close>

definition refreshAutostart :: "bool option \<Rightarrow> tray \<Rightarrow> tray" where
  "refreshAutostart enabled t = (case enabled of None \<Rightarrow> t | Some on \<Rightarrow> t\<lparr>t_autostart := on\<rparr>)"

text \<open>The menu is built from the snapshot and what the tray has cached.\<close>

definition paint_menu :: "tray_view \<Rightarrow> status \<Rightarrow> tray \<Rightarrow> tray" where
  "paint_menu v st t = t\<lparr>t_menu := rebuildMenu (v\<lparr>tv_forwardUp := t_forwardUp t, tv_autostart := t_autostart t\<rparr>) st\<rparr>"

definition NewTray :: "tray_view \<Rightarrow> bool option \<Rightarrow> status \<Rightarrow> tray" where
  "NewTray v enabled st =
     paint_menu v st (applyIcon st (refreshAutostart enabled
       \<lparr>t_busy = False, t_probing = False, t_forwardUp = None, t_autostart = False, t_blinkStop = False, t_blinkOn = False,
        t_icon = IconStopped, t_menu = [], t_actions = [], t_probes = [], t_shown = None\<rparr>))"

text \<open>
  \<open>Click\<close> is a click on a row that goes through \<open>runBusy\<close>, \<open>Paint\<close> the icon and menu update queued on the
  UI thread, \<open>OpenMenu\<close> a click on the tray, \<open>AutostartSet\<close> the end of a toggle of the autostart.
\<close>

datatype tray_event =
    Click menu_act
  | ActionEnds menu_act
  | Paint tray_view status
  | OpenMenu tray_view status
  | ProbeEnds "string \<Rightarrow> bool" "forward_status list"
  | BlinkTick
  | AutostartSet "bool option"

fun tray_step :: "tray_event \<Rightarrow> tray \<Rightarrow> tray option" where
  "tray_step (Click act) t = Some (runBusy act t)"
| "tray_step (ActionEnds act) t = (if act \<in> set (t_actions t) then Some (runBusy_ends act t) else None)"
| "tray_step (Paint v st) t = Some (paint_menu v st (applyIcon st t))"
| "tray_step (OpenMenu v st) t = Some (refreshForwards st (paint_menu v st t))"
| "tray_step (ProbeEnds accepts fs) t = (if fs \<in> set (t_probes t) then Some (refreshForwards_ends accepts fs t) else None)"
| "tray_step BlinkTick t = Some (blinkTick t)"
| "tray_step (AutostartSet enabled) t =
     (if list_ex (\<lambda>a. case a of ToggleAutostart _ \<Rightarrow> True | _ \<Rightarrow> False) (t_actions t)
      then Some (refreshAutostart enabled t) else None)"

definition tray_inv :: "tray \<Rightarrow> bool" where
  "tray_inv t \<longleftrightarrow> (if t_busy t then length (t_actions t) = 1 else t_actions t = [])
     \<and> (if t_probing t then length (t_probes t) = 1 else t_probes t = [])
     \<and> (\<exists>st. t_shown t = Some st \<and> t_blinkStop t = upstreamConnecting st
          \<and> (\<not> t_blinkStop t \<longrightarrow> t_icon t = state_icon st \<and> \<not> t_blinkOn t))"

lemma applyIcon_fields [simp]:
  "t_busy (applyIcon st t) = t_busy t" "t_actions (applyIcon st t) = t_actions t"
  "t_probing (applyIcon st t) = t_probing t" "t_probes (applyIcon st t) = t_probes t"
  "t_shown (applyIcon st t) = Some st" "t_blinkStop (applyIcon st t) = upstreamConnecting st"
  "\<not> upstreamConnecting st \<Longrightarrow> t_icon (applyIcon st t) = state_icon st"
  by (simp_all add: applyIcon_def)

lemma applyIcon_off: "\<not> t_blinkStop t \<longrightarrow> \<not> t_blinkOn t \<Longrightarrow> \<not> upstreamConnecting st \<Longrightarrow> \<not> t_blinkOn (applyIcon st t)"
  by (auto simp: applyIcon_def)

lemma length_1_remove1: "length xs = 1 \<Longrightarrow> x \<in> set xs \<Longrightarrow> remove1 x xs = []"
  by (cases xs) auto

lemma tray_inv_same [simp]:
  "tray_inv (paint_menu v st t) = tray_inv t" "tray_inv (refreshAutostart e t) = tray_inv t"
  by (simp_all add: tray_inv_def paint_menu_def refreshAutostart_def split: option.splits)

interpretation tray: machine_invariant tray_step "NewTray v enabled st" tray_inv for v enabled st
proof
  show "tray_inv (NewTray v enabled st)"
    using applyIcon_off [of "refreshAutostart enabled \<lparr>t_busy = False, t_probing = False, t_forwardUp = None, t_autostart = False, t_blinkStop = False, t_blinkOn = False,
        t_icon = IconStopped, t_menu = [], t_actions = [], t_probes = [], t_shown = None\<rparr>" st]
    unfolding NewTray_def tray_inv_same by (auto simp: tray_inv_def refreshAutostart_def split: option.splits)
  show "tray_inv t'" if I: "tray_inv t" and e: "tray_step e t = Some t'" for t e t'
  proof (cases e)
    case (Click act)
    with e I show ?thesis by (auto simp: tray_inv_def runBusy_def split: if_splits)
  next
    case (ActionEnds act)
    with e I show ?thesis
      by (auto simp: tray_inv_def runBusy_ends_def length_1_remove1 split: if_splits)
  next
    case (Paint v st)
    from I applyIcon_off [of t st] have "tray_inv (applyIcon st t)" by (auto simp: tray_inv_def)
    with Paint e show ?thesis by auto
  next
    case (OpenMenu v st)
    from I have "tray_inv (paint_menu v st t)" by simp
    then have "tray_inv (refreshForwards st (paint_menu v st t))"
      by (auto simp: tray_inv_def refreshForwards_def split: if_splits)
    with OpenMenu e show ?thesis by auto
  next
    case (ProbeEnds accepts fs)
    with e I show ?thesis
      by (auto simp: tray_inv_def refreshForwards_ends_def length_1_remove1 split: if_splits)
  next
    case BlinkTick
    with e I show ?thesis by (auto simp: tray_inv_def blinkTick_def Let_def)
  next
    case (AutostartSet enabled)
    with e I show ?thesis by (auto split: if_splits)
  qed
qed

section \<open>The upstreams of the menu have their dialers\<close>

text \<open>What \<open>config.LoadFile\<close> guarantees of the configuration \<open>Start\<close> loads, and that both passes of
  \<open>NewRegistry\<close> go over the same map.\<close>

definition start_ok :: "start_env \<Rightarrow> bool" where
  "start_ok env \<longleftrightarrow> (\<forall>path cfg. se_load env path = Inr cfg \<longrightarrow> (\<exists>urlp. Validate urlp cfg = Inr ())
     \<and> wf_map (c_Upstreams cfg) \<and> wf_map (se_order env) \<and> map_of (c_Upstreams cfg) = map_of (se_order env))"

fun start_event :: "ctl_event \<Rightarrow> bool" where
  "start_event (EvStartFinish env) = start_ok env"
| "start_event _ = True"

definition menu_step :: "ctl_event \<Rightarrow> ctl \<Rightarrow> ctl option" where
  "menu_step e s = (if start_event e then ctl_step e s else None)"

definition built :: "config \<Rightarrow> registry \<Rightarrow> bool" where
  "built cfg reg \<longleftrightarrow> (\<forall>n \<in> set (connNames cfg). reg_connDialer (Some reg) n \<noteq> None)"

definition built_inv :: "ctl \<Rightarrow> bool" where
  "built_inv s \<longleftrightarrow> (\<forall>cfg. q_cfg s = Some cfg \<longrightarrow> (\<exists>reg. q_reg s = Some reg \<and> built cfg reg))"

lemma dialer_for_closes:
  "dialer_for env via n u d \<Longrightarrow> u_Type u = UpstreamSSH \<or> u_Type u = UpstreamOpenConnect \<Longrightarrow> closes d"
  by (cases d) (auto simp: dialer_for_def)

lemma NewRegistry_built:
  assumes v: "Validate urlp cfg = Inr ()" "wf_map (c_Upstreams cfg)" "wf_map ups2" "map_of (c_Upstreams cfg) = map_of ups2"
    and reg: "fst (NewRegistry env (c_Upstreams cfg) ups2 r) = Inr reg"
  shows "built cfg reg"
  unfolding built_def
proof
  fix n assume "n \<in> set (connNames cfg)"
  then obtain u where u: "map_of (c_Upstreams cfg) n = Some u" "u_Type u = UpstreamSSH \<or> u_Type u = UpstreamOpenConnect"
    by (auto simp: connNames_def split: option.splits)
  obtain r' where "NewRegistry env (c_Upstreams cfg) ups2 r = (Inr reg, r')"
    using reg by (cases "NewRegistry env (c_Upstreams cfg) ups2 r") auto
  from valid_config_dialers [OF Validate_iff [OF v(2), THEN iffD1, OF v(1)] v(2-4) this u(1)]
  obtain d where "Get reg n = Some d" "closes d" using dialer_for_closes [OF _ u(2)] by blast
  then show "reg_connDialer (Some reg) n \<noteq> None" by (simp add: reg_connDialer_def)
qed

interpretation cfgs: ctl_frame "\<lambda>s. (q_cfg s, q_reg s)"
  by unfold_locales (auto simp: notify_def upd_tunnel_def split: option.splits)

lemma built_inv_same: "q_cfg s' = q_cfg s \<Longrightarrow> q_reg s' = q_reg s \<Longrightarrow> built_inv s' = built_inv s"
  by (simp add: built_inv_def)

lemma built_inv_view: "(q_cfg s', q_reg s') = (q_cfg s, q_reg s) \<Longrightarrow> built_inv s' = built_inv s"
  by (simp add: built_inv_def)

lemma built_inv_core: "core s' = core s \<Longrightarrow> built_inv s' = built_inv s"
  using core_fields [of s' s] by (simp add: built_inv_def)

lemma built_inv_none: "q_cfg s = None \<Longrightarrow> built_inv s"
  by (simp add: built_inv_def)

lemma built_inv_start:
  assumes "start_ok env" "built_inv s"
  shows "built_inv (snd (Start_finish env s))"
proof (cases "Start_finish env s")
  case (Pair res s')
  show ?thesis
  proof (cases res)
    case (Inl e)
    with Pair have "q_cfg s' = None"
      unfolding Start_finish_def Let_def by (auto simp: fail_def notify_def split: sum.splits prod.splits)
    with Pair built_inv_none show ?thesis by simp
  next
    case (Inr u)
    from Start_finish_Inr [OF Pair [unfolded Inr]] obtain cfg reg srv ts np' where
      s: "se_load env (q_cfgPath s) = Inr cfg" "s' = Start_run cfg reg srv ts np' s"
      "fst (NewRegistry (se_build env) (c_Upstreams cfg) (se_order env) (se_secrets env)) = Inr reg" by metis
    from assms(1) s(1) obtain urlp where "Validate urlp cfg = Inr ()" "wf_map (c_Upstreams cfg)" "wf_map (se_order env)"
      "map_of (c_Upstreams cfg) = map_of (se_order env)" unfolding start_ok_def by blast
    from NewRegistry_built [OF this s(3)] show ?thesis by (simp add: Pair s(2) built_inv_def)
  qed
qed

lemma Stop_cfg: "q_state s = StateRunning \<or> q_state s = StateStarting \<Longrightarrow> q_cfg (snd (Stop w s)) = None"
  by (auto simp: Stop_def Let_def)

lemma proxy_end_cfg: "(q_cfg (proxy_end r reg err s), q_reg (proxy_end r reg err s)) = (q_cfg s, q_reg s)"
  using cfgs.cancel [of r s] unfolding proxy_end_def Let_def by (simp add: core_fields [OF core_folds(2)])

lemma built_inv_step:
  assumes I: "built_inv s" and e: "menu_step e s = Some s'"
  shows "built_inv s'"
proof (cases e)
  case EvStartBegin
  with e have "q_cfg s' = q_cfg s" "q_reg s' = q_reg s"
    by (auto simp: menu_step_def Start_begin_def notify_def split: if_splits)
  with I built_inv_same show ?thesis by blast
next
  case (EvStartFinish env)
  with e built_inv_start [OF _ I, of env] show ?thesis by (auto simp: menu_step_def split: if_splits)
next
  case (EvStop w)
  then have s': "s' = snd (Stop w s)" using e by (simp add: menu_step_def)
  show ?thesis
  proof (cases "q_state s = StateRunning \<or> q_state s = StateStarting")
    case True
    from built_inv_none [OF Stop_cfg [OF this]] show ?thesis by (simp add: s')
  next
    case False
    then have "Stop w s = (Inr (), s)" by (simp add: Stop_def)
    with I show ?thesis by (simp add: s')
  qed
next
  case (EvAutoconnect on)
  with e have "q_cfg s' = q_cfg s" "q_reg s' = q_reg s"
    by (auto simp: menu_step_def ctl_SetAutoconnect_def Let_def core_fields [OF core_folds(1)] split: option.splits)
  with I built_inv_same show ?thesis by blast
next
  case (EvDisconnect n)
  with e have "core s' = core s" by (auto simp: menu_step_def core_calls)
  with I built_inv_core show ?thesis by blast
next
  case (ConnChange r n b st)
  with e have "core s' = core s" by (auto simp: menu_step_def split: if_splits)
  with I built_inv_core show ?thesis by blast
next
  case (Dropped r n)
  with e have "core s' = core s" by (auto simp: menu_step_def core_calls)
  with I built_inv_core show ?thesis by blast
next
  case (ProxyServeEnds r err)
  with e obtain reg where "s' = proxy_end r reg err s" by (auto simp: menu_step_def split: option.splits if_splits)
  with I built_inv_view [OF proxy_end_cfg] show ?thesis by simp
next
  case SyncDecide
  with e I built_inv_same [of s' s] show ?thesis by (auto simp: menu_step_def split: list.splits if_splits)
next
  case (SyncAct w)
  with e obtain a as where "s' = (sync_act w a s)\<lparr>q_queue := as\<rparr>" by (auto simp: menu_step_def split: list.splits)
  with I built_inv_view [of s' s] cfgs.act [of w a s] show ?thesis by simp
next
  case (EvUpNext i)
  with e obtain x u where "s' = (up_next s u)\<lparr>q_ups := x\<rparr>" by (auto simp: menu_step_def split: if_splits)
  moreover have "core (up_next s u) = core s" by (simp add: up_next_def Let_def split: option.splits)
  ultimately show ?thesis using I built_inv_core [of "up_next s u" s] by (simp add: built_inv_def)
next
  case (EvUpReturn i)
  with e I built_inv_same [of s' s] show ?thesis
    by (auto simp: menu_step_def up_return_def notify_def split: if_splits)
next
  case (EvStopTunnel w n)
  with e I built_inv_view [OF cfgs.calls(1)] show ?thesis by (auto simp: menu_step_def)
next
  case (EvStartTunnel n)
  with e I built_inv_view [OF cfgs.calls(2)] show ?thesis by (auto simp: menu_step_def)
next
  case (EvConnect n)
  with e I built_inv_view [OF cfgs.calls(3)] show ?thesis by (auto simp: menu_step_def)
next
  case (TunnelServeEnds n)
  with e I built_inv_view [OF cfgs.tunnels(1)] show ?thesis by (auto simp: menu_step_def)
next
  case EvSubscribe
  with e I built_inv_same [of s' s] show ?thesis by (auto simp: menu_step_def Subscribe_def)
next
  case (EvUnsubscribe i)
  with e I built_inv_same [of s' s] show ?thesis by (auto simp: menu_step_def Unsubscribe_def split: if_splits)
qed

interpretation menu: machine_invariant menu_step "ctl_New path np" built_inv for path np
proof
  show "built_inv (ctl_New path np)" by (simp add: built_inv_def ctl_New_def)
  show "built_inv s'" if "reachable menu_step (ctl_New path np) s" "built_inv s" "menu_step e s = Some s'" for s e s'
    using that built_inv_step by blast
qed

section \<open>Properties\<close>

text \<open>At most one menu action and one probe of the forwards are under way at any time, and the icon is true
  to the state it was last given: it blinks exactly while the proxy runs and an upstream is connecting,
  and otherwise shows whether the proxy runs, whatever blink ticks are still queued.\<close>

theorem tray_guards_and_icon:
  assumes "reachable tray_step (NewTray v enabled st0) t"
  shows "length (t_actions t) \<le> 1 \<and> length (t_probes t) \<le> 1
    \<and> (\<exists>st. t_shown t = Some st \<and> t_blinkStop t = upstreamConnecting st
         \<and> (if upstreamConnecting st then True else t_icon t = state_icon st))"
  using tray.holds [OF assms] by (auto simp: tray_inv_def split: if_splits)

definition sample_view :: tray_view where
  "sample_view = \<lparr>tv_version = ''dev'', tv_errText = (\<lambda>_. ''error''), tv_forwardUp = None, tv_autoconnect = True,
     tv_autostart = False, tv_sudoers = False, tv_logPath = ''dockprox.log''\<rparr>"

definition sample_status :: "conn_state \<Rightarrow> status" where
  "sample_status c = \<lparr>st_State = StateRunning, st_ListenAddr = ''127.0.0.1:8888'', st_ConfigPath = ''dockprox.yaml'',
     st_LastError = None, st_Tunnels = [], st_Forwards = [],
     st_Upstreams = [\<lparr>us_Name = ''jump'', us_Type = UpstreamSSH, us_ConnState = c\<rparr>], st_Chrome = None\<rparr>"

lemma tray_guards_and_icon_witness:
  "\<exists>t. run_events tray_step [Click ActRestart, Click (ActConnect ''jump''), BlinkTick,
       Paint sample_view (sample_status ConnConnected), BlinkTick] (NewTray sample_view (Some True) (sample_status ConnConnecting)) = Some t
     \<and> t_actions t = [ActRestart] \<and> length (t_actions t) \<le> 1 \<and> t_icon t = IconRunning"
proof -
  let ?run = "run_events tray_step [Click ActRestart, Click (ActConnect ''jump''), BlinkTick,
       Paint sample_view (sample_status ConnConnected), BlinkTick] (NewTray sample_view (Some True) (sample_status ConnConnecting))"
  have "map_option (\<lambda>t. (t_actions t, t_icon t)) ?run = Some ([ActRestart], IconRunning)"
    by (simp add: NewTray_def refreshAutostart_def paint_menu_def applyIcon_def runBusy_def blinkTick_def
        upstreamConnecting_def sample_status_def state_icon_def)
  then obtain t where t: "?run = Some t" "t_actions t = [ActRestart]" "t_icon t = IconRunning" by auto
  from tray_guards_and_icon [OF run_reachable [OF t(1)]] t show ?thesis by auto
qed

lemma tunnel_item_row:
  "Row label True (Some act) = tunnel_item running ts \<Longrightarrow> running
     \<and> act = (if ts_State ts = TunnelListening then ActStopTunnel (ts_Name ts) else ActStartTunnel (ts_Name ts))"
  by (auto simp: tunnel_item_def tunnelRow_def Let_def split: if_splits)

lemma upstream_item_row:
  "Row label True (Some act) = upstream_item running us \<Longrightarrow> running
     \<and> act = (if us_ConnState us = ConnUnknown \<or> us_ConnState us = ConnDisconnected
              then ActConnect (us_Name us) else ActDisconnect (us_Name us))"
  by (auto simp: upstream_item_def upstreamRow_def Let_def split: if_splits conn_state.splits)

text \<open>The rows that act on a tunnel or an upstream come from the snapshot.\<close>

lemma menu_row_cases:
  assumes "Row label True (Some act) \<in> set (rebuildMenu v snap)"
  shows "(\<exists>ts \<in> set (st_Tunnels snap). st_State snap = StateRunning \<and>
            act = (if ts_State ts = TunnelListening then ActStopTunnel (ts_Name ts) else ActStartTunnel (ts_Name ts)))
    \<or> (\<exists>us \<in> set (st_Upstreams snap). st_State snap = StateRunning \<and>
            act = (if us_ConnState us = ConnUnknown \<or> us_ConnState us = ConnDisconnected
                   then ActConnect (us_Name us) else ActDisconnect (us_Name us)))
    \<or> act = OpenReleases \<or> act = ActInstallSudoers \<or> act = Quit"
proof -
  let ?run = "st_State snap = StateRunning"
  have "Row label True (Some act) \<in> tunnel_item ?run ` set (st_Tunnels snap)
    \<or> Row label True (Some act) \<in> upstream_item ?run ` set (st_Upstreams snap)
    \<or> act = OpenReleases \<or> act = ActInstallSudoers \<or> act = Quit"
    using assms unfolding rebuildMenu_def Let_def
    by (auto simp: forward_item_def split: if_splits option.splits)
  then show ?thesis
  proof (elim disjE imageE)
    fix ts assume "ts \<in> set (st_Tunnels snap)" "Row label True (Some act) = tunnel_item ?run ts"
    with tunnel_item_row [OF this(2)] show ?thesis by blast
  next
    fix us assume "us \<in> set (st_Upstreams snap)" "Row label True (Some act) = upstream_item ?run us"
    with upstream_item_row [OF this(2)] show ?thesis by blast
  qed simp_all
qed

lemma tunnelStatus_row:
  "ts \<in> set (tunnelStatus s) \<Longrightarrow> \<exists>h. map_of (q_tunnels s) (ts_Name ts) = Some h
     \<and> (ts_State ts = TunnelListening \<longleftrightarrow> h_run h \<noteq> None)"
  by (auto simp: tunnelStatus_def List.map_filter_def)

lemma upstreamStatus_row:
  "us \<in> set (upstreamStatus s cfg) \<Longrightarrow> us_Name us \<in> set (connNames cfg)
     \<and> (reg_connDialer (q_reg s) (us_Name us) \<noteq> None \<longrightarrow> us_ConnState us = conn_state_of s (us_Name us))"
  by (auto simp: upstreamStatus_def)


lemma menu_run: "list_all start_event es \<Longrightarrow> run_events menu_step es s = run_events ctl_step es s"
  by (induction es arbitrary: s) (auto simp: menu_step_def split: option.splits)

lemma sample_start_ok: "start_ok sample_start"
  using sample_config_Validate sample_config_wf by (auto simp: start_ok_def sample_start_def)

lemma upstream_row_shown:
  assumes "st_State snap = StateRunning" "us \<in> set (st_Upstreams snap)" "us_ConnState us = ConnUnknown"
  shows "\<exists>label. Row label True (Some (ActConnect (us_Name us))) \<in> set (rebuildMenu v snap)"
proof -
  have "upstream_item True us \<in> set (rebuildMenu v snap)" using assms(1,2) by (simp add: rebuildMenu_def Let_def)
  then show ?thesis using assms(3) by (auto simp: upstream_item_def upstreamRow_def Let_def)
qed


end
