(* ===== verification/App.thy ===== *)
theory App
  imports Menubar Secret
begin

text \<open>
  \<open>cmd/dockprox-menubar/main.go\<close>: what a launch of the menu bar app sets up (secrets, the configuration's
  path, the log, the controller with the saved autoconnect setting), and the app over its launches: the
  preferences file outlives the process, the controller does not. The events are those of the
  controller, the menu's autoconnect toggle, launches and exits.
\<close>

section \<open>The autoconnect setting reaches every connection\<close>

text \<open>
  The connections of the running configuration are in the mode the setting asks for; they only connect
  on demand when it is on.
\<close>

definition auto_applied :: "ctl \<Rightarrow> bool" where
  "auto_applied s \<longleftrightarrow>
     (case (q_cfg s, q_reg s, q_run s) of
        (Some cfg, Some reg, Some r) \<Rightarrow>
          list_all (\<lambda>n. reg_connDialer (Some reg) n \<noteq> None \<longrightarrow> cd_manual (q_conns s r n) = q_manualOnly s) (connNames cfg)
      | _ \<Rightarrow> True)"

definition auto_view where
  "auto_view s = (\<lambda>r n. cd_manual (q_conns s r n), q_manualOnly s, q_cfg s, q_reg s, q_run s)"

lemma auto_applied_view: "auto_view s' = auto_view s \<Longrightarrow> auto_applied s \<Longrightarrow> auto_applied s'"
proof -
  assume v: "auto_view s' = auto_view s" and a: "auto_applied s"
  then have "cd_manual (q_conns s' r n) = cd_manual (q_conns s r n)" for r n
    by (auto simp: auto_view_def dest: fun_cong)
  with v a show ?thesis by (simp add: auto_applied_def auto_view_def split: option.splits)
qed

interpretation auto: ctl_frame auto_view
  by unfold_locales (auto simp: auto_view_def notify_def upd_tunnel_def split: option.splits)

lemma auto_view_upd: "(\<And>c. cd_manual (f c) = cd_manual c) \<Longrightarrow> auto_view (upd_conn r n f s) = auto_view s"
  by (auto simp: auto_view_def upd_conn_def fun_eq_iff)

lemma auto_view_fields [simp]:
  "auto_view (s\<lparr>q_syncs := x1\<rparr>) = auto_view s" "auto_view (s\<lparr>q_approvals := x2\<rparr>) = auto_view s"
  "auto_view (s\<lparr>q_queue := x3\<rparr>) = auto_view s" "auto_view (s\<lparr>q_state := x4\<rparr>) = auto_view s"
  "auto_view (s\<lparr>q_lastErr := x5\<rparr>) = auto_view s" "auto_view (s\<lparr>q_listen := x6\<rparr>) = auto_view s"
  "auto_view (s\<lparr>q_serving := x7\<rparr>) = auto_view s" "auto_view (s\<lparr>q_subs := x8\<rparr>) = auto_view s"
  "auto_view (s\<lparr>q_ups := x9\<rparr>) = auto_view s" "auto_view (notify s) = auto_view s"
  by (simp_all add: auto_view_def notify_def)

lemma auto_view_conn [simp]:
  "auto_view (set_conn_state b r n st s) = auto_view s" "auto_view (conn_Down r n d s) = auto_view s"
  by (simp_all add: set_conn_state_def sshStateChanged_def conn_Down_def Let_def auto_view_upd)

lemma auto_view_folds [simp]:
  "auto_view (downDependents r n s) = auto_view s" "auto_view (close_registry r reg s) = auto_view s"
proof -
  have "auto_view (fold (\<lambda>n s. case reg_connDialer (q_reg s) n of None \<Rightarrow> s | Some d \<Rightarrow> conn_Down r n d s) ns s) = auto_view s"
    for ns by (rule fold_same) (simp split: option.splits)
  then show "auto_view (downDependents r n s) = auto_view s" by (simp add: downDependents_def split: option.splits)
  show "auto_view (close_registry r reg s) = auto_view s"
    unfolding close_registry_def by (rule fold_same) (simp split: prod.splits)
qed

lemma auto_view_proxy_end [simp]: "auto_view (proxy_end r reg err s) = auto_view s"
  by (simp add: proxy_end_def Let_def auto.cancel)

lemma auto_applied_none: "q_cfg s = None \<Longrightarrow> auto_applied s"
  by (simp add: auto_applied_def)

text \<open>\<open>applyAutoconnect\<close> sets every connection of the configuration, and nothing else.\<close>

lemma applyAutoconnect_manual:
  "q_manualOnly (applyAutoconnect r reg cfg s) = q_manualOnly s"
  "q_cfg (applyAutoconnect r reg cfg s) = q_cfg s" "q_reg (applyAutoconnect r reg cfg s) = q_reg s"
  "q_run (applyAutoconnect r reg cfg s) = q_run s"
  "n \<in> set (connNames cfg) \<Longrightarrow> reg_connDialer (Some reg) n \<noteq> None \<Longrightarrow>
     cd_manual (q_conns (applyAutoconnect r reg cfg s) r n) = q_manualOnly s"
proof -
  let ?f = "\<lambda>n s. if reg_connDialer (Some reg) n \<noteq> None
      then upd_conn r n (\<lambda>c. c\<lparr>cd_manual := q_manualOnly s\<rparr>) s else s"
  have same: "q_manualOnly (fold ?f ns s) = q_manualOnly s" "q_cfg (fold ?f ns s) = q_cfg s"
    "q_reg (fold ?f ns s) = q_reg s" "q_run (fold ?f ns s) = q_run s" for ns s
    by (rule fold_same, simp add: upd_conn_def)+
  then show "q_manualOnly (applyAutoconnect r reg cfg s) = q_manualOnly s"
    "q_cfg (applyAutoconnect r reg cfg s) = q_cfg s" "q_reg (applyAutoconnect r reg cfg s) = q_reg s"
    "q_run (applyAutoconnect r reg cfg s) = q_run s"
    by (simp_all only: applyAutoconnect_def)
  have keep: "cd_manual (q_conns s r n) = q_manualOnly s \<Longrightarrow> cd_manual (q_conns (fold ?f ns s) r n) = q_manualOnly s" for ns s
    by (induction ns arbitrary: s) (simp_all add: upd_conn_def)
  have "n \<in> set ns \<Longrightarrow> reg_connDialer (Some reg) n \<noteq> None \<Longrightarrow> cd_manual (q_conns (fold ?f ns s) r n) = q_manualOnly s" for ns s
  proof (induction ns arbitrary: s)
    case (Cons a ns)
    show ?case
    proof (cases "a = n")
      case True
      with Cons.prems(2) keep [of "?f n s" ns] show ?thesis by (simp add: upd_conn_def)
    next
      case False
      with Cons.prems have "n \<in> set ns" by simp
      from Cons.IH [OF this Cons.prems(2), of "?f a s"] show ?thesis by (simp add: upd_conn_def)
    qed
  qed simp
  then show "n \<in> set (connNames cfg) \<Longrightarrow> reg_connDialer (Some reg) n \<noteq> None \<Longrightarrow>
     cd_manual (q_conns (applyAutoconnect r reg cfg s) r n) = q_manualOnly s"
    unfolding applyAutoconnect_def by blast
qed

lemma auto_applied_apply:
  assumes "q_cfg s = Some cfg" "q_reg s = Some reg" "q_run s = Some r"
  shows "auto_applied (applyAutoconnect r reg cfg s)"
  using assms applyAutoconnect_manual by (simp add: auto_applied_def list_all_iff)

lemma auto_applied_start:
  "auto_applied (snd (Start_finish env s))"
proof -
  have f: "auto_applied (fail e s)" for e s by (rule auto_applied_none) (simp add: fail_def notify_def)
  have "auto_applied (Start_run cfg reg srv ts np s)" for cfg reg srv ts np
  proof -
    let ?s = "notify (s\<lparr>q_next := Suc (q_next s), q_cancel := Some (q_next s), q_listen := srv_addr srv, q_tunnels := ts,
        q_run := Some (q_next s), q_reg := Some reg, q_cfg := Some cfg, q_state := StateRunning, q_ports := np\<rparr>)"
    have "auto_applied (applyAutoconnect (q_next s) reg cfg ?s)"
      by (rule auto_applied_apply) (simp_all add: notify_def)
    then show ?thesis unfolding Start_run_def Let_def by (rule auto_applied_view [rotated]) simp
  qed
  with f show ?thesis unfolding Start_finish_def Let_def by (auto split: sum.splits prod.splits)
qed

lemma auto_applied_set: "auto_applied (ctl_SetAutoconnect on s)"
proof -
  let ?s = "s\<lparr>q_manualOnly := \<not> on\<rparr>"
  define s1 where "s1 = (case (q_cfg ?s, q_reg ?s, q_run ?s) of
      (Some cfg, Some reg, Some r) \<Rightarrow> applyAutoconnect r reg cfg ?s | _ \<Rightarrow> ?s)"
  have "auto_applied s1"
  proof (cases "\<exists>cfg reg r. q_cfg s = Some cfg \<and> q_reg s = Some reg \<and> q_run s = Some r")
    case True
    then obtain cfg reg r where "q_cfg s = Some cfg" "q_reg s = Some reg" "q_run s = Some r" by blast
    then show ?thesis using auto_applied_apply [of ?s cfg reg r] by (simp add: s1_def)
  next
    case False
    then have "s1 = ?s" by (auto simp: s1_def split: option.split)
    then show ?thesis using False by (auto simp: auto_applied_def split: option.split)
  qed
  moreover have "ctl_SetAutoconnect on s = notify s1" by (simp only: ctl_SetAutoconnect_def Let_def s1_def)
  ultimately show ?thesis using auto_applied_view [of "notify s1" s1] by simp
qed

lemma auto_applied_stop: "auto_applied s \<Longrightarrow> auto_applied (snd (Stop w s))"
  by (auto simp: Stop_def Let_def intro: auto_applied_none)

text \<open>Everything but the start, the end of a run and the toggle leaves the setting and its effect alone.\<close>

lemma auto_view_step:
  assumes e: "ctl_step e s = Some s'"
    and n: "case e of EvStartFinish _ \<Rightarrow> False | EvAutoconnect _ \<Rightarrow> False | EvStop _ \<Rightarrow> False | _ \<Rightarrow> True"
  shows "auto_view s' = auto_view s"
proof (cases e)
  case (EvUpNext k)
  have "auto_view (up_next s u) = auto_view s" for u
    by (simp add: up_next_def Let_def auto_view_upd split: option.splits)
  moreover from EvUpNext e obtain x u where "s' = (up_next s u)\<lparr>q_ups := x\<rparr>" by (auto split: if_splits)
  ultimately show ?thesis by simp
next
  case SyncDecide
  with e show ?thesis by (auto split: list.splits if_splits)
next
  case (SyncAct w)
  with e show ?thesis by (auto simp: auto.act split: list.splits)
next
  case (ProxyServeEnds r err)
  with e show ?thesis by (auto split: option.splits if_splits)
qed (use e n in \<open>force simp: Start_begin_def DisconnectUpstream_def upstreamDropped_def up_return_def Subscribe_def
  Unsubscribe_def auto.calls auto.tunnel split: if_splits sum.splits option.splits\<close>)+

lemma auto_applied_step:
  assumes i: "auto_applied s" and e: "ctl_step e s = Some s'"
  shows "auto_applied s'"
proof (cases "case e of EvStartFinish _ \<Rightarrow> False | EvAutoconnect _ \<Rightarrow> False | EvStop _ \<Rightarrow> False | _ \<Rightarrow> True")
  case True
  from auto_applied_view [OF auto_view_step [OF e True] i] show ?thesis .
next
  case False
  with e auto_applied_start auto_applied_set auto_applied_stop [OF i] show ?thesis
    by (cases e) (auto split: if_splits)
qed

interpretation autoconnect: machine_invariant ctl_step "ctl_New path np" auto_applied for path np
proof
  show "auto_applied (ctl_New path np)" by (rule auto_applied_none) (simp add: ctl_New_def)
  show "auto_applied s'" if "auto_applied s" "ctl_step e s = Some s'" for s e s'
    using that by (rule auto_applied_step)
qed

section \<open>A launch\<close>

record app =
  a_secrets :: resolver
  a_log :: log_writer
  a_logPath :: string
  a_ctl :: ctl

text \<open>
  \<open>run\<close> up to the application's event loop: \<open>cfgPath\<close> is the flag, \<open>configs\<close> the configuration files that
  exist, \<open>files\<close> what reading a file gives. Settings that do not load only log a warning.
\<close>

definition menubar_run ::
  "os_env \<Rightarrow> fs_errs \<Rightarrow> (string \<Rightarrow> settings \<times> bool) \<Rightarrow> net_ports \<Rightarrow> string \<Rightarrow> string list \<Rightarrow> (string \<Rightarrow> bool + string)
     \<Rightarrow> (string + app) \<times> string list" where
  "menubar_run env errs unmarshal np cfgPath configs files =
     (case (if cfgPath = [] then Resolve_config env errs configs else (Inr cfgPath, configs)) of
        (Inl e, configs) \<Rightarrow> (Inl e, configs)
      | (Inr path, configs) \<Rightarrow>
          (rbind (DefaultLogPath env) (\<lambda>logPath.
           rbind (OpenLogWriter env errs Defaults) (\<lambda>w.
             let settings = fst (LoadSettings unmarshal files (SettingsPath env))
             in Inr \<lparr>a_secrets = secret_new [WithCmd, WithSearchDirs [''/opt/homebrew/bin'', ''/usr/local/bin'']],
                     a_log = w, a_logPath = logPath,
                     a_ctl = ctl_SetAutoconnect (AutoconnectOn settings) (ctl_New path np)\<rparr>)),
           configs))"

text \<open>The click on the autoconnect row (\<open>tray.go\<close>): saved first, then applied.\<close>

definition toggle_autoconnect ::
  "os_env \<Rightarrow> bool \<Rightarrow> (bool + string) option \<Rightarrow> bool \<Rightarrow> (string \<Rightarrow> bool + string) \<Rightarrow> ctl
     \<Rightarrow> (settings_err + unit) \<times> (string \<Rightarrow> bool + string) \<times> ctl" where
  "toggle_autoconnect env mkdirOk left on files c =
     (case SaveSettings mkdirOk left (SettingsPath env) \<lparr>s_Autoconnect = Some on\<rparr> files of
        (Inl e, files) \<Rightarrow> (Inl e, files, c)
      | (Inr _, files) \<Rightarrow> (Inr (), files, ctl_SetAutoconnect on c))"

section \<open>The app over its launches\<close>

record machine =
  m_configs :: "string list"
  m_files :: "string \<Rightarrow> bool + string"
  m_app :: "app option"

definition new_machine :: "string list \<Rightarrow> (string \<Rightarrow> bool + string) \<Rightarrow> machine" where
  "new_machine configs files = \<lparr>m_configs = configs, m_files = files, m_app = None\<rparr>"

text \<open>
  \<open>Exit\<close> is any end of the process: \<open>Quit\<close> stops the controller first, a crash does not. \<open>CtlEvent\<close> is
  everything that happens to the controller besides the toggle.
\<close>

datatype app_event =
    Launch fs_errs net_ports string
  | CtlEvent ctl_event
  | Toggle bool "(bool + string) option" bool
  | Exit

fun app_step :: "os_env \<Rightarrow> (string \<Rightarrow> settings \<times> bool) \<Rightarrow> app_event \<Rightarrow> machine \<Rightarrow> machine option" where
  "app_step env unmarshal (Launch errs np cfgPath) m =
     (case m_app m of
        Some _ \<Rightarrow> None
      | None \<Rightarrow>
          (case menubar_run env errs unmarshal np cfgPath (m_configs m) (m_files m) of
             (Inl _, configs) \<Rightarrow> Some (m\<lparr>m_configs := configs\<rparr>)
           | (Inr a, configs) \<Rightarrow> Some (m\<lparr>m_configs := configs, m_app := Some a\<rparr>)))"
| "app_step env unmarshal (CtlEvent e) m =
     (case (m_app m, e) of
        (None, _) \<Rightarrow> None
      | (Some a, EvAutoconnect _) \<Rightarrow> None
      | (Some a, e) \<Rightarrow> map_option (\<lambda>c. m\<lparr>m_app := Some (a\<lparr>a_ctl := c\<rparr>)\<rparr>) (ctl_step e (a_ctl a)))"
| "app_step env unmarshal (Toggle mkdirOk left on) m =
     (case m_app m of
        None \<Rightarrow> None
      | Some a \<Rightarrow>
          (case toggle_autoconnect env mkdirOk left on (m_files m) (a_ctl a) of
             (_, files, c) \<Rightarrow> Some (m\<lparr>m_files := files, m_app := Some (a\<lparr>a_ctl := c\<rparr>)\<rparr>)))"
| "app_step env unmarshal Exit m = (if m_app m = None then None else Some (m\<lparr>m_app := None\<rparr>))"

text \<open>Without a write that fails half way, which truncates the file.\<close>

fun whole_write :: "app_event \<Rightarrow> bool" where
  "whole_write (Toggle _ left _) = (left = None)"
| "whole_write _ = True"

definition safe_step :: "os_env \<Rightarrow> (string \<Rightarrow> settings \<times> bool) \<Rightarrow> app_event \<Rightarrow> machine \<Rightarrow> machine option" where
  "safe_step env unmarshal e m = (if whole_write e then app_step env unmarshal e m else None)"

definition saved_on :: "os_env \<Rightarrow> (string \<Rightarrow> settings \<times> bool) \<Rightarrow> machine \<Rightarrow> bool" where
  "saved_on env unmarshal m = AutoconnectOn (fst (LoadSettings unmarshal (m_files m) (SettingsPath env)))"

definition in_force :: "os_env \<Rightarrow> (string \<Rightarrow> settings \<times> bool) \<Rightarrow> machine \<Rightarrow> bool" where
  "in_force env unmarshal m \<longleftrightarrow>
     (case m_app m of
        None \<Rightarrow> True
      | Some a \<Rightarrow> q_manualOnly (a_ctl a) = (\<not> saved_on env unmarshal m)
          \<and> (\<exists>path np. ctl_reach path np (a_ctl a)))"

lemma manual_view: "auto_view s' = auto_view s \<Longrightarrow> q_manualOnly s' = q_manualOnly s"
  by (simp add: auto_view_def)

lemma manual_set [simp]: "q_manualOnly (ctl_SetAutoconnect on s) = (\<not> on)"
  by (simp add: ctl_SetAutoconnect_def notify_def applyAutoconnect_manual Let_def split: option.split)

lemma manual_start: "q_manualOnly (snd (Start_finish env s)) = q_manualOnly s"
  by (simp add: Start_finish_def Start_run_def fail_def notify_def applyAutoconnect_manual Let_def split: sum.splits prod.splits)

lemma manual_stop: "q_manualOnly (snd (Stop w s)) = q_manualOnly s"
proof -
  have p: "q_manualOnly (proxy_end r reg err s) = q_manualOnly s" for r reg err s by (rule manual_view) simp
  have f: "q_manualOnly (fold tunnel_end ns s) = q_manualOnly s" for ns s by (rule manual_view) (simp add: auto.folds)
  have c: "q_manualOnly (cancel_run r s) = q_manualOnly s" for r s by (rule manual_view) (simp add: auto.cancel)
  show ?thesis by (simp add: Stop_def Let_def p f c split: option.splits)
qed

lemma manual_step:
  assumes e: "ctl_step e s = Some s'" and n: "case e of EvAutoconnect _ \<Rightarrow> False | _ \<Rightarrow> True"
  shows "q_manualOnly s' = q_manualOnly s"
proof (cases "case e of EvStartFinish _ \<Rightarrow> False | EvAutoconnect _ \<Rightarrow> False | EvStop _ \<Rightarrow> False | _ \<Rightarrow> True")
  case True
  from manual_view [OF auto_view_step [OF e True]] show ?thesis .
next
  case False
  with e n manual_start manual_stop show ?thesis by (cases e) (auto split: if_splits)
qed

lemma menubar_run_app:
  assumes "menubar_run env errs unmarshal np cfgPath configs files = (Inr a, configs')"
  obtains path where
    "a_ctl a = ctl_SetAutoconnect (AutoconnectOn (fst (LoadSettings unmarshal files (SettingsPath env)))) (ctl_New path np)"
  using assms by (auto simp: menubar_run_def rbind_def Let_def split: prod.splits sum.splits)

lemma ctl_reach_launch: "ctl_reach path np (ctl_SetAutoconnect on (ctl_New path np))"
  by (rule reach_step [where e = "EvAutoconnect on", OF reach_init]) simp

lemma in_force_step:
  assumes parser: "\<And>s. unmarshal (marshal_settings s @ [CHR 0x0A]) = (s, True)"
    and i: "in_force env unmarshal m" and e: "safe_step env unmarshal e m = Some m'"
  shows "in_force env unmarshal m'"
proof (cases e)
  case (Launch errs np cfgPath)
  with e have none: "m_app m = None" by (auto simp: safe_step_def split: option.splits)
  obtain res configs where run: "menubar_run env errs unmarshal np cfgPath (m_configs m) (m_files m) = (res, configs)"
    by (cases "menubar_run env errs unmarshal np cfgPath (m_configs m) (m_files m)")
  show ?thesis
  proof (cases res)
    case (Inl x)
    with Launch e none run have "m_app m' = None" by (auto simp: safe_step_def)
    then show ?thesis by (simp add: in_force_def)
  next
    case (Inr a)
    with run obtain path where
      "a_ctl a = ctl_SetAutoconnect (AutoconnectOn (fst (LoadSettings unmarshal (m_files m) (SettingsPath env)))) (ctl_New path np)"
      by (auto elim: menubar_run_app)
    moreover from Launch e none run Inr have "m' = m\<lparr>m_configs := configs, m_app := Some a\<rparr>"
      by (simp add: safe_step_def)
    ultimately show ?thesis
      by (auto simp: in_force_def saved_on_def intro!: exI [of _ path] exI [of _ np] ctl_reach_launch)
  qed
next
  case (CtlEvent ce)
  with e obtain a c where a: "m_app m = Some a" "ctl_step ce (a_ctl a) = Some c" "m' = m\<lparr>m_app := Some (a\<lparr>a_ctl := c\<rparr>)\<rparr>"
    and n: "case ce of EvAutoconnect _ \<Rightarrow> False | _ \<Rightarrow> True"
    by (cases "m_app m"; cases ce) (auto simp: safe_step_def simp del: ctl_step.simps)
  then have "q_manualOnly c = q_manualOnly (a_ctl a)" by (intro manual_step)
  with i a show ?thesis
    by (auto simp: in_force_def saved_on_def simp del: ctl_step.simps intro: reach_step)
next
  case (Toggle mkdirOk left on)
  with e obtain a where a: "m_app m = Some a" and left: "left = None"
    by (auto simp: safe_step_def split: option.splits if_splits)
  let ?save = "SaveSettings mkdirOk left (SettingsPath env) \<lparr>s_Autoconnect = Some on\<rparr> (m_files m)"
  show ?thesis
  proof (cases mkdirOk)
    case True
    then obtain files where s: "?save = (Inr (), files)" by (simp add: SaveSettings_def left)
    from LoadSettings_SaveSettings [of unmarshal, OF parser s] have "saved_on env unmarshal (m\<lparr>m_files := files\<rparr>) = on"
      by (simp add: saved_on_def AutoconnectOn_def)
    moreover have "m' = m\<lparr>m_files := files, m_app := Some (a\<lparr>a_ctl := ctl_SetAutoconnect on (a_ctl a)\<rparr>)\<rparr>"
      using e Toggle a s left by (simp add: safe_step_def toggle_autoconnect_def)
    moreover obtain path np where "ctl_reach path np (a_ctl a)" using i a by (auto simp: in_force_def)
    then have "ctl_reach path np (ctl_SetAutoconnect on (a_ctl a))"
      by (rule reach_step [where e = "EvAutoconnect on"]) simp
    ultimately show ?thesis using i a by (auto simp: in_force_def saved_on_def)
  next
    case False
    then have "m' = m" using e Toggle a left by (cases m) (auto simp: safe_step_def toggle_autoconnect_def SaveSettings_def)
    with i show ?thesis by simp
  qed
next
  case Exit
  with e have "m_app m' = None" by (auto simp: safe_step_def split: if_splits)
  then show ?thesis by (simp add: in_force_def)
qed

section \<open>Properties\<close>


text \<open>A decoder for the two files the encoder writes for a setting; any other file fails to parse.\<close>

definition sample_unmarshal :: "string \<Rightarrow> settings \<times> bool" where
  "sample_unmarshal buf =
     (case find (\<lambda>s. buf = marshal_settings s @ [CHR 0x0A])
        [\<lparr>s_Autoconnect = None\<rparr>, \<lparr>s_Autoconnect = Some True\<rparr>, \<lparr>s_Autoconnect = Some False\<rparr>] of
        Some s \<Rightarrow> (s, True)
      | None \<Rightarrow> (\<lparr>s_Autoconnect = None\<rparr>, False))"

lemma sample_unmarshal_ok: "sample_unmarshal (marshal_settings s @ [CHR 0x0A]) = (s, True)"
proof -
  have "s = \<lparr>s_Autoconnect = None\<rparr> \<or> s = \<lparr>s_Autoconnect = Some True\<rparr> \<or> s = \<lparr>s_Autoconnect = Some False\<rparr>"
    by (cases s; cases "s_Autoconnect s") auto
  moreover have "sample_unmarshal (marshal_settings \<lparr>s_Autoconnect = None\<rparr> @ [CHR 0x0A]) = (\<lparr>s_Autoconnect = None\<rparr>, True)"
    by code_simp
  moreover have "sample_unmarshal (marshal_settings \<lparr>s_Autoconnect = Some True\<rparr> @ [CHR 0x0A]) = (\<lparr>s_Autoconnect = Some True\<rparr>, True)"
    by code_simp
  moreover have "sample_unmarshal (marshal_settings \<lparr>s_Autoconnect = Some False\<rparr> @ [CHR 0x0A]) = (\<lparr>s_Autoconnect = Some False\<rparr>, True)"
    by code_simp
  ultimately show ?thesis by blast
qed

definition sample_disk :: machine where
  "sample_disk = new_machine [''/home/me/.dockprox.yaml''] (\<lambda>_. Inl True)"

lemma sample_launch:
  "menubar_run sample_env (\<lambda>_. None) sample_unmarshal np [] [''/home/me/.dockprox.yaml''] files =
     (Inr \<lparr>a_secrets = secret_new [WithCmd, WithSearchDirs [''/opt/homebrew/bin'', ''/usr/local/bin'']],
        a_log = \<lparr>lw_Filename = ''/home/me/Library/Caches/org.foomo.dockprox/dockprox.log'', lw_MaxSize = 5, lw_MaxBackups = 3\<rparr>,
        a_logPath = ''/home/me/Library/Caches/org.foomo.dockprox/dockprox.log'',
        a_ctl = ctl_SetAutoconnect (AutoconnectOn (fst (LoadSettings sample_unmarshal files (SettingsPath sample_env))))
          (ctl_New ''/home/me/.dockprox.yaml'' np)\<rparr>, [''/home/me/.dockprox.yaml''])"
proof -
  have "Resolve_config sample_env (\<lambda>_. None) [''/home/me/.dockprox.yaml''] = (Inr ''/home/me/.dockprox.yaml'', [''/home/me/.dockprox.yaml''])"
    "DefaultLogPath sample_env = Inr ''/home/me/Library/Caches/org.foomo.dockprox/dockprox.log''"
    "OpenLogWriter sample_env (\<lambda>_. None) Defaults = Inr \<lparr>lw_Filename = ''/home/me/Library/Caches/org.foomo.dockprox/dockprox.log'',
       lw_MaxSize = 5, lw_MaxBackups = 3\<rparr>"
    by code_simp+
  then show ?thesis by (simp add: menubar_run_def rbind_def Let_def)
qed

lemmas sample_launch_simps = safe_step_def sample_disk_def new_machine_def sample_launch toggle_autoconnect_def SaveSettings_def
  LoadSettings_def sample_unmarshal_ok AutoconnectOn_def ctl_SetAutoconnect_def ctl_New_def notify_def


text \<open>A write that fails half way loses the saved setting: the file is truncated in place, the toggle reports
  an error and changes nothing in the running app, and the next launch is back at the default.\<close>

lemma failed_save_loses_setting:
  "(case run_events (app_step sample_env sample_unmarshal)
      [Launch (\<lambda>_. None) (q_ports sample_ctl) [], Toggle True None False, Toggle True (Some (Inr [])) True] sample_disk of
      Some m \<Rightarrow> map_option (\<lambda>a. q_manualOnly (a_ctl a)) (m_app m) = Some True \<and> saved_on sample_env sample_unmarshal m
    | None \<Rightarrow> False)"
  by (simp add: sample_launch_simps saved_on_def sample_unmarshal_def)

end
