(* ===== verification/Notices.thy ===== *)
theory Notices
  imports Menubar
begin

text \<open>
  What the subscribers of the controller are told (\<open>notify\<close> of \<open>internal/menubar/controller.go\<close>), and the menu
  bar's tray on top of it (\<open>NewTray\<close> of \<open>internal/menubar/tray.go\<close>): every change that a snapshot shows is
  announced, and the tray, which repaints with what it is told, settles on the controller's state when the
  announcements reach it in the order they were made.
\<close>

section \<open>Announcements\<close>

text \<open>
  A snapshot agrees with a controller: in the state, the address and the error, and in everything while there
  is a configuration. (\<open>Stop\<close> clears the configuration after the last announcement of its run.)
\<close>

definition agrees :: "status \<Rightarrow> ctl \<Rightarrow> bool" where
  "agrees st s \<longleftrightarrow> st_State st = q_state s \<and> st_ListenAddr st = q_listen s \<and> st_LastError st = q_lastErr s
     \<and> (q_cfg s \<noteq> None \<longrightarrow> st = Snapshot s)"

text \<open>Whatever a snapshot does not show may change without an announcement.\<close>

definition visible where
  "visible s = (Snapshot s, q_cfg s, q_subs s)"

lemma Snapshot_fields:
  "st_State (Snapshot s) = q_state s" "st_ListenAddr (Snapshot s) = q_listen s" "st_LastError (Snapshot s) = q_lastErr s"
  by (simp_all add: Snapshot_def)

lemma agrees_visible: "visible s' = visible s \<Longrightarrow> agrees st s' = agrees st s"
  using Snapshot_fields [of s'] Snapshot_fields [of s] by (simp add: visible_def agrees_def)

lemma Snapshot_subs [simp]: "Snapshot (s\<lparr>q_subs := x\<rparr>) = Snapshot s"
  by (simp add: Snapshot_def tunnelStatus_def upstreamStatus_def conn_state_of_def split: option.splits)

lemma Snapshot_notify [simp]: "Snapshot (notify s) = Snapshot s"
  by (simp add: notify_def)

lemma agrees_Snapshot [simp]: "agrees (Snapshot s) s"
  by (simp add: agrees_def Snapshot_fields)

lemma visible_fields [simp]:
  "visible (s\<lparr>q_syncs := x1\<rparr>) = visible s" "visible (s\<lparr>q_approvals := x2\<rparr>) = visible s" "visible (s\<lparr>q_queue := x3\<rparr>) = visible s"
  "visible (s\<lparr>q_ups := x4\<rparr>) = visible s" "visible (s\<lparr>q_ports := x5\<rparr>) = visible s" "visible (s\<lparr>q_orphans := x6\<rparr>) = visible s"
  "visible (s\<lparr>q_cancelled := x7\<rparr>) = visible s" "visible (s\<lparr>q_serving := x8\<rparr>) = visible s"
  "visible (s\<lparr>q_manualOnly := x9\<rparr>) = visible s"
  by (simp_all add: visible_def Snapshot_def tunnelStatus_def upstreamStatus_def conn_state_of_def split: option.splits)

lemma visible_upd_conn:
  assumes "\<And>c. cd_state (f c) = cd_state c"
  shows "visible (upd_conn r n f s) = visible s"
proof -
  have "conn_state_of (upd_conn r n f s) m = conn_state_of s m" for m
    using assms by (simp add: conn_state_of_def upd_conn_def split: option.splits)
  then have "upstreamStatus (upd_conn r n f s) cfg = upstreamStatus s cfg" for cfg
    by (simp add: upstreamStatus_def upd_conn_def)
  then show ?thesis by (simp add: visible_def Snapshot_def tunnelStatus_def upd_conn_def split: option.splits)
qed

text \<open>Of a tunnel a snapshot shows its upstream, its listener and the server it runs.\<close>

definition shows_same :: "tunnel_handle \<Rightarrow> tunnel_handle \<Rightarrow> bool" where
  "shows_same h h' \<longleftrightarrow> h_upstream h' = h_upstream h \<and> h_listener h' = h_listener h
     \<and> map_option run_server (h_run h') = map_option run_server (h_run h)"

lemma keys_put_mem: "k \<in> set (keys m) \<Longrightarrow> keys (put m k v) = keys m"
  by (induction m k v rule: put.induct) (auto simp: keys_def)

lemma visible_upd_tunnel:
  assumes "\<And>h. map_of (q_tunnels s) n = Some h \<Longrightarrow> shows_same h (f h)"
  shows "visible (upd_tunnel n f s) = visible s"
proof (cases "map_of (q_tunnels s) n")
  case (Some h)
  then have k: "sorted_keys (put (q_tunnels s) n (f h)) = sorted_keys (q_tunnels s)"
    using keys_put_mem [of n "q_tunnels s"] by (auto simp: sorted_keys_def simp flip: map_of_Some_keys)
  have t: "tunnelStatus (s\<lparr>q_tunnels := put (q_tunnels s) n (f h)\<rparr>) = tunnelStatus s"
    using assms [OF Some] Some unfolding tunnelStatus_def
    by (auto simp: k shows_same_def List.map_filter_def intro!: map_cong filter_cong split: option.splits)
  then show ?thesis
    using Some by (simp add: upd_tunnel_def visible_def Snapshot_def upstreamStatus_def conn_state_of_def split: option.splits)
qed (simp add: upd_tunnel_def)

lemma visible_cancel [simp]: "visible (tunnel_cancel n s) = visible s"
  by (auto simp: tunnel_cancel_def shows_same_def split: option.splits tunnel_run.splits intro: trans [OF visible_upd_tunnel])

lemma visible_cancel_run [simp]: "visible (cancel_run r s) = visible s"
proof -
  have "visible (fold tunnel_cancel ns s) = visible s" for ns by (rule fold_same) simp
  then show ?thesis by (simp add: cancel_run_def Let_def)
qed

section \<open>Every operation announces what it changes\<close>

text \<open>
  What a subscriber knows that was given the snapshots \<open>l\<close>: the last one, or \<open>s0\<close> if nothing came after the
  first \<open>k\<close>. The locale is for any condition \<open>P\<close> on the subscribers that a notification keeps.
\<close>

definition last_told :: "nat \<Rightarrow> status option \<Rightarrow> status list \<Rightarrow> status option" where
  "last_told k s0 l = (if length l \<le> k then s0 else Some (last l))"

locale announcements =
  fixes P :: "status list option list \<Rightarrow> bool" and k :: nat and s0 :: "status option"
  assumes notified: "P subs \<Longrightarrow> P (map (map_option (\<lambda>l. l @ [st])) subs)"
    and started: "P subs \<Longrightarrow> Some l \<in> set subs \<Longrightarrow> k \<le> length l"
begin

definition told_more :: "ctl \<Rightarrow> bool" where
  "told_more s \<longleftrightarrow> P (q_subs s)"

definition tells :: "ctl \<Rightarrow> bool" where
  "tells s \<longleftrightarrow> told_more s
     \<and> (\<forall>l. Some l \<in> set (q_subs s) \<longrightarrow> (case last_told k s0 l of None \<Rightarrow> True | Some st \<Rightarrow> agrees st s))"

lemma tells_visible: "visible s' = visible s \<Longrightarrow> tells s' = tells s"
proof -
  assume v: "visible s' = visible s"
  then have "q_subs s' = q_subs s" by (simp add: visible_def)
  with agrees_visible [OF v] show ?thesis by (simp add: tells_def told_more_def split: option.split)
qed

lemma tells_notify [simp]: "told_more s \<Longrightarrow> tells (notify s)"
  unfolding tells_def
proof (intro conjI allI impI)
  assume more: "told_more s"
  then show "told_more (notify s)" using notified by (simp add: told_more_def notify_def)
  fix l assume "Some l \<in> set (q_subs (notify s))"
  then obtain m where l: "l = m @ [Snapshot s]" "Some m \<in> set (q_subs s)"
    by (auto simp: notify_def map_option_case split: option.splits)
  then have "k \<le> length m" using started more by (simp add: told_more_def)
  moreover have "agrees (Snapshot (notify s)) (notify s)" by (rule agrees_Snapshot)
  ultimately show "case last_told k s0 l of None \<Rightarrow> True | Some st \<Rightarrow> agrees st (notify s)" using l by (simp add: last_told_def)
qed

lemma told_more_visible: "visible s' = visible s \<Longrightarrow> told_more s' = told_more s"
  by (simp add: visible_def told_more_def)

lemma told_more_fields [simp]:
  "told_more (s\<lparr>q_state := x1\<rparr>) = told_more s" "told_more (s\<lparr>q_lastErr := x2\<rparr>) = told_more s"
  "told_more (s\<lparr>q_listen := x3\<rparr>) = told_more s" "told_more (s\<lparr>q_tunnels := x4\<rparr>) = told_more s"
  "told_more (s\<lparr>q_reg := x5\<rparr>) = told_more s" "told_more (s\<lparr>q_cfg := x6\<rparr>) = told_more s"
  "told_more (s\<lparr>q_run := x7\<rparr>) = told_more s" "told_more (s\<lparr>q_ports := x8\<rparr>) = told_more s"
  "told_more (s\<lparr>q_cancel := x9\<rparr>) = told_more s" "told_more (s\<lparr>q_next := x10\<rparr>) = told_more s"
  "told_more (s\<lparr>q_orphans := x11\<rparr>) = told_more s" "told_more (s\<lparr>q_manualOnly := x12\<rparr>) = told_more s"
  "told_more (upd_conn r n f s) = told_more s" "told_more (upd_tunnel n g s) = told_more s"
  by (simp_all add: told_more_def upd_conn_def upd_tunnel_def split: option.splits)

lemma tells_more: "tells s \<Longrightarrow> told_more s"
  by (simp add: tells_def)

lemmas tells_fields [simp] = visible_fields [THEN tells_visible] visible_fields [THEN told_more_visible]

lemma tells_conn:
  assumes "tells s"
  shows "tells (set_conn_state b r n st s)" "tells (conn_Down r n d s)"
proof -
  have a: "tells s \<Longrightarrow> tells (set_conn_state b r n st s)" for b st s
    by (simp add: set_conn_state_def sshStateChanged_def Let_def tells_more)
  show "tells (set_conn_state b r n st s)" using assms by (rule a)
  have "tells (upd_conn r n (\<lambda>c. c\<lparr>cd_held := True\<rparr>) s)"
    using assms by (simp add: tells_visible [OF visible_upd_conn])
  then show "tells (conn_Down r n d s)" unfolding conn_Down_def by (rule a)
qed

lemma tells_folds:
  assumes "tells s"
  shows "tells (applyAutoconnect r reg cfg s)" "tells (close_registry r reg s)" "tells (downDependents r n s)"
proof -
  show "tells (applyAutoconnect r reg cfg s)"
    unfolding applyAutoconnect_def
    by (rule fold_inv [where I = "tells"]) (simp_all add: assms tells_visible [OF visible_upd_conn])
  show "tells (close_registry r reg s)"
    unfolding close_registry_def
    by (rule fold_inv [where I = "tells"]) (auto simp: assms tells_conn split: prod.splits)
  have "tells (fold (\<lambda>n s. case reg_connDialer (q_reg s) n of None \<Rightarrow> s | Some d \<Rightarrow> conn_Down r n d s) ns s)" for ns
    by (rule fold_inv [where I = "tells"]) (simp_all add: assms tells_conn split: option.splits)
  then show "tells (downDependents r n s)"
    using assms by (auto simp: downDependents_def intro!: tells_notify intro: tells_more split: option.splits)
qed

lemma tells_tunnel:
  assumes "tells s"
  shows "tells (tunnel_end n s)" "tells (snd (bindTunnel n s))" "tells (snd (unbindTunnel w n s))"
    "tells (sync_act w a s)" "tells (fold tunnel_end ns s)"
proof -
  have e: "tells s \<Longrightarrow> tells (tunnel_end n s)" for n s
    by (auto simp: tunnel_end_def Let_def tells_more split: option.splits tunnel_run.splits)
  have c: "tells (tunnel_cancel n s) = tells s" for n s by (rule tells_visible) simp
  show b: "tells (snd (bindTunnel n s))" for n
    by (cases rule: bindTunnel_cases [of n s]) (use assms in \<open>simp_all add: bound_state_def Let_def c tells_more\<close>)
  show u: "tells (snd (unbindTunnel w n s))" for n
    using assms by (simp add: unbindTunnel_def c e split: option.splits)
  show "tells (tunnel_end n s)" using assms by (rule e)
  show "tells (sync_act w a s)" using b u assms by (simp add: sync_act_def split: prod.splits)
  show "tells (fold tunnel_end ns s)" by (rule fold_inv [where I = "tells"]) (use assms e in blast)+
qed

lemma tells_calls:
  assumes "tells s"
  shows "tells (snd (StopTunnel w n s))" "tells (snd (StartTunnel n s))" "tells (snd (ConnectUpstream n s))"
    "tells (snd (DisconnectUpstream n s))" "tells (upstreamDropped r n s)" "tells (up_next s u)"
proof -
  have st: "tells (upd_tunnel n (\<lambda>h. h\<lparr>h_stopped := b\<rparr>) s)" for n b
    using assms by (subst tells_visible [OF visible_upd_tunnel]) (simp_all add: shows_same_def)
  have sp: "tells (spawn_up n b s) = tells s" for n b s by (simp add: spawn_up_def split: option.splits)
  show "tells (snd (StopTunnel w n s))" using assms tells_tunnel(3) [OF st] by (simp add: StopTunnel_def)
  show "tells (snd (StartTunnel n s))"
    using assms tells_tunnel(2) [OF st] st by (simp add: StartTunnel_def Let_def sp split: option.splits)
  show "tells (snd (ConnectUpstream n s))" using assms by (simp add: ConnectUpstream_def sp split: sum.splits)
  show "tells (snd (DisconnectUpstream n s))"
    using assms by (simp add: DisconnectUpstream_def tells_conn tells_folds split: sum.splits option.splits)
  show "tells (upstreamDropped r n s)" using assms by (simp add: upstreamDropped_def tells_folds)
  show "tells (up_next s u)"
    using assms by (simp add: up_next_def Let_def tells_visible [OF visible_upd_conn] split: option.splits)
qed

lemma tells_cancel_run [simp]:
  "tells (cancel_run r s) = tells s" "told_more (cancel_run r s) = told_more s"
  by (rule tells_visible, simp) (rule told_more_visible, simp)

lemma tells_proxy_end: "tells s \<Longrightarrow> tells (proxy_end r reg err s)"
  by (simp add: proxy_end_def Let_def tells_folds tells_more)

lemma tells_clear: "tells s \<Longrightarrow> tells (s\<lparr>q_tunnels := [], q_reg := None, q_cfg := None, q_run := None\<rparr>)"
  by (auto simp: tells_def told_more_def agrees_def split: option.splits)

lemma tells_Stop: "tells s \<Longrightarrow> tells (snd (Stop w s))"
proof -
  assume t: "tells s"
  show ?thesis
    using t by (auto simp: Stop_def Let_def intro!: tells_clear tells_proxy_end tells_tunnel(5) split: option.splits)
qed

lemma tells_Start: "tells s \<Longrightarrow> tells (snd (Start_finish env s))"
proof -
  assume t: "tells s"
  then have "tells (fail e (s\<lparr>q_ports := np\<rparr>))" for e np by (simp add: fail_def tells_more)
  moreover have "tells (fail e s)" for e using t by (simp add: fail_def tells_more)
  moreover have "tells (Start_run cfg reg srv ts np s)" for cfg reg srv ts np
    using t by (simp add: Start_run_def Let_def tells_folds tells_more)
  ultimately show ?thesis unfolding Start_finish_def Let_def by (auto split: sum.splits prod.splits)
qed

lemma tells_autoconnect: "tells s \<Longrightarrow> tells (ctl_SetAutoconnect on s)"
proof -
  assume t: "tells s"
  let ?s = "s\<lparr>q_manualOnly := \<not> on\<rparr>"
  define s1 where "s1 = (case (q_cfg ?s, q_reg ?s, q_run ?s) of
      (Some cfg, Some reg, Some r) \<Rightarrow> applyAutoconnect r reg cfg ?s | _ \<Rightarrow> ?s)"
  have "tells s1" using t tells_folds(1) [of ?s] by (simp add: s1_def split: option.split)
  then have "tells (notify s1)" by (simp add: tells_more)
  then show ?thesis by (simp only: ctl_SetAutoconnect_def Let_def s1_def)
qed

lemma tells_step:
  assumes t: "tells s" and e: "ctl_step e s = Some s'"
    and n: "case e of EvSubscribe \<Rightarrow> False | EvUnsubscribe _ \<Rightarrow> False | _ \<Rightarrow> True"
  shows "tells s'"
proof (cases e)
  case (EvStartFinish env)
  with e tells_Start [OF t] show ?thesis by (auto split: if_splits)
next
  case SyncDecide
  with e t show ?thesis by (auto split: list.splits if_splits)
next
  case (SyncAct w)
  with e t tells_tunnel(4) [OF t] show ?thesis by (auto split: list.splits)
next
  case (ProxyServeEnds r err)
  with e tells_proxy_end [OF t] show ?thesis by (auto split: option.splits if_splits)
next
  case (EvUpNext k)
  with e tells_calls(6) [OF t] show ?thesis by (auto split: if_splits)
next
  case (EvUpReturn k)
  with e t show ?thesis by (auto simp: up_return_def tells_more split: if_splits)
next
  case (EvStop w)
  with e tells_Stop [OF t] show ?thesis by auto
next
  case (ConnChange r n b st)
  with e tells_conn [OF t] show ?thesis by (auto split: if_splits)
qed (use e t n in \<open>auto simp: Start_begin_def tells_autoconnect tells_calls tells_tunnel tells_more split: if_splits\<close>)

end

text \<open>Any subscribers at all: what one of them was told last agrees with the controller.\<close>

interpretation anyone: announcements "\<lambda>_. True" 0 None
  by unfold_locales simp_all

lemma anyone_iff: "anyone.tells s \<longleftrightarrow> (\<forall>l. Some l \<in> set (q_subs s) \<longrightarrow> l \<noteq> [] \<longrightarrow> agrees (last l) s)"
  by (auto simp: anyone.tells_def anyone.told_more_def last_told_def)

lemma anyone_step:
  assumes t: "anyone.tells s" and e: "ctl_step e s = Some s'"
  shows "anyone.tells s'"
proof (cases "case e of EvSubscribe \<Rightarrow> False | EvUnsubscribe _ \<Rightarrow> False | _ \<Rightarrow> True")
  case True
  from anyone.tells_step [OF t e this] show ?thesis .
next
  case False
  then have x: "s' = s\<lparr>q_subs := q_subs s'\<rparr>"
    using e by (cases e) (auto simp: Subscribe_def Unsubscribe_def)
  have y: "\<forall>l. Some l \<in> set (q_subs s') \<longrightarrow> l = [] \<or> Some l \<in> set (q_subs s)"
    using False e by (cases e) (auto simp: Subscribe_def Unsubscribe_def dest!: set_update_subset_insert [THEN subsetD] split: if_splits)
  have "agrees st s' = agrees st s" for st by (subst x) (simp add: agrees_def)
  with y t show ?thesis by (auto simp: anyone_iff)
qed

interpretation told: machine_invariant ctl_step "ctl_New path np" anyone.tells for path np
proof
  show "anyone.tells (ctl_New path np)" by (simp add: anyone_iff ctl_New_def)
  show "anyone.tells s'" if "anyone.tells s" "ctl_step e s = Some s'" for s e s'
    using that by (rule anyone_step)
qed

text \<open>
  The tray alone, after it was given \<open>p\<close>: it is given more, and if nothing came what agreed before still
  does.
\<close>

interpretation tray_alone: announcements "\<lambda>subs. \<exists>l. subs = [Some (p @ l)]" "length p" "Some st" for p st
  by unfold_locales auto

lemma tray_told_step:
  assumes "q_subs s = [Some p]" "agrees st s" "ctl_step e s = Some s'"
    and "case e of EvSubscribe \<Rightarrow> False | EvUnsubscribe _ \<Rightarrow> False | _ \<Rightarrow> True"
  shows "\<exists>l. q_subs s' = [Some (p @ l)] \<and> (if l = [] then agrees st s' else agrees (last l) s')"
proof -
  have "tray_alone.tells p st s" using assms(1,2)
    by (simp add: tray_alone.tells_def tray_alone.told_more_def last_told_def)
  from tray_alone.tells_step [OF this assms(3,4)] obtain l where l: "q_subs s' = [Some (p @ l)]"
    and "case last_told (length p) (Some st) (p @ l) of None \<Rightarrow> True | Some st \<Rightarrow> agrees st s'"
    by (auto simp: tray_alone.tells_def tray_alone.told_more_def)
  then show ?thesis by (cases "l = []") (auto simp: last_told_def)
qed

section \<open>The tray on top of the controller\<close>

text \<open>
  \<open>notify\<close> takes the snapshot under the lock and calls the subscriber after it has released it: \<open>ui_transit\<close>
  are the calls that are still to come. The tray's subscriber queues an update on the UI thread, as does
  the end of a menu action; \<open>ui_queue\<close> are the updates, \<open>None\<close> for one that takes its snapshot when it runs.
\<close>

record ui =
  ui_ctl :: ctl
  ui_tray :: tray
  ui_transit :: "status list"
  ui_queue :: "status option list"

definition ui_init :: "tray_view \<Rightarrow> bool option \<Rightarrow> string \<Rightarrow> net_ports \<Rightarrow> ui" where
  "ui_init v enabled path np =
     (let c = ctl_New path np
      in \<lparr>ui_ctl = fst (Subscribe c), ui_tray = NewTray v enabled (Snapshot c), ui_transit = [], ui_queue = []\<rparr>)"

definition told :: "ctl \<Rightarrow> status list" where
  "told s = (case q_subs s of Some l # _ \<Rightarrow> l | _ \<Rightarrow> [])"

definition ui_update :: "tray_view \<Rightarrow> status \<Rightarrow> status option \<Rightarrow> tray \<Rightarrow> tray" where
  "ui_update v now st t = paint_menu v now (applyIcon (case st of None \<Rightarrow> now | Some st \<Rightarrow> st) t)"

text \<open>The tray is the only subscriber, and never unsubscribes.\<close>

datatype ui_event = UCtl ctl_event | Deliver nat | UiRun | ActionStarts menu_act | ActionDone menu_act | Blink

fun ui_step :: "tray_view \<Rightarrow> ui_event \<Rightarrow> ui \<Rightarrow> ui option" where
  "ui_step v (UCtl e) u =
     (case e of
        EvSubscribe \<Rightarrow> None
      | EvUnsubscribe _ \<Rightarrow> None
      | _ \<Rightarrow> map_option (\<lambda>c. u\<lparr>ui_ctl := c, ui_transit := ui_transit u @ drop (length (told (ui_ctl u))) (told c)\<rparr>)
               (ctl_step e (ui_ctl u)))"
| "ui_step v (Deliver i) u =
     (if i < length (ui_transit u)
      then Some (u\<lparr>ui_transit := take i (ui_transit u) @ drop (Suc i) (ui_transit u),
                   ui_queue := ui_queue u @ [Some (ui_transit u ! i)]\<rparr>)
      else None)"
| "ui_step v UiRun u =
     (case ui_queue u of
        [] \<Rightarrow> None
      | st # q \<Rightarrow> Some (u\<lparr>ui_queue := q, ui_tray := ui_update v (Snapshot (ui_ctl u)) st (ui_tray u)\<rparr>))"
| "ui_step v (ActionStarts act) u = Some (u\<lparr>ui_tray := runBusy act (ui_tray u)\<rparr>)"
| "ui_step v (ActionDone act) u =
     (if act \<in> set (t_actions (ui_tray u))
      then Some (u\<lparr>ui_tray := runBusy_ends act (ui_tray u), ui_queue := ui_queue u @ [None]\<rparr>) else None)"
| "ui_step v Blink u = Some (u\<lparr>ui_tray := blinkTick (ui_tray u)\<rparr>)"

text \<open>The calls of the subscriber reach it in the order in which the snapshots were taken.\<close>

definition ordered_step :: "tray_view \<Rightarrow> ui_event \<Rightarrow> ui \<Rightarrow> ui option" where
  "ordered_step v e u = (if (case e of Deliver i \<Rightarrow> i = 0 | _ \<Rightarrow> True) then ui_step v e u else None)"

text \<open>What the tray displays agrees with the controller.\<close>

definition displays :: "tray \<Rightarrow> ctl \<Rightarrow> bool" where
  "displays t s \<longleftrightarrow> (\<exists>st. agrees st s \<and> t_blinkStop t = upstreamConnecting st
       \<and> (\<not> t_blinkStop t \<longrightarrow> t_icon t = (if q_state s = StateRunning then IconRunning else IconStopped) \<and> \<not> t_blinkOn t))
     \<and> (\<exists>v st. agrees st s \<and> t_menu t = rebuildMenu v st)"

definition pending :: "ui \<Rightarrow> status list" where
  "pending u = List.map_filter (\<lambda>st. st) (ui_queue u) @ ui_transit u"

definition ui_inv :: "ui \<Rightarrow> bool" where
  "ui_inv u \<longleftrightarrow> anyone.tells (ui_ctl u) \<and> q_subs (ui_ctl u) = [Some (told (ui_ctl u))]
     \<and> (t_blinkStop (ui_tray u) \<or> \<not> t_blinkOn (ui_tray u))
     \<and> (if pending u = [] then displays (ui_tray u) (ui_ctl u)
        else told (ui_ctl u) \<noteq> [] \<and> last (pending u) = last (told (ui_ctl u)))"

lemma displays_update:
  assumes "agrees st s" "t_blinkStop t \<or> \<not> t_blinkOn t"
  shows "displays (paint_menu v (Snapshot s) (applyIcon st t)) s"
  unfolding displays_def
proof (intro conjI exI)
  show "agrees st s" by fact
  show "agrees (Snapshot s) s" by simp
  have b: "t_blinkStop (paint_menu v now t) = t_blinkStop t" "t_icon (paint_menu v now t) = t_icon t"
    "t_blinkOn (paint_menu v now t) = t_blinkOn t" for now t by (simp_all add: paint_menu_def)
  show "t_blinkStop (paint_menu v (Snapshot s) (applyIcon st t)) = upstreamConnecting st" by (simp add: b)
  show "\<not> t_blinkStop (paint_menu v (Snapshot s) (applyIcon st t)) \<longrightarrow>
      t_icon (paint_menu v (Snapshot s) (applyIcon st t)) = (if q_state s = StateRunning then IconRunning else IconStopped)
      \<and> \<not> t_blinkOn (paint_menu v (Snapshot s) (applyIcon st t))"
    using assms applyIcon_off [of t st] by (auto simp: b state_icon_def agrees_def)
  show "t_menu (paint_menu v (Snapshot s) (applyIcon st t))
      = rebuildMenu (v\<lparr>tv_forwardUp := t_forwardUp (applyIcon st t), tv_autostart := t_autostart (applyIcon st t)\<rparr>) (Snapshot s)"
    by (simp add: paint_menu_def)
qed

lemma pending_simps [simp]:
  "pending (u\<lparr>ui_ctl := c, ui_transit := x\<rparr>) = List.map_filter (\<lambda>st. st) (ui_queue u) @ x"
  "pending (u\<lparr>ui_tray := t\<rparr>) = pending u"
  by (simp_all add: pending_def)

lemma displays_kept:
  assumes "displays t s" "\<And>st. agrees st s \<Longrightarrow> agrees st s'"
  shows "displays t s'"
proof -
  from assms(1) obtain st v st' where d: "agrees st s" "t_blinkStop t = upstreamConnecting st"
    "\<not> t_blinkStop t \<longrightarrow> t_icon t = (if q_state s = StateRunning then IconRunning else IconStopped) \<and> \<not> t_blinkOn t"
    "agrees st' s" "t_menu t = rebuildMenu v st'" unfolding displays_def by blast
  have "q_state s' = q_state s" using d(1) assms(2) [OF d(1)] by (simp add: agrees_def)
  with d assms(2) show ?thesis unfolding displays_def by auto
qed

lemma ui_inv_ctl:
  assumes I: "ui_inv u" and e: "ctl_step e (ui_ctl u) = Some c"
    and n: "case e of EvSubscribe \<Rightarrow> False | EvUnsubscribe _ \<Rightarrow> False | _ \<Rightarrow> True"
  shows "ui_inv (u\<lparr>ui_ctl := c, ui_transit := ui_transit u @ drop (length (told (ui_ctl u))) (told c)\<rparr>)"
proof -
  let ?s = "ui_ctl u" and ?p = "told (ui_ctl u)"
  have q: "q_subs ?s = [Some ?p]" using I by (simp add: ui_inv_def)
  obtain l where l: "q_subs c = [Some (?p @ l)]"
    using tray_told_step [OF q agrees_Snapshot e n] by blast
  then have t: "told c = ?p @ l" by (simp add: told_def)
  have kept: "agrees st c" if "agrees st ?s" "l = []" for st
    using tray_told_step [OF q that(1) e n] l that(2) by auto
  have a: "anyone.tells c" using I anyone_step [OF _ e] by (simp add: ui_inv_def)
  have p: "pending (u\<lparr>ui_ctl := c, ui_transit := ui_transit u @ drop (length ?p) (told c)\<rparr>) = pending u @ l"
    by (simp add: t pending_def)
  show ?thesis
  proof (cases "l = []")
    case True
    with I t l a displays_kept [of "ui_tray u" ?s c] kept show ?thesis
      unfolding ui_inv_def p by (auto split: if_splits)
  next
    case False
    with I t l a show ?thesis unfolding ui_inv_def p by simp
  qed
qed

lemma ui_inv_tray:
  assumes "ui_inv u" "t_blinkStop t \<or> \<not> t_blinkOn t" "displays (ui_tray u) (ui_ctl u) \<Longrightarrow> displays t (ui_ctl u)"
  shows "ui_inv (u\<lparr>ui_tray := t\<rparr>)"
  using assms by (auto simp: ui_inv_def)

lemma ui_inv_cong: "ui_inv u \<Longrightarrow> pending u' = pending u \<Longrightarrow> ui_ctl u' = ui_ctl u \<Longrightarrow> ui_tray u' = ui_tray u \<Longrightarrow> ui_inv u'"
  by (simp add: ui_inv_def)

lemma ui_inv_step:
  assumes I: "ui_inv u" and e: "ordered_step v e u = Some u'"
  shows "ui_inv u'"
proof (cases e)
  case (UCtl ce)
  with e have n: "case ce of EvSubscribe \<Rightarrow> False | EvUnsubscribe _ \<Rightarrow> False | _ \<Rightarrow> True"
    by (cases ce) (simp_all add: ordered_step_def)
  with UCtl e obtain c where "ctl_step ce (ui_ctl u) = Some c"
    "u' = u\<lparr>ui_ctl := c, ui_transit := ui_transit u @ drop (length (told (ui_ctl u))) (told c)\<rparr>"
    by (cases ce) (auto simp: ordered_step_def simp del: ctl_step.simps)
  with ui_inv_ctl [OF I _ n] show ?thesis by simp
next
  case (Deliver i)
  with e obtain st rest where "ui_transit u = st # rest" "u' = u\<lparr>ui_transit := rest, ui_queue := ui_queue u @ [Some st]\<rparr>"
    by (cases "ui_transit u") (auto simp: ordered_step_def split: if_splits)
  with I show ?thesis by (simp add: ui_inv_def pending_def List.map_filter_def)
next
  case UiRun
  with e obtain r q where q: "ui_queue u = r # q"
    and u': "u' = u\<lparr>ui_queue := q, ui_tray := ui_update v (Snapshot (ui_ctl u)) r (ui_tray u)\<rparr>"
    by (auto simp: ordered_step_def split: list.splits)
  define st where "st = (case r of None \<Rightarrow> Snapshot (ui_ctl u) | Some st \<Rightarrow> st)"
  have t: "ui_update v (Snapshot (ui_ctl u)) r (ui_tray u) = paint_menu v (Snapshot (ui_ctl u)) (applyIcon st (ui_tray u))"
    by (simp add: ui_update_def st_def)
  have off: "t_blinkStop (ui_tray u) \<or> \<not> t_blinkOn (ui_tray u)" using I by (simp add: ui_inv_def)
  then have b: "t_blinkStop (ui_tray u') \<or> \<not> t_blinkOn (ui_tray u')"
    using applyIcon_off [of "ui_tray u" st] by (auto simp: u' t paint_menu_def)
  have p: "pending u = (case r of None \<Rightarrow> [] | Some st \<Rightarrow> [st]) @ pending u'"
    by (simp add: pending_def u' q List.map_filter_def split: option.split)
  have "displays (ui_tray u') (ui_ctl u)" if "pending u' = []"
  proof -
    have "agrees st (ui_ctl u)"
    proof (cases r)
      case None
      then show ?thesis by (simp add: st_def)
    next
      case (Some x)
      then have "told (ui_ctl u) \<noteq> []" "last (told (ui_ctl u)) = x" using I p that by (simp_all add: ui_inv_def)
      moreover have "anyone.tells (ui_ctl u)" "q_subs (ui_ctl u) = [Some (told (ui_ctl u))]" using I by (simp_all add: ui_inv_def)
      ultimately show ?thesis by (simp add: st_def Some anyone_iff)
    qed
    from displays_update [OF this off] show ?thesis by (simp add: u' t)
  qed
  moreover have "told (ui_ctl u) \<noteq> [] \<and> last (pending u') = last (told (ui_ctl u))" if "pending u' \<noteq> []"
    using I p that by (simp add: ui_inv_def split: option.splits)
  moreover have "ui_ctl u' = ui_ctl u" by (simp add: u')
  ultimately show ?thesis using I b by (simp add: ui_inv_def)
next
  case (ActionStarts act)
  with e have "u' = u\<lparr>ui_tray := runBusy act (ui_tray u)\<rparr>" by (simp add: ordered_step_def)
  moreover have "ui_inv (u\<lparr>ui_tray := runBusy act (ui_tray u)\<rparr>)"
    by (rule ui_inv_tray [OF I]) (use I in \<open>simp_all add: ui_inv_def displays_def runBusy_def\<close>)
  ultimately show ?thesis by simp
next
  case (ActionDone act)
  let ?u = "u\<lparr>ui_tray := runBusy_ends act (ui_tray u)\<rparr>"
  have "ui_inv ?u" by (rule ui_inv_tray [OF I]) (use I in \<open>simp_all add: ui_inv_def displays_def runBusy_ends_def\<close>)
  moreover from ActionDone e have u': "u' = ?u\<lparr>ui_queue := ui_queue u @ [None]\<rparr>"
    by (auto simp: ordered_step_def split: if_splits)
  have "pending u' = pending ?u" by (simp add: u' pending_def List.map_filter_def)
  moreover have "ui_ctl u' = ui_ctl ?u" "ui_tray u' = ui_tray ?u" by (simp_all add: u')
  ultimately show ?thesis using ui_inv_cong by blast
next
  case Blink
  with e have "u' = u\<lparr>ui_tray := blinkTick (ui_tray u)\<rparr>" by (simp add: ordered_step_def)
  moreover have "ui_inv (u\<lparr>ui_tray := blinkTick (ui_tray u)\<rparr>)"
    by (rule ui_inv_tray [OF I]) (use I in \<open>auto simp: ui_inv_def displays_def blinkTick_def Let_def\<close>)
  ultimately show ?thesis by simp
qed

interpretation settled: machine_invariant "ordered_step v" "ui_init v enabled path np" ui_inv for v enabled path np
proof
  let ?c = "ctl_New path np"
  have c: "q_subs (fst (Subscribe ?c)) = [Some []]" "q_cfg (fst (Subscribe ?c)) = None" "anyone.tells (fst (Subscribe ?c))"
    by (simp_all add: ctl_New_def Subscribe_def anyone_iff)
  have a: "agrees (Snapshot ?c) (fst (Subscribe ?c))"
    by (simp add: agrees_def Snapshot_def Subscribe_def ctl_New_def)
  have n: "\<not> upstreamConnecting (Snapshot ?c)" by (simp add: upstreamConnecting_def Snapshot_def ctl_New_def)
  have "displays (NewTray v enabled (Snapshot ?c)) (fst (Subscribe ?c))"
    unfolding displays_def
  proof (intro conjI exI)
    show "agrees (Snapshot ?c) (fst (Subscribe ?c))" "agrees (Snapshot ?c) (fst (Subscribe ?c))" by (rule a)+
    show "t_blinkStop (NewTray v enabled (Snapshot ?c)) = upstreamConnecting (Snapshot ?c)"
      by (simp add: NewTray_def paint_menu_def)
    show "\<not> t_blinkStop (NewTray v enabled (Snapshot ?c)) \<longrightarrow>
        t_icon (NewTray v enabled (Snapshot ?c)) = (if q_state (fst (Subscribe ?c)) = StateRunning then IconRunning else IconStopped)
        \<and> \<not> t_blinkOn (NewTray v enabled (Snapshot ?c))"
      using n by (simp add: NewTray_def paint_menu_def applyIcon_def refreshAutostart_def state_icon_def Snapshot_def
          Subscribe_def ctl_New_def split: option.splits)
    show "t_menu (NewTray v enabled (Snapshot ?c)) =
        rebuildMenu (v\<lparr>tv_forwardUp := t_forwardUp (NewTray v enabled (Snapshot ?c)),
          tv_autostart := t_autostart (NewTray v enabled (Snapshot ?c))\<rparr>) (Snapshot ?c)"
      by (simp add: NewTray_def paint_menu_def)
  qed
  moreover have "t_blinkStop (NewTray v enabled (Snapshot ?c)) \<or> \<not> t_blinkOn (NewTray v enabled (Snapshot ?c))"
    by (simp add: NewTray_def paint_menu_def applyIcon_def refreshAutostart_def split: option.splits)
  ultimately show "ui_inv (ui_init v enabled path np)"
    using c by (simp add: ui_inv_def ui_init_def Let_def pending_def List.map_filter_def told_def)
  show "ui_inv u'" if "ui_inv u" "ordered_step v e u = Some u'" for u e u'
    using that by (rule ui_inv_step)
qed

section \<open>Properties\<close>

text \<open>C14. Every change is announced: in every reachable state of the controller, what a subscriber was told last
  has the controller's state, address and error, and while there is a configuration it is the snapshot of
  the controller, tunnels and connections included. Only the end of a \<open>Stop\<close> goes unannounced, which
  takes the configuration away.\<close>

theorem every_change_is_announced:
  assumes "ctl_reach path np s" "Some l \<in> set (q_subs s)" "l \<noteq> []"
  shows "st_State (last l) = q_state s \<and> st_ListenAddr (last l) = q_listen s \<and> st_LastError (last l) = q_lastErr s
    \<and> (q_cfg s \<noteq> None \<longrightarrow> last l = Snapshot s)"
  using told.holds [OF assms(1)] assms(2,3) by (simp add: anyone_iff agrees_def)

lemma every_change_is_announced_witness:
  "\<exists>s l. run_events ctl_step [EvSubscribe, EvStartBegin] (ctl_New ''dockprox.yaml'' sample_ports) = Some s
     \<and> q_subs s = [Some l] \<and> st_State (last l) = StateStarting"
proof -
  obtain s l where s: "run_events ctl_step [EvSubscribe, EvStartBegin] (ctl_New ''dockprox.yaml'' sample_ports) = Some s"
    "q_subs s = [Some l]" "l \<noteq> []" "q_state s = StateStarting"
    by (simp add: Subscribe_def ctl_New_def Start_begin_def notify_def)
  from every_change_is_announced [OF run_reachable [OF s(1)], of l] s show ?thesis by auto
qed



text \<open>The order is not guaranteed: of two announcements on their way the older can arrive last, and the icon
  then stays with it, although nothing is on its way any more.\<close>

theorem late_announcement_wins:
  assumes "ui_transit u = [old, new]" "ui_queue u = []"
  shows "\<exists>u'. run_events (ui_step v) [Deliver 1, Deliver 0, UiRun, UiRun] u = Some u'
    \<and> ui_ctl u' = ui_ctl u \<and> ui_transit u' = [] \<and> ui_queue u' = [] \<and> t_blinkStop (ui_tray u') = upstreamConnecting old"
  using assms by (simp add: ui_update_def paint_menu_def)

definition sample_ui :: ui where
  "sample_ui = (ui_init sample_view None ''dockprox.yaml'' sample_ports)
     \<lparr>ui_transit := [sample_status ConnConnecting, sample_status ConnConnected]\<rparr>"

lemma late_announcement_wins_witness:
  "\<exists>u'. run_events (ui_step sample_view) [Deliver 1, Deliver 0, UiRun, UiRun] sample_ui = Some u'
    \<and> ui_transit u' = [] \<and> ui_queue u' = [] \<and> t_blinkStop (ui_tray u')"
proof -
  have u: "ui_transit sample_ui = [sample_status ConnConnecting, sample_status ConnConnected]" "ui_queue sample_ui = []"
    by (simp_all add: sample_ui_def ui_init_def Let_def)
  have "upstreamConnecting (sample_status ConnConnecting)" by (simp add: upstreamConnecting_def sample_status_def)
  with late_announcement_wins [OF u, of sample_view] show ?thesis by blast
qed

end
