(* ===== verification/Spec2Isabelle.thy ===== *)
theory Spec2Isabelle
  imports ControllerPorts Commands SshDialer Relay App Notices
begin

text \<open>
  A verification development for dockprox, a split-routing proxy: an HTTP proxy and any number of SOCKS5
  and TCP-forward listeners hand each connection to an upstream (direct, a local forward, an HTTP or
  SOCKS5 proxy, an ssh jump host, a VPN run through openconnect) that the first matching rule, or the
  listener's pin, names. It runs as a command (\<open>dockprox serve\<close>) or inside a macOS menu bar app.

  \<^bold>\<open>Parts and theories.\<close> The theories follow the code's packages, each with the state the code keeps as a
  record, its data as datatypes, and one definition per function or goroutine step:

    \<^item> Prelude, GoLib, Base64, Machine: results as sums, Go maps as association lists, the functions
      of the Go library that the code computes with, and state machines (\<open>reachable\<close>, \<open>run_events\<close>, the
      locales \<open>machine_invariant\<close> and \<open>machine_progress\<close>).
    \<^item> Match (\<open>pkg/match\<close>): compiled patterns and the lookup, against a linear search.
    \<^item> Config, Load, Cli (\<open>pkg/config\<close>, \<open>internal/menubar/config.go\<close>, the flags of \<open>internal/cli/serve.go\<close>):
      the configuration, its validation against the specification \<open>valid_config\<close>, loading it, the log file.
    \<^item> Secret (\<open>pkg/secret\<close>): secret references and their cache.
    \<^item> Conn, Socks5Server, Relay (\<open>pkg/socks5server/handler.go\<close>, the splices and \<open>pipe\<close>): connections as
      byte streams, the SOCKS5 server, and the two copies of a relay as interleaved steps.
    \<^item> SshTarget, SshConn, SshClient (\<open>pkg/sshclient\<close>): credentials and host keys; one dial, its deadline,
      the keepalive; the client that shares one connection between goroutines, as a machine.
    \<^item> OpenConnect, VpnClient (\<open>pkg/openconnect\<close>, \<open>internal/cli/tun.go\<close>): programs, command lines, the
      sudoers file; the life of the VPN process, as a machine.
    \<^item> Upstream, Registry, SshDialer (\<open>pkg/upstream\<close>): the dialers, how the registry builds them from
      the configuration, and how an ssh upstream brings up the one it goes through.
    \<^item> Route, Serve, ServerLife (\<open>pkg/proxy\<close>, \<open>pkg/portforward\<close>, \<open>pkg/socks5server/server.go\<close>,
      \<open>pkg/listener\<close>, \<open>runServe\<close>): picking an upstream, the handlers, binding, and the accept loops in
      their error group.
    \<^item> Controller, ControllerInv, ControllerCalls, ControllerConns, Connection, ControllerPorts
      (\<open>internal/menubar/controller.go\<close>, \<open>foreground.go\<close>): the controller of the embedded proxy as a machine of
      the menu's calls, its goroutines and the network; its invariants; the contract of a connection that it
      shares with the ssh and the VPN client; its account of the addresses it has bound.
    \<^item> Menubar, App (\<open>tunnelrow.go\<close>, \<open>settings.go\<close>, \<open>forward.go\<close>, \<open>chrome.go\<close>, \<open>tray.go\<close> of
      \<open>internal/menubar\<close>, \<open>cmd/dockprox-menubar/main.go\<close>): the menu, and the app over its launches.
    \<^item> Notices (\<open>notify\<close>, \<open>NewTray\<close>): what the controller announces, and the tray on top of it, with the
      announcements on their way to the UI thread, as one machine.
    \<^item> Commands (\<open>cmd/dockprox/dockprox.go\<close>, \<open>internal/cli/root.go\<close>, \<open>version.go\<close>, \<open>internal/menubar/reveal.go\<close>):
      the result of a command, its exit code and what it prints.

  \<^bold>\<open>Interfaces.\<close> \<open>wire_codec\<close> (message formats read back from a stream: SOCKS5 request and greeting), \<open>router\<close>
  and \<open>pinned_router\<close> (what a server asks of matcher and registry), \<open>connection\<close> (what the controller assumes of
  a client: interpreted on the ssh client, the VPN client and the controller's connections),
  \<open>ctl_frame\<close> (what the calls on tunnels leave alone), \<open>conn_invariant\<close> (what a property of connections has
  to survive) and \<open>announcements\<close> (what a notification keeps of the subscribers), each interpreted on
  the model's own definitions.

  \<^bold>\<open>What the lemmas show.\<close> Functional: lookups, validation, handlers and dialers do what their
  specifications say on every branch, errors included; both ends of the SOCKS5 protocol meet; the quoting
  of the sudoers installation survives two languages. Invariants over all interleavings: no ssh connection
  leaks, one VPN process at a time, nothing connects after \<open>Down\<close> until \<open>Up\<close>, tunnels follow their
  upstream, the controller is well-formed and holds exactly the addresses of its servers, the saved
  autoconnect setting is in force, what the subscribers were told last is what the controller is; on top
  of that the tray settles on the controller's state, if the announcements keep their order. Progress: the
  mutex of the ssh client is released, the relay ends, the keepalive settles, \<open>serve\<close> ends, and its exit
  code says why. Some theorems and lemmas show where the code falls short of its comments; they say so.

  \<^bold>\<open>How state and concurrency are represented.\<close> A goroutine's access to shared variables is one event of its
  machine; what a mutex protects changes in one step while it is held, atomics change in steps of their
  own. An event is refused (\<open>None\<close>) where the code cannot take it. Calls of the controller that hold \<open>mu\<close> are
  one step, and what they start (\<open>Serve\<close>, \<open>go c.syncTunnels\<close>, the background \<open>Up\<close>) are later steps. The
  addresses bound by the process are explicit (\<open>net_ports\<close>), as are the files the code writes.

  \<^bold>\<open>Bounds.\<close> All recursions terminate without fuel. The bounds that appear are the code's: 10 lines of
  output tail, 255 bytes of a SOCKS5 host, 200 characters of a tool's error, the keepalive's budgets in
  seconds (15, 5 and 120), one deadline for all of \<open>waitDone\<close>. Those of the progress theorems are proved:
  at most four steps per server until \<open>serve\<close> returns, and a measure bounds the steps until the mutex of
  the ssh client is released. Ports are machine words where the code's are; other Go integers are natural
  numbers or integers, as none of them can overflow.

  \<^bold>\<open>Parameters.\<close> What is not this code is an argument: the operating system's files, programs and sockets
  (\<open>os_env\<close>, \<open>secret_os\<close>, \<open>ssh_host\<close>, \<open>vpn_host\<close>, \<open>net_env\<close>, \<open>net_ports\<close>), \<open>net/http\<close>'s parser and printer
  (\<open>http_lib\<close>), \<open>url.Parse\<close>, YAML and JSON decoding, the ssh library, the agent and the known hosts file.
  What is assumed of them is a hypothesis where it is used, with a witness.

  \<^bold>\<open>Not modelled.\<close> Cobra's and wails' wiring (\<open>NewRoot\<close>, the flag declarations, the application object and
  its signal handler), \<open>fang\<close>'s styled output, the generators of documentation and schema, embedded icons,
  logging, the Objective-C part of the activation, panics and their recovery, read and write deadlines of
  sockets, file permissions, strings beyond ASCII in \<open>ToLower\<close> and \<open>TrimSpace\<close>. The methods that only pass
  a call on to a client (\<open>SSHDialer.Down\<close> and the like) have no definition of their own.
\<close>

end
